(* ===== verification/Prelude.thy ===== *)
theory Prelude
  imports Main "HOL-Library.Word"
begin

text \<open>
  What every component shares: byte strings, the outcome of Go code that may panic, the
  fact collections of the development, and generic lemmas on lists and words.

  A Go function that returns a value becomes a HOL function; where it can panic its result
  is an \<open>'a go\<close>. \<open>BadMemory\<close> stands for a read or a write through an \<open>unsafe.Pointer\<close>
  whose memory does not hold the Go type the code assumes: the Go runtime gives no meaning
  to it, so the model makes it an observable failure that the theorems exclude.
\<close>

type_synonym byte = "8 word"
type_synonym bytes = "8 word list"

datatype panic =
    IndexOutOfRange
  | NilDeref
  | BadMemory
  | StackOverflow
  | DivideByZero
  | ExplicitPanic string

datatype 'a go = Ok 'a | Panic panic

primrec gobind :: "'a go \<Rightarrow> ('a \<Rightarrow> 'b go) \<Rightarrow> 'b go" where
  "gobind (Ok x) k = k x"
| "gobind (Panic e) k = Panic e"

primrec is_Ok :: "'a go \<Rightarrow> bool" where
  "is_Ok (Ok x) = True"
| "is_Ok (Panic e) = False"

named_theorems table_simps \<open>the constant tables of the reflect package, evaluated\<close>
named_theorems wf_dests \<open>what well-formedness of a type or a descriptor gives\<close>

lemma gobind_Ok_iff [simp]: "gobind m k = Ok y \<longleftrightarrow> (\<exists>x. m = Ok x \<and> k x = Ok y)"
  by (cases m) auto

lemma gobind_assoc: "gobind (gobind m f) g = gobind m (\<lambda>x. gobind (f x) g)"
  by (cases m) auto

lemma is_Ok_iff: "is_Ok m \<longleftrightarrow> (\<exists>x. m = Ok x)"
  by (cases m) auto

lemma gobind_cong [cong]:
  "m = m' \<Longrightarrow> (\<And>x. m' = Ok x \<Longrightarrow> k x = k' x) \<Longrightarrow> gobind m k = gobind m' k'"
  by (cases m') auto

subsection \<open>Slicing, as Go's bounds checks do it\<close>

text \<open>\<open>b[i:]\<close>: panics when \<open>i\<close> is past the end.\<close>

definition sliceFrom :: "'a list \<Rightarrow> nat \<Rightarrow> 'a list go" where
  "sliceFrom b i = (if i \<le> length b then Ok (drop i b) else Panic IndexOutOfRange)"

text \<open>\<open>b[i:j]\<close>.\<close>

definition sliceRange :: "'a list \<Rightarrow> nat \<Rightarrow> nat \<Rightarrow> 'a list go" where
  "sliceRange b i j =
     (if i \<le> j \<and> j \<le> length b then Ok (take (j - i) (drop i b)) else Panic IndexOutOfRange)"

text \<open>\<open>b[i]\<close>.\<close>

definition index :: "'a list \<Rightarrow> nat \<Rightarrow> 'a go" where
  "index b i = (if i < length b then Ok (b ! i) else Panic IndexOutOfRange)"

lemma sliceFrom_le [simp]: "i \<le> length b \<Longrightarrow> sliceFrom b i = Ok (drop i b)"
  by (simp add: sliceFrom_def)

lemma sliceRange_ok [simp]:
  "i \<le> j \<Longrightarrow> j \<le> length b \<Longrightarrow> sliceRange b i j = Ok (take (j - i) (drop i b))"
  by (simp add: sliceRange_def)

lemma index_lt [simp]: "i < length b \<Longrightarrow> index b i = Ok (b ! i)"
  by (simp add: index_def)

subsection \<open>Lists\<close>

lemma nth_append_at [simp]: "(xs @ y # ys) ! length xs = y"
  by simp

lemma length_ge_Cons: "Suc n \<le> length b \<Longrightarrow> \<exists>x c. b = x # c \<and> n \<le> length c"
  by (cases b) auto

lemma take_drop_Suc:
  assumes "n + k \<le> length b"
  shows "take k (drop n b) @ drop (n + k) b = drop n b"
  by (simp add: add.commute flip: drop_drop)

lemma in_set_sum_le: "x \<in> set xs \<Longrightarrow> f x \<le> (sum_list (map f xs) :: nat)"
  by (induction xs) auto

lemma map_of_SomeI: "distinct (map fst kvs) \<Longrightarrow> (k, v) \<in> set kvs \<Longrightarrow> map_of kvs k = Some v"
  by simp

subsection \<open>Words\<close>

lemma of_nat_word_eq_0_lt: "n < 2 ^ LENGTH('a) \<Longrightarrow> (of_nat n :: 'a::len word) = 0 \<longleftrightarrow> n = 0"
proof -
  assume "n < 2 ^ LENGTH('a)"
  then have "2 ^ LENGTH('a) dvd n \<Longrightarrow> n = 0" using dvd_imp_le by fastforce
  then show ?thesis by (auto simp: word_of_nat_eq_0_iff)
qed

lemma unat_of_nat_lt: "n < 2 ^ LENGTH('a) \<Longrightarrow> unat (of_nat n :: 'a::len word) = n"
  by (simp add: unat_of_nat)

end
