(* ===== verification/DefsTypes.thy ===== *)
theory DefsTypes
  imports Prelude
begin

text \<open>
  \<^verbatim>\<open>internal/defs/types.go\<close>, the data part: the tags of a Thrift type, the descriptor
  \<^verbatim>\<open>Type\<close> the tag parser produces, and its methods. A Go \<^verbatim>\<open>reflect.Type\<close> is the datatype
  \<open>rtype\<close>: kind, package path and name of a basic type, the element types of the composed
  ones, and an identity with a name for a struct type.
\<close>

subsection \<open>reflect.Kind and reflect.Type\<close>

datatype kind =
    K_Bool | K_Int | K_Int8 | K_Int16 | K_Int32 | K_Int64
  | K_Uint | K_Uint8 | K_Uint16 | K_Uint32 | K_Uint64 | K_Uintptr
  | K_Float32 | K_Float64 | K_Complex64 | K_Complex128
  | K_Array | K_Chan | K_Func | K_Interface | K_Map | K_Ptr | K_Slice | K_String
  | K_Struct | K_UnsafePointer

datatype rtype =
    RBasic kind string string \<comment> \<open>kind, \<^verbatim>\<open>PkgPath()\<close>, \<^verbatim>\<open>Name()\<close>\<close>
  | RPtr rtype
  | RSlice string rtype
  | RArray string nat rtype
  | RMap string rtype rtype
  | RStruct nat string \<comment> \<open>the type's identity and its \<^verbatim>\<open>Name()\<close>\<close>

fun rt_Kind :: "rtype \<Rightarrow> kind" where
  "rt_Kind (RBasic k p n) = k"
| "rt_Kind (RPtr e) = K_Ptr"
| "rt_Kind (RSlice n e) = K_Slice"
| "rt_Kind (RArray n l e) = K_Array"
| "rt_Kind (RMap n k v) = K_Map"
| "rt_Kind (RStruct i n) = K_Struct"

fun rt_Name :: "rtype \<Rightarrow> string" where
  "rt_Name (RBasic k p n) = n"
| "rt_Name (RPtr e) = []"
| "rt_Name (RSlice n e) = n"
| "rt_Name (RArray n l e) = n"
| "rt_Name (RMap n k v) = n"
| "rt_Name (RStruct i n) = n"

text \<open>\<^verbatim>\<open>Elem()\<close> and \<^verbatim>\<open>Key()\<close> panic on the other kinds.\<close>

fun rt_Elem :: "rtype \<Rightarrow> rtype go" where
  "rt_Elem (RPtr e) = Ok e"
| "rt_Elem (RSlice n e) = Ok e"
| "rt_Elem (RArray n l e) = Ok e"
| "rt_Elem (RMap n k v) = Ok v"
| "rt_Elem r = Panic (ExplicitPanic ''reflect: Elem of invalid type'')"

fun rt_Key :: "rtype \<Rightarrow> rtype go" where
  "rt_Key (RMap n k v) = Ok k"
| "rt_Key r = Panic (ExplicitPanic ''reflect: Key of non-map type'')"

definition i64type :: rtype where
  "i64type = RBasic K_Int64 [] ''int64''"

definition bytetype :: rtype where
  "bytetype = RBasic K_Uint8 [] ''uint8''"

subsection \<open>Tags\<close>

type_synonym Tag = "8 word"

abbreviation T_bool :: Tag where "T_bool \<equiv> 2"
abbreviation T_i8 :: Tag where "T_i8 \<equiv> 3"
abbreviation T_double :: Tag where "T_double \<equiv> 4"
abbreviation T_i16 :: Tag where "T_i16 \<equiv> 6"
abbreviation T_i32 :: Tag where "T_i32 \<equiv> 8"
abbreviation T_i64 :: Tag where "T_i64 \<equiv> 10"
abbreviation T_string :: Tag where "T_string \<equiv> 11"
abbreviation T_struct :: Tag where "T_struct \<equiv> 12"
abbreviation T_map :: Tag where "T_map \<equiv> 13"
abbreviation T_set :: Tag where "T_set \<equiv> 14"
abbreviation T_list :: Tag where "T_list \<equiv> 15"
abbreviation T_enum :: Tag where "T_enum \<equiv> 0x80"
abbreviation T_binary :: Tag where "T_binary \<equiv> 0x81"
abbreviation T_pointer :: Tag where "T_pointer \<equiv> 0x82"

definition IsWireTag :: "Tag \<Rightarrow> bool" where
  "IsWireTag t \<longleftrightarrow> t \<in> set [T_bool, T_i8, T_double, T_i16, T_i32, T_i64, T_string, T_struct,
     T_map, T_set, T_list]"

subsection \<open>Type descriptors\<close>

text \<open>\<^verbatim>\<open>type Type struct { T Tag; K, V *Type; S reflect.Type }\<close>.\<close>

datatype Type = Type (ty_T: Tag) (ty_K: "Type option") (ty_V: "Type option") (ty_S: rtype)

fun Type_Tag :: "Type \<Rightarrow> Tag go" where
  "Type_Tag (Type t k v s) =
     (if t = T_enum then Ok T_i32
      else if t = T_binary then Ok T_string
      else if t = T_pointer then (case v of None \<Rightarrow> Panic NilDeref | Some v' \<Rightarrow> Type_Tag v')
      else Ok t)"

fun Type_IsEnum :: "Type \<Rightarrow> bool go" where
  "Type_IsEnum (Type t k v s) =
     (if t = T_enum then Ok True
      else if t = T_pointer then (case v of None \<Rightarrow> Panic NilDeref | Some v' \<Rightarrow> Type_IsEnum v')
      else Ok False)"

definition ty_deref :: "Type option \<Rightarrow> Type go" where
  "ty_deref v = (case v of None \<Rightarrow> Panic NilDeref | Some v' \<Rightarrow> Ok v')"

definition Type_IsKeyType :: "Type \<Rightarrow> bool go" where
  "Type_IsKeyType t =
     (if ty_T t \<in> set [T_bool, T_i8, T_double, T_i16, T_i32, T_i64, T_string, T_enum] then Ok True
      else if ty_T t = T_pointer then gobind (ty_deref (ty_V t)) (\<lambda>v. Ok (ty_T v = T_struct))
      else Ok False)"

definition Type_IsValueType :: "Type \<Rightarrow> bool go" where
  "Type_IsValueType t =
     (if ty_T t \<noteq> T_pointer then Ok True
      else gobind (ty_deref (ty_V t)) (\<lambda>v. Ok (ty_T v = T_struct)))"

definition Type_IsSimpleType :: "Type \<Rightarrow> bool" where
  "Type_IsSimpleType t \<longleftrightarrow>
     ty_T t \<in> set [T_bool, T_i8, T_double, T_i16, T_i32, T_i64, T_string, T_enum]"

text \<open>The descriptors \<^verbatim>\<open>ParseType\<close> can return: the shape each tag has.\<close>

fun valid_Type :: "Type \<Rightarrow> bool" where
  "valid_Type (Type t k v s) \<longleftrightarrow>
     (if t \<in> set [T_bool, T_i8, T_double, T_i16, T_i32, T_i64, T_string, T_struct, T_enum, T_binary]
        then k = None \<and> v = None
      else if t = T_map then
        (case (k, v) of (Some k', Some v') \<Rightarrow>
           valid_Type k' \<and> valid_Type v' \<and> Type_IsKeyType k' = Ok True \<and> Type_IsValueType v' = Ok True
         | _ \<Rightarrow> False)
      else if t = T_set \<or> t = T_list then
        k = None \<and> (case v of Some v' \<Rightarrow> valid_Type v' \<and> Type_IsValueType v' = Ok True | None \<Rightarrow> False)
      else if t = T_pointer then
        k = None \<and> (case v of Some v' \<Rightarrow> valid_Type v' \<and> ty_T v' \<noteq> T_pointer | None \<Rightarrow> False)
      else False)"

end
