(* ===== verification/GoMemory.thy ===== *)
theory GoMemory
  imports Prelude
begin

text \<open>
  The memory the encoder and the decoder work on through \<^verbatim>\<open>unsafe.Pointer\<close>. A cell holds a
  Go value of one type; a pointer is \<open>None\<close> (nil) or the cell it points to. A struct is its
  fields by their offset, so \<^verbatim>\<open>unsafe.Add(base, off)\<close> is a lookup. Loads check that the cell
  holds what the cast says it does. A map value keeps the count \<^verbatim>\<open>maplen\<close> reads apart from
  the entries an iteration visits, so that a map that changes during encoding is a value of
  the model.

  Go object graphs with cycles (on which the encoder recurses until the stack overflows) are
  not values of this type.
\<close>

datatype gval =
    VByte byte \<comment> \<open>\<^verbatim>\<open>bool\<close>, \<^verbatim>\<open>int8\<close>\<close>
  | VI16 "16 word"
  | VI32 "32 word"
  | VI64 "64 word" \<comment> \<open>\<^verbatim>\<open>int64\<close>, enums, and the bits of a \<^verbatim>\<open>float64\<close>\<close>
  | VString bytes
  | VBytes "bytes option" \<comment> \<open>\<^verbatim>\<open>[]byte\<close>, nil or not\<close>
  | VSlice "gval list option"
  | VMap "(nat \<times> (gval \<times> gval) list) option"
  | VPtr "gval option"
  | VStruct "(nat \<times> gval) list"
  | VUndef \<comment> \<open>memory that was not cleared\<close>

type_synonym ptr = "gval option"

subsection \<open>Loads\<close>

fun ld8 :: "ptr \<Rightarrow> byte go" where
  "ld8 None = Panic NilDeref"
| "ld8 (Some (VByte w)) = Ok w"
| "ld8 (Some _) = Panic BadMemory"

fun ld16 :: "ptr \<Rightarrow> 16 word go" where
  "ld16 None = Panic NilDeref"
| "ld16 (Some (VI16 w)) = Ok w"
| "ld16 (Some _) = Panic BadMemory"

fun ld32 :: "ptr \<Rightarrow> 32 word go" where
  "ld32 None = Panic NilDeref"
| "ld32 (Some (VI32 w)) = Ok w"
| "ld32 (Some _) = Panic BadMemory"

fun ld64 :: "ptr \<Rightarrow> 64 word go" where
  "ld64 None = Panic NilDeref"
| "ld64 (Some (VI64 w)) = Ok w"
| "ld64 (Some _) = Panic BadMemory"

text \<open>
  A Go \<^verbatim>\<open>bool\<close> is a byte that is 0 or 1; reading any other byte as a \<^verbatim>\<open>bool\<close> has no defined
  result.
\<close>

fun bool_of_byte :: "byte \<Rightarrow> bool go" where
  "bool_of_byte w = (if w = 0 then Ok False else if w = 1 then Ok True else Panic BadMemory)"

definition ldBool :: "ptr \<Rightarrow> bool go" where
  "ldBool p = gobind (ld8 p) bool_of_byte"

text \<open>
  \<^verbatim>\<open>*(*string)(p)\<close>. The header of a \<^verbatim>\<open>[]byte\<close> starts with the data pointer and the length,
  so the cast reads it too; a nil \<^verbatim>\<open>[]byte\<close> reads as the empty string.
\<close>

fun ldString :: "ptr \<Rightarrow> bytes go" where
  "ldString None = Panic NilDeref"
| "ldString (Some (VString s)) = Ok s"
| "ldString (Some (VBytes (Some s))) = Ok s"
| "ldString (Some (VBytes None)) = Ok []"
| "ldString (Some _) = Panic BadMemory"

text \<open>\<^verbatim>\<open>*(*[]byte)(p)\<close>.\<close>

fun ldBytes :: "ptr \<Rightarrow> bytes go" where
  "ldBytes None = Panic NilDeref"
| "ldBytes (Some (VBytes (Some s))) = Ok s"
| "ldBytes (Some (VBytes None)) = Ok []"
| "ldBytes (Some _) = Panic BadMemory"

text \<open>\<^verbatim>\<open>*(*unsafe.Pointer)(p)\<close> of a cell that holds a pointer.\<close>

fun ldPtr :: "ptr \<Rightarrow> ptr go" where
  "ldPtr None = Panic NilDeref"
| "ldPtr (Some (VPtr q)) = Ok q"
| "ldPtr (Some _) = Panic BadMemory"

text \<open>
  \<^verbatim>\<open>*(*unsafe.Pointer)(p) == nil\<close>: the first word of a pointer, a map, a slice and a
  \<^verbatim>\<open>[]byte\<close> is a pointer.
\<close>

fun ldIsNil :: "ptr \<Rightarrow> bool go" where
  "ldIsNil None = Panic NilDeref"
| "ldIsNil (Some (VPtr q)) = Ok (q = None)"
| "ldIsNil (Some (VSlice q)) = Ok (q = None)"
| "ldIsNil (Some (VBytes q)) = Ok (q = None)"
| "ldIsNil (Some (VMap q)) = Ok (q = None)"
| "ldIsNil (Some _) = Panic BadMemory"

text \<open>The elements behind a \<^verbatim>\<open>sliceHeader\<close>, and what an iteration of a map sees.\<close>

fun ldSlice :: "ptr \<Rightarrow> gval list go" where
  "ldSlice None = Panic NilDeref"
| "ldSlice (Some (VSlice (Some vs))) = Ok vs"
| "ldSlice (Some (VSlice None)) = Ok []"
| "ldSlice (Some _) = Panic BadMemory"

fun ldMap :: "ptr \<Rightarrow> (nat \<times> (gval \<times> gval) list) go" where
  "ldMap None = Panic NilDeref"
| "ldMap (Some (VMap (Some m))) = Ok m"
| "ldMap (Some (VMap None)) = Ok (0, [])"
| "ldMap (Some _) = Panic BadMemory"

text \<open>\<^verbatim>\<open>unsafe.Add(base, off)\<close>, for a pointer to a struct.\<close>

fun fieldAt :: "ptr \<Rightarrow> nat \<Rightarrow> ptr go" where
  "fieldAt None off = Panic NilDeref"
| "fieldAt (Some (VStruct cs)) off =
     (case map_of cs off of Some v \<Rightarrow> Ok (Some v) | None \<Rightarrow> Panic BadMemory)"
| "fieldAt (Some _) off = Panic BadMemory"

subsection \<open>Typed slots of maps and slices\<close>

text \<open>
  \<^verbatim>\<open>range *(*map[K]V)(p)\<close> and \<^verbatim>\<open>unsafe.Slice((*T)(p), n)\<close>: the compiler places the slots by
  the sizes of \<^verbatim>\<open>K\<close>, \<^verbatim>\<open>V\<close> and \<^verbatim>\<open>T\<close>, so, unlike a cast of a single cell, every slot must have
  exactly that type. Read at the 16 bytes of a \<^verbatim>\<open>string\<close>, the 24-byte slots of a container
  of \<^verbatim>\<open>[]byte\<close> give words that are no string header; the model reports any such read,
  though the slot that happens to be at the start of the memory is still read right in Go.
\<close>

fun asBool :: "gval \<Rightarrow> bool go" where
  "asBool (VByte w) = bool_of_byte w"
| "asBool _ = Panic BadMemory"

fun asByte :: "gval \<Rightarrow> byte go" where
  "asByte (VByte w) = Ok w"
| "asByte _ = Panic BadMemory"

fun asUint16 :: "gval \<Rightarrow> 16 word go" where
  "asUint16 (VI16 w) = Ok w"
| "asUint16 _ = Panic BadMemory"

fun asUint32 :: "gval \<Rightarrow> 32 word go" where
  "asUint32 (VI32 w) = Ok w"
| "asUint32 _ = Panic BadMemory"

fun asUint64 :: "gval \<Rightarrow> 64 word go" where
  "asUint64 (VI64 w) = Ok w"
| "asUint64 _ = Panic BadMemory"

fun asInt64 :: "gval \<Rightarrow> 64 word go" where
  "asInt64 (VI64 w) = Ok w"
| "asInt64 _ = Panic BadMemory"

fun asString :: "gval \<Rightarrow> bytes go" where
  "asString (VString s) = Ok s"
| "asString _ = Panic BadMemory"

subsection \<open>Stores\<close>

text \<open>\<^verbatim>\<open>*(unsafe.Add(base, off)) = v\<close>: the struct with one field replaced.\<close>

fun updField :: "nat \<Rightarrow> gval \<Rightarrow> (nat \<times> gval) list \<Rightarrow> (nat \<times> gval) list" where
  "updField off v [] = []"
| "updField off v ((o', w) # cs) =
     (if o' = off then (o', v) # cs else (o', w) # updField off v cs)"

fun storeField :: "gval \<Rightarrow> nat \<Rightarrow> gval \<Rightarrow> gval go" where
  "storeField (VStruct cs) off v =
     (if off \<in> fst ` set cs then Ok (VStruct (updField off v cs)) else Panic BadMemory)"
| "storeField _ off v = Panic BadMemory"

lemma map_of_updField:
  "off \<in> fst ` set cs \<Longrightarrow> map_of (updField off v cs) = (map_of cs)(off \<mapsto> v)"
  by (induction off v cs rule: updField.induct) (force simp: fun_eq_iff)+

lemma fst_updField [simp]: "map fst (updField off v cs) = map fst cs"
  by (induction off v cs rule: updField.induct) auto

lemma dom_updField [simp]: "fst ` set (updField off v cs) = fst ` set cs"
  by (metis fst_updField list.set_map)

lemma updField_same:
  "map_of cs off = Some v \<Longrightarrow> updField off v cs = cs"
  by (induction off v cs rule: updField.induct) (auto split: if_splits)

lemma updField_twice: "updField off v (updField off w cs) = updField off v cs"
  by (induction off v cs rule: updField.induct) auto

lemma fieldAt_storeField:
  assumes "storeField s off v = Ok s'"
  shows "fieldAt (Some s') off = Ok (Some v)"
    and "off' \<noteq> off \<Longrightarrow> fieldAt (Some s') off' = fieldAt (Some s) off'"
  using assms
  by (cases s; auto simp: map_of_updField split: if_splits)+

subsection \<open>Comparison\<close>

text \<open>IEEE 754 equality of two \<^verbatim>\<open>float64\<close> by their bits: NaN equals nothing, the zeros are equal.\<close>

unbundle bit_operations_syntax

definition f64_magnitude :: "64 word \<Rightarrow> 64 word" where
  "f64_magnitude w = w AND 0x7FFFFFFFFFFFFFFF"

definition f64_nan :: "64 word \<Rightarrow> bool" where
  "f64_nan w \<longleftrightarrow> 0x7FF0000000000000 < f64_magnitude w"

definition f64_eq :: "64 word \<Rightarrow> 64 word \<Rightarrow> bool" where
  "f64_eq a b \<longleftrightarrow> \<not> f64_nan a \<and> \<not> f64_nan b \<and>
     (a = b \<or> f64_magnitude a = 0 \<and> f64_magnitude b = 0)"

lemma f64_eq_sym: "f64_eq a b \<longleftrightarrow> f64_eq b a"
  by (auto simp: f64_eq_def)

end
