(* ===== verification/TType.thy ===== *)
theory TType
  imports DefsTypes GoMemory
begin

text \<open>
  \<^verbatim>\<open>internal/reflect/ttype.go\<close>: the wire types, the constant tables, the runtime type
  descriptor \<^verbatim>\<open>tType\<close> with \<^verbatim>\<open>newTType\<close> that builds it from a \<^verbatim>\<open>defs.Type\<close>, and the
  registration tables of \<^verbatim>\<open>append_list_fast.go\<close> and \<^verbatim>\<open>append_map_fast.go\<close> that
  \<^verbatim>\<open>newTType\<close> consults. A Go function value is a constructor of \<open>appendFn\<close>; the theory
  that holds the functions gives each its meaning.
\<close>

subsection \<open>Wire types and tables\<close>

type_synonym ttype = "8 word"

abbreviation tSTOP :: ttype where "tSTOP \<equiv> 0"
abbreviation tVOID :: ttype where "tVOID \<equiv> 1"
abbreviation tBOOL :: ttype where "tBOOL \<equiv> 2"
abbreviation tBYTE :: ttype where "tBYTE \<equiv> 3"
abbreviation tDOUBLE :: ttype where "tDOUBLE \<equiv> 4"
abbreviation tI16 :: ttype where "tI16 \<equiv> 6"
abbreviation tI32 :: ttype where "tI32 \<equiv> 8"
abbreviation tI64 :: ttype where "tI64 \<equiv> 10"
abbreviation tSTRING :: ttype where "tSTRING \<equiv> 11"
abbreviation tSTRUCT :: ttype where "tSTRUCT \<equiv> 12"
abbreviation tMAP :: ttype where "tMAP \<equiv> 13"
abbreviation tSET :: ttype where "tSET \<equiv> 14"
abbreviation tLIST :: ttype where "tLIST \<equiv> 15"
abbreviation tENUM :: ttype where "tENUM \<equiv> 0xfe"

definition simpleTypes :: "ttype \<Rightarrow> bool" where
  "simpleTypes t \<longleftrightarrow> t \<in> set [tBOOL, tBYTE, tDOUBLE, tI16, tI32, tI64, tENUM, tSTRING]"

definition containerTypes :: "ttype \<Rightarrow> bool" where
  "containerTypes t \<longleftrightarrow> t \<in> set [tMAP, tLIST, tSET]"

definition typeToSize :: "ttype \<Rightarrow> nat" where
  "typeToSize t =
     (if t = tBOOL then 1 else if t = tBYTE then 1 else if t = tDOUBLE then 8
      else if t = tI16 then 2 else if t = tI32 then 4 else if t = tI64 then 8
      else if t = tENUM then 4 else 0)"

definition minWireSize :: "ttype \<Rightarrow> nat" where
  "minWireSize t =
     (if t = tBOOL then 1 else if t = tBYTE then 1 else if t = tI16 then 2 else if t = tI32 then 4
      else if t = tI64 then 8 else if t = tDOUBLE then 8 else if t = tSTRING then 4
      else if t = tSTRUCT then 1 else if t = tMAP then 6 else if t = tSET then 5
      else if t = tLIST then 5 else 0)"

definition fieldHeaderLen :: nat where "fieldHeaderLen = 3"
definition mapHeaderLen :: nat where "mapHeaderLen = 6"
definition listHeaderLen :: nat where "listHeaderLen = 5"
definition strHeaderLen :: nat where "strHeaderLen = 4"

lemmas header_len_defs = fieldHeaderLen_def mapHeaderLen_def listHeaderLen_def strHeaderLen_def

subsection \<open>Append functions as values\<close>

text \<open>
  The 64 functions \<^verbatim>\<open>appendMap_<K>_<V>\<close> are named by two of these kinds.
\<close>

datatype mkind = mBOOL | mI08 | mI16 | mI32 | mI64 | mENUM | mSTRING | mOther

datatype appendFn =
    AppendAny
  | AppendStruct
  | AppendListAny
  | AppendList_I08 | AppendList_I16 | AppendList_I32 | AppendList_I64
  | AppendList_ENUM | AppendList_STRING | AppendList_Other
  | AppendMapAnyAny
  | AppendMap mkind mkind

definition registerListAppendFunc ::
  "ttype \<Rightarrow> appendFn \<Rightarrow> (ttype \<rightharpoonup> appendFn) \<Rightarrow> (ttype \<rightharpoonup> appendFn)" where
  "registerListAppendFunc t f m = m(t \<mapsto> f)"

definition list_registrations :: "(ttype \<times> appendFn) list" where
  "list_registrations =
     [(tBYTE, AppendList_I08), (tI16, AppendList_I16), (tI32, AppendList_I32),
      (tI64, AppendList_I64), (tDOUBLE, AppendList_I64), (tENUM, AppendList_ENUM),
      (tSTRING, AppendList_STRING), (tSTRUCT, AppendList_Other), (tMAP, AppendList_Other),
      (tSET, AppendList_Other), (tLIST, AppendList_Other)]"

definition listAppendFuncs :: "ttype \<rightharpoonup> appendFn" where
  "listAppendFuncs = fold (\<lambda>(t, f). registerListAppendFunc t f) list_registrations Map.empty"

definition registerMapAppendFunc ::
  "ttype \<Rightarrow> ttype \<Rightarrow> appendFn \<Rightarrow> (ttype \<times> ttype \<rightharpoonup> appendFn) \<Rightarrow> (ttype \<times> ttype \<rightharpoonup> appendFn)" where
  "registerMapAppendFunc k v f m = m((k, v) \<mapsto> f)"

definition map_registrations :: "((ttype \<times> ttype) \<times> appendFn) list" where
  "map_registrations =
     [
      ((tBOOL, tBOOL), AppendMap mBOOL mBOOL), ((tBOOL, tBYTE), AppendMap mBOOL mI08),
      ((tBOOL, tI16), AppendMap mBOOL mI16), ((tBOOL, tI32), AppendMap mBOOL mI32),
      ((tBOOL, tI64), AppendMap mBOOL mI64), ((tBOOL, tDOUBLE), AppendMap mBOOL mI64),
      ((tBOOL, tENUM), AppendMap mBOOL mENUM), ((tBOOL, tSTRING), AppendMap mBOOL mSTRING),
      ((tBOOL, tSTRUCT), AppendMap mBOOL mOther), ((tBOOL, tMAP), AppendMap mBOOL mOther),
      ((tBOOL, tSET), AppendMap mBOOL mOther), ((tBOOL, tLIST), AppendMap mBOOL mOther),
      ((tBYTE, tBYTE), AppendMap mI08 mI08), ((tBYTE, tBOOL), AppendMap mI08 mBOOL),
      ((tBYTE, tI16), AppendMap mI08 mI16), ((tBYTE, tI32), AppendMap mI08 mI32),
      ((tBYTE, tI64), AppendMap mI08 mI64), ((tBYTE, tDOUBLE), AppendMap mI08 mI64),
      ((tBYTE, tENUM), AppendMap mI08 mENUM), ((tBYTE, tSTRING), AppendMap mI08 mSTRING),
      ((tBYTE, tSTRUCT), AppendMap mI08 mOther), ((tBYTE, tMAP), AppendMap mI08 mOther),
      ((tBYTE, tSET), AppendMap mI08 mOther), ((tBYTE, tLIST), AppendMap mI08 mOther),
      ((tI16, tBOOL), AppendMap mI16 mBOOL), ((tI16, tBYTE), AppendMap mI16 mI08),
      ((tI16, tI16), AppendMap mI16 mI16), ((tI16, tI32), AppendMap mI16 mI32),
      ((tI16, tI64), AppendMap mI16 mI64), ((tI16, tDOUBLE), AppendMap mI16 mI64),
      ((tI16, tENUM), AppendMap mI16 mENUM), ((tI16, tSTRING), AppendMap mI16 mSTRING),
      ((tI16, tSTRUCT), AppendMap mI16 mOther), ((tI16, tMAP), AppendMap mI16 mOther),
      ((tI16, tSET), AppendMap mI16 mOther), ((tI16, tLIST), AppendMap mI16 mOther),
      ((tI32, tBOOL), AppendMap mI32 mBOOL), ((tI32, tBYTE), AppendMap mI32 mI08),
      ((tI32, tI16), AppendMap mI32 mI16), ((tI32, tI32), AppendMap mI32 mI32),
      ((tI32, tI64), AppendMap mI32 mI64), ((tI32, tDOUBLE), AppendMap mI32 mI64),
      ((tI32, tENUM), AppendMap mI32 mENUM), ((tI32, tSTRING), AppendMap mI32 mSTRING),
      ((tI32, tSTRUCT), AppendMap mI32 mOther), ((tI32, tMAP), AppendMap mI32 mOther),
      ((tI32, tSET), AppendMap mI32 mOther), ((tI32, tLIST), AppendMap mI32 mOther),
      ((tI64, tBOOL), AppendMap mI64 mBOOL), ((tI64, tBYTE), AppendMap mI64 mI08),
      ((tI64, tI16), AppendMap mI64 mI16), ((tI64, tI32), AppendMap mI64 mI32),
      ((tI64, tI64), AppendMap mI64 mI64), ((tI64, tDOUBLE), AppendMap mI64 mI64),
      ((tI64, tENUM), AppendMap mI64 mENUM), ((tI64, tSTRING), AppendMap mI64 mSTRING),
      ((tI64, tSTRUCT), AppendMap mI64 mOther), ((tI64, tMAP), AppendMap mI64 mOther),
      ((tI64, tSET), AppendMap mI64 mOther), ((tI64, tLIST), AppendMap mI64 mOther),
      ((tDOUBLE, tBOOL), AppendMap mI64 mBOOL), ((tDOUBLE, tBYTE), AppendMap mI64 mI08),
      ((tDOUBLE, tI16), AppendMap mI64 mI16), ((tDOUBLE, tI32), AppendMap mI64 mI32),
      ((tDOUBLE, tI64), AppendMap mI64 mI64), ((tDOUBLE, tDOUBLE), AppendMap mI64 mI64),
      ((tDOUBLE, tENUM), AppendMap mI64 mENUM), ((tDOUBLE, tSTRING), AppendMap mI64 mSTRING),
      ((tDOUBLE, tSTRUCT), AppendMap mI64 mOther), ((tDOUBLE, tMAP), AppendMap mI64 mOther),
      ((tDOUBLE, tSET), AppendMap mI64 mOther), ((tDOUBLE, tLIST), AppendMap mI64 mOther),
      ((tENUM, tBOOL), AppendMap mENUM mBOOL), ((tENUM, tBYTE), AppendMap mENUM mI08),
      ((tENUM, tI16), AppendMap mENUM mI16), ((tENUM, tI32), AppendMap mENUM mI32),
      ((tENUM, tI64), AppendMap mENUM mI64), ((tENUM, tDOUBLE), AppendMap mENUM mI64),
      ((tENUM, tENUM), AppendMap mENUM mENUM), ((tENUM, tSTRING), AppendMap mENUM mSTRING),
      ((tENUM, tSTRUCT), AppendMap mENUM mOther), ((tENUM, tMAP), AppendMap mENUM mOther),
      ((tENUM, tSET), AppendMap mENUM mOther), ((tENUM, tLIST), AppendMap mENUM mOther),
      ((tSTRING, tBOOL), AppendMap mSTRING mBOOL), ((tSTRING, tBYTE), AppendMap mSTRING mI08),
      ((tSTRING, tI16), AppendMap mSTRING mI16), ((tSTRING, tI32), AppendMap mSTRING mI32),
      ((tSTRING, tI64), AppendMap mSTRING mI64), ((tSTRING, tDOUBLE), AppendMap mSTRING mI64),
      ((tSTRING, tENUM), AppendMap mSTRING mENUM), ((tSTRING, tSTRING), AppendMap mSTRING mSTRING),
      ((tSTRING, tSTRUCT), AppendMap mSTRING mOther), ((tSTRING, tMAP), AppendMap mSTRING mOther),
      ((tSTRING, tSET), AppendMap mSTRING mOther), ((tSTRING, tLIST), AppendMap mSTRING mOther),
      ((tSTRUCT, tBOOL), AppendMap mOther mBOOL), ((tSTRUCT, tBYTE), AppendMap mOther mI08),
      ((tSTRUCT, tI16), AppendMap mOther mI16), ((tSTRUCT, tI32), AppendMap mOther mI32),
      ((tSTRUCT, tI64), AppendMap mOther mI64), ((tSTRUCT, tDOUBLE), AppendMap mOther mI64),
      ((tSTRUCT, tENUM), AppendMap mOther mENUM), ((tSTRUCT, tSTRING), AppendMap mOther mSTRING),
      ((tSTRUCT, tSTRUCT), AppendMap mOther mOther), ((tSTRUCT, tMAP), AppendMap mOther mOther),
      ((tSTRUCT, tSET), AppendMap mOther mOther), ((tSTRUCT, tLIST), AppendMap mOther mOther),
      ((tMAP, tBOOL), AppendMap mOther mBOOL), ((tMAP, tBYTE), AppendMap mOther mI08),
      ((tMAP, tI16), AppendMap mOther mI16), ((tMAP, tI32), AppendMap mOther mI32),
      ((tMAP, tI64), AppendMap mOther mI64), ((tMAP, tDOUBLE), AppendMap mOther mI64),
      ((tMAP, tENUM), AppendMap mOther mENUM), ((tMAP, tSTRING), AppendMap mOther mSTRING),
      ((tMAP, tSTRUCT), AppendMap mOther mOther), ((tMAP, tMAP), AppendMap mOther mOther),
      ((tMAP, tSET), AppendMap mOther mOther), ((tMAP, tLIST), AppendMap mOther mOther),
      ((tSET, tBOOL), AppendMap mOther mBOOL), ((tSET, tBYTE), AppendMap mOther mI08),
      ((tSET, tI16), AppendMap mOther mI16), ((tSET, tI32), AppendMap mOther mI32),
      ((tSET, tI64), AppendMap mOther mI64), ((tSET, tDOUBLE), AppendMap mOther mI64),
      ((tSET, tENUM), AppendMap mOther mENUM), ((tSET, tSTRING), AppendMap mOther mSTRING),
      ((tSET, tSTRUCT), AppendMap mOther mOther), ((tSET, tMAP), AppendMap mOther mOther),
      ((tSET, tSET), AppendMap mOther mOther), ((tSET, tLIST), AppendMap mOther mOther),
      ((tLIST, tBOOL), AppendMap mOther mBOOL), ((tLIST, tBYTE), AppendMap mOther mI08),
      ((tLIST, tI16), AppendMap mOther mI16), ((tLIST, tI32), AppendMap mOther mI32),
      ((tLIST, tI64), AppendMap mOther mI64), ((tLIST, tDOUBLE), AppendMap mOther mI64),
      ((tLIST, tENUM), AppendMap mOther mENUM), ((tLIST, tSTRING), AppendMap mOther mSTRING),
      ((tLIST, tSTRUCT), AppendMap mOther mOther), ((tLIST, tMAP), AppendMap mOther mOther),
      ((tLIST, tSET), AppendMap mOther mOther), ((tLIST, tLIST), AppendMap mOther mOther)
]"

definition mapAppendFuncs :: "ttype \<times> ttype \<rightharpoonup> appendFn" where
  "mapAppendFuncs =
     fold (\<lambda>((k, v), f). registerMapAppendFunc k v f) map_registrations Map.empty"

subsection \<open>The runtime type descriptor\<close>

text \<open>
  \<^verbatim>\<open>type tType struct\<close>. \<open>tMallocAbiType\<close> is the runtime type handed to \<^verbatim>\<open>mallocgc\<close>,
  \<open>None\<close> for 0. \<^verbatim>\<open>Sd\<close> is found by the Go type (see \<open>struct_id\<close>); \<^verbatim>\<open>EncodedSizeFunc\<close> is
  determined by \<open>tT\<close>; \<^verbatim>\<open>RV\<close> and \<^verbatim>\<open>MapTmpVarsPool\<close> are determined by \<open>tRT\<close>.
\<close>

datatype tType = TType
  (tT: ttype) (tK: "tType option") (tV: "tType option") (tWT: ttype) (tTag: Tag)
  (tRT: rtype) (tSize: nat) (tAlign: nat) (tMallocAbiType: "rtype option")
  (tIsPointer: bool) (tSimpleType: bool) (tFixedSize: nat) (tAppendFunc: appendFn)

definition tt_deref :: "tType option \<Rightarrow> tType go" where
  "tt_deref v = (case v of None \<Rightarrow> Panic NilDeref | Some v' \<Rightarrow> Ok v')"

lemma tt_deref_Some [simp]: "tt_deref (Some v) = Ok v"
  by (simp add: tt_deref_def)

text \<open>The struct type a (pointer to a) struct type names: the key of \<^verbatim>\<open>t.Sd\<close>.\<close>

fun struct_id :: "rtype \<Rightarrow> nat option" where
  "struct_id (RStruct i n) = Some i"
| "struct_id (RPtr (RStruct i n)) = Some i"
| "struct_id _ = None"

text \<open>
  \<^verbatim>\<open>reflect.Type.Size()\<close> and \<^verbatim>\<open>Align()\<close> on a 64-bit platform; \<open>lay\<close> gives the layout of
  the struct types, which the Go compiler fixes.
\<close>

fun kind_size :: "kind \<Rightarrow> nat" where
  "kind_size k =
     (if k \<in> set [K_Bool, K_Int8, K_Uint8] then 1
      else if k \<in> set [K_Int16, K_Uint16] then 2
      else if k \<in> set [K_Int32, K_Uint32, K_Float32] then 4
      else if k \<in> set [K_String, K_Interface, K_Complex128] then 16 else 8)"

fun rt_Size :: "(nat \<Rightarrow> nat \<times> nat) \<Rightarrow> rtype \<Rightarrow> nat" where
  "rt_Size lay (RBasic k p n) = kind_size k"
| "rt_Size lay (RPtr e) = 8"
| "rt_Size lay (RSlice n e) = 24"
| "rt_Size lay (RArray n l e) = l * rt_Size lay e"
| "rt_Size lay (RMap n k v) = 8"
| "rt_Size lay (RStruct i n) = fst (lay i)"

fun rt_Align :: "(nat \<Rightarrow> nat \<times> nat) \<Rightarrow> rtype \<Rightarrow> nat" where
  "rt_Align lay (RBasic k p n) = (if k = K_Complex64 then 4 else min 8 (kind_size k))"
| "rt_Align lay (RPtr e) = 8"
| "rt_Align lay (RSlice n e) = 8"
| "rt_Align lay (RArray n l e) = rt_Align lay e"
| "rt_Align lay (RMap n k v) = 8"
| "rt_Align lay (RStruct i n) = snd (lay i)"

text \<open>\<^verbatim>\<open>updateListAppendFunc\<close> and \<^verbatim>\<open>updateMapAppendFunc\<close>: the function the type gets.\<close>

definition updateListAppendFunc :: "ttype \<Rightarrow> tType option \<Rightarrow> appendFn go" where
  "updateListAppendFunc T V =
     (if T \<noteq> tLIST \<and> T \<noteq> tSET then Panic (ExplicitPanic ''[bug] type mismatch'')
      else gobind (tt_deref V) (\<lambda>v.
        case listAppendFuncs (tT v) of Some f \<Rightarrow> Ok f | None \<Rightarrow> Ok AppendListAny))"

definition updateMapAppendFunc :: "ttype \<Rightarrow> tType option \<Rightarrow> tType option \<Rightarrow> appendFn go" where
  "updateMapAppendFunc T K V =
     (if T \<noteq> tMAP then Panic (ExplicitPanic ''[bug] type mismatch'')
      else gobind (tt_deref K) (\<lambda>k. gobind (tt_deref V) (\<lambda>v.
        case mapAppendFuncs (tT k, tT v) of Some f \<Rightarrow> Ok f | None \<Rightarrow> Ok AppendMapAnyAny)))"

definition pick_AppendFunc :: "ttype \<Rightarrow> tType option \<Rightarrow> tType option \<Rightarrow> appendFn go" where
  "pick_AppendFunc T K V =
     (if T = tLIST \<or> T = tSET then updateListAppendFunc T V
      else if T = tMAP then updateMapAppendFunc T K V
      else if T = tSTRUCT then Ok AppendStruct
      else Ok AppendAny)"

definition abi_kinds :: "kind list" where
  "abi_kinds = [K_Array, K_Map, K_Ptr, K_Slice, K_String, K_Struct]"

text \<open>
  \<^verbatim>\<open>newTType\<close>, without its cache (the object the cache returns is the one built here). The
  Go code fills the fields one by one; the order of the steps that can panic is kept.
\<close>

fun newTType :: "(nat \<Rightarrow> nat \<times> nat) \<Rightarrow> Type \<Rightarrow> tType go" where
  "newTType lay (Type tg k v s) =
     gobind (Type_Tag (Type tg k v s)) (\<lambda>wt.
     gobind (Type_IsEnum (Type tg k v s)) (\<lambda>en.
     let T = (if en then tENUM else wt);
         abi = (if rt_Kind s \<in> set abi_kinds then Some s else None);
         isp = (tg = T_pointer)
     in
     gobind (case k of None \<Rightarrow> Ok None | Some k' \<Rightarrow> gobind (newTType lay k') (\<lambda>x. Ok (Some x))) (\<lambda>K.
     gobind (case v of None \<Rightarrow> Ok None | Some v' \<Rightarrow> gobind (newTType lay v') (\<lambda>x. Ok (Some x))) (\<lambda>V.
     gobind (pick_AppendFunc T K V) (\<lambda>f.
     gobind (if isp then gobind (tt_deref V) (\<lambda>v. Ok (tIsPointer v)) else Ok False) (\<lambda>pp.
     if pp then Panic (ExplicitPanic ''doesn't support multilevel pointers like **p'')
     else Ok (TType T K V wt tg s (rt_Size lay s) (rt_Align lay s) abi isp
                (simpleTypes T) (typeToSize T) f)))))))"

text \<open>\<^verbatim>\<open>(t *tType) Equal(p0, p1)\<close>.\<close>

definition ld_eq :: "(ptr \<Rightarrow> 'a go) \<Rightarrow> ('a \<Rightarrow> 'a \<Rightarrow> bool) \<Rightarrow> ptr \<Rightarrow> ptr \<Rightarrow> bool go" where
  "ld_eq ld eq p0 p1 = gobind (ld p0) (\<lambda>x. gobind (ld p1) (\<lambda>y. Ok (eq x y)))"

definition tType_Equal :: "tType \<Rightarrow> ptr \<Rightarrow> ptr \<Rightarrow> bool go" where
  "tType_Equal t p0 p1 =
     (if tT t = tBOOL then ld_eq ldBool (=) p0 p1
      else if tT t = tBYTE then ld_eq ld8 (=) p0 p1
      else if tT t = tDOUBLE then ld_eq ld64 f64_eq p0 p1
      else if tT t = tI16 then ld_eq ld16 (=) p0 p1
      else if tT t = tI32 then ld_eq ld32 (=) p0 p1
      else if tT t = tI64 \<or> tT t = tENUM then ld_eq ld64 (=) p0 p1
      else if tT t = tSTRING then ld_eq ldString (=) p0 p1
      else Ok False)"

end
