(* ===== verification/StructDesc.thy ===== *)
theory StructDesc
  imports TType
begin

text \<open>
  \<^verbatim>\<open>internal/reflect/desc.go\<close>: the field descriptor \<^verbatim>\<open>tField\<close> and the struct descriptor
  \<^verbatim>\<open>structDesc\<close> built from the resolved fields of a Go struct, and \<^verbatim>\<open>GetField\<close>, the lookup
  by field id the decoder makes for every field it reads.
\<close>

subsection \<open>Resolved fields (\<^verbatim>\<open>defs.Field\<close>)\<close>

datatype Requiredness = Default | Required | Optional

record Field =
  F_off :: nat
  F_ID :: "16 word"
  F_Type :: Type
  F_NoCopy :: bool \<comment> \<open>\<^verbatim>\<open>Opts & NoCopy\<close>, the only option there is\<close>
  F_Spec :: Requiredness
  F_Default :: "gval option" \<comment> \<open>a \<^verbatim>\<open>reflect.Value\<close>, \<open>None\<close> when invalid\<close>

subsection \<open>Field descriptors\<close>

record tField =
  fID :: "16 word"
  fOffset :: nat
  fType :: tType
  fSpec :: Requiredness
  fDefault :: ptr
  fNoCopy :: bool
  fCanSkipEncodeIfNil :: bool
  fCanSkipIfDefault :: bool

text \<open>\<^verbatim>\<open>for v.Kind() == reflect.Ptr { v = v.Elem() }\<close>.\<close>

fun deref_default :: "gval option \<Rightarrow> gval option" where
  "deref_default (Some (VPtr q)) = deref_default q"
| "deref_default v = v"

definition fromDefsField :: "(nat \<Rightarrow> nat \<times> nat) \<Rightarrow> Field \<Rightarrow> tField go" where
  "fromDefsField lay x =
     gobind (newTType lay (F_Type x)) (\<lambda>t.
     if F_NoCopy x \<and> tWT t \<noteq> tSTRING then Panic (ExplicitPanic ''[BUG] nocopy on non-STRING type'')
     else
       let skipnil = (F_Spec x = Optional \<and>
             (tTag t = T_pointer \<or> tTag t = T_binary \<or> containerTypes (tT t)));
           v = deref_default (F_Default x)
       in Ok \<lparr>fID = F_ID x, fOffset = F_off x, fType = t, fSpec = F_Spec x, fDefault = v,
              fNoCopy = F_NoCopy x, fCanSkipEncodeIfNil = skipnil,
              fCanSkipIfDefault = (F_Spec x = Optional \<and> tTag t \<noteq> T_pointer \<and> v \<noteq> None)\<rparr>)"

text \<open>\<^verbatim>\<open>(f *tField) EncodedSize()\<close>: the bytes the field always takes, or -1.\<close>

definition tField_EncodedSize :: "tField \<Rightarrow> int" where
  "tField_EncodedSize f =
     (if tIsPointer (fType f) then -1
      else if fSpec f = Optional then -1
      else if tFixedSize (fType f) > 0 then int (fieldHeaderLen + tFixedSize (fType f))
      else -1)"

subsection \<open>Struct descriptors\<close>

text \<open>
  \<open>sd_zero\<close> is what cleared memory of the struct type reads as; \<open>initFunc\<close> is the
  \<^verbatim>\<open>InitDefault\<close> method of the user's type, when it has one.
\<close>

record structDesc =
  sd_rt :: rtype
  sd_zero :: gval
  maxID :: "16 word"
  fieldIdx :: "int list"
  sd_fields :: "tField list"
  hasInitFunc :: bool
  initFunc :: "gval \<Rightarrow> gval"
  hasUnknownFields :: bool
  unknownFieldsOffset :: nat
  fixedLenFieldSize :: nat
  varLenFields :: "nat list"
  requiredFieldIDs :: "16 word list"

definition GetField :: "structDesc \<Rightarrow> 16 word \<Rightarrow> tField option go" where
  "GetField d fid =
     (if fid > maxID d then Ok None
      else gobind (index (fieldIdx d) (unat fid)) (\<lambda>i.
        if i < 0 then Ok None
        else gobind (index (sd_fields d) (nat i)) (\<lambda>f. Ok (Some f))))"

text \<open>
  The three loops of \<^verbatim>\<open>fromDefsFields\<close>. The slice \<^verbatim>\<open>d.fieldIdx\<close> is made with
  \<^verbatim>\<open>maxFieldID+1\<close> elements, an addition of \<^verbatim>\<open>uint16\<close>.
\<close>

definition maxFieldID :: "Field list \<Rightarrow> 16 word" where
  "maxFieldID ff = fold (\<lambda>f m. if F_ID f > m then F_ID f else m) ff 0"

fun fill_fields ::
  "(nat \<Rightarrow> nat \<times> nat) \<Rightarrow> Field list \<Rightarrow> nat \<Rightarrow> int list \<Rightarrow> tField list \<Rightarrow> (int list \<times> tField list) go" where
  "fill_fields lay [] i idx fs = Ok (idx, fs)"
| "fill_fields lay (f # ff) i idx fs =
     gobind (fromDefsField lay f) (\<lambda>x.
       if unat (F_ID f) < length idx
       then fill_fields lay ff (Suc i) (idx[unat (F_ID f) := int i]) (fs @ [x])
       else Panic IndexOutOfRange)"

fun sum_fields :: "tField list \<Rightarrow> nat \<Rightarrow> nat \<times> nat list \<times> 16 word list \<Rightarrow> nat \<times> nat list \<times> 16 word list" where
  "sum_fields [] i (n, vs, rs) = (n, vs, rs)"
| "sum_fields (f # fs) i (n, vs, rs) =
     (let n' = (if tField_EncodedSize f > 0 then n + nat (tField_EncodedSize f) else n);
          vs' = (if tField_EncodedSize f > 0 then vs else vs @ [i]);
          rs' = (if fSpec f = Required then rs @ [fID f] else rs)
      in sum_fields fs (Suc i) (n', vs', rs'))"

definition fromDefsFields :: "(nat \<Rightarrow> nat \<times> nat) \<Rightarrow> Field list \<Rightarrow> structDesc \<Rightarrow> structDesc go" where
  "fromDefsFields lay ff d =
     (let m = maxFieldID ff;
          idx = replicate (unat (m + 1)) (-1)
      in gobind (fill_fields lay ff 0 idx []) (\<lambda>(idx', fs).
         case sum_fields fs 0 (0, [], []) of (n, vs, rs) \<Rightarrow>
           Ok (d\<lparr>maxID := m, fieldIdx := idx', sd_fields := fs, fixedLenFieldSize := n,
                 varLenFields := vs, requiredFieldIDs := rs\<rparr>)))"

text \<open>
  What \<^verbatim>\<open>newStructDesc\<close> reads of the Go struct type besides its tagged fields: its cleared
  value, its \<^verbatim>\<open>InitDefault\<close> method, and its field \<^verbatim>\<open>_unknownFields\<close> when that is a slice of
  \<^verbatim>\<open>uint8\<close>.
\<close>

record goStruct =
  gs_rt :: rtype
  gs_zero :: gval
  gs_init :: "(gval \<Rightarrow> gval) option"
  gs_unknown :: "(rtype \<times> nat) option"

definition is_byte_slice :: "rtype \<Rightarrow> bool" where
  "is_byte_slice r = (case r of RSlice n e \<Rightarrow> rt_Kind e = K_Uint8 | _ \<Rightarrow> False)"

definition newStructDesc :: "(nat \<Rightarrow> nat \<times> nat) \<Rightarrow> goStruct \<Rightarrow> Field list \<Rightarrow> structDesc go" where
  "newStructDesc lay g ff =
     gobind (fromDefsFields lay ff
       \<lparr>sd_rt = gs_rt g, sd_zero = gs_zero g, maxID = 0, fieldIdx = [], sd_fields = [],
        hasInitFunc = False, initFunc = id, hasUnknownFields = False, unknownFieldsOffset = 0,
        fixedLenFieldSize = 0, varLenFields = [], requiredFieldIDs = []\<rparr>) (\<lambda>d.
     let d1 = (case gs_init g of None \<Rightarrow> d | Some f \<Rightarrow> d\<lparr>hasInitFunc := True, initFunc := f\<rparr>)
     in Ok (case gs_unknown g of
              Some (r, off) \<Rightarrow>
                if is_byte_slice r then d1\<lparr>hasUnknownFields := True, unknownFieldsOffset := off\<rparr> else d1
            | None \<Rightarrow> d1))"

text \<open>The descriptors a codec run can reach: \<^verbatim>\<open>t.Sd\<close>, by the struct type.\<close>

type_synonym env = "nat \<Rightarrow> structDesc option"

definition Sd :: "env \<Rightarrow> tType \<Rightarrow> structDesc go" where
  "Sd env t =
     (case struct_id (tRT t) of
        None \<Rightarrow> Panic NilDeref
      | Some i \<Rightarrow> (case env i of None \<Rightarrow> Panic NilDeref | Some d \<Rightarrow> Ok d))"

subsection \<open>The loops compute what they say\<close>

lemma fill_fields_panic:
  assumes "unat (F_ID f) \<ge> length idx" "fromDefsField lay f = Ok x"
  shows "fill_fields lay (f # ff) i idx fs = Panic IndexOutOfRange"
  using assms by simp

lemma fill_fields_Cons_Ok:
  "fill_fields lay (f # ff) i idx fs = Ok r \<longleftrightarrow>
     (\<exists>x. fromDefsField lay f = Ok x \<and> unat (F_ID f) < length idx \<and>
          fill_fields lay ff (Suc i) (idx[unat (F_ID f) := int i]) (fs @ [x]) = Ok r)"
  by auto

declare fill_fields.simps(2) [simp del]

lemma fill_fields_Ok:
  assumes "fill_fields lay ff i idx fs = Ok (idx', fs')"
  shows "length idx' = length idx"
    and "\<exists>xs. fs' = fs @ xs \<and> list_all2 (\<lambda>f x. fromDefsField lay f = Ok x) ff xs"
    and "\<forall>f\<in>set ff. unat (F_ID f) < length idx"
proof -
  have "length idx' = length idx \<and>
      (\<exists>xs. fs' = fs @ xs \<and> list_all2 (\<lambda>f x. fromDefsField lay f = Ok x) ff xs) \<and>
      (\<forall>f\<in>set ff. unat (F_ID f) < length idx)"
    using assms
  proof (induction ff arbitrary: i idx fs)
    case (Cons f ff)
    from Cons.prems obtain x where x: "fromDefsField lay f = Ok x" "unat (F_ID f) < length idx"
      "fill_fields lay ff (Suc i) (idx[unat (F_ID f) := int i]) (fs @ [x]) = Ok (idx', fs')"
      by (auto simp: fill_fields_Cons_Ok)
    from Cons.IH [OF x(3)] obtain xs where "fs' = fs @ x # xs"
      "list_all2 (\<lambda>f x. fromDefsField lay f = Ok x) ff xs" by auto
    then show ?case using Cons.IH [OF x(3)] x by auto
  qed simp
  then show "length idx' = length idx"
    and "\<exists>xs. fs' = fs @ xs \<and> list_all2 (\<lambda>f x. fromDefsField lay f = Ok x) ff xs"
    and "\<forall>f\<in>set ff. unat (F_ID f) < length idx" by blast+
qed

lemma fill_fields_idx_other:
  assumes "fill_fields lay ff i idx fs = Ok (idx', fs')" "k \<notin> (\<lambda>f. unat (F_ID f)) ` set ff"
  shows "idx' ! k = idx ! k"
  using assms
  by (induction ff arbitrary: i idx fs) (auto simp: fill_fields_Cons_Ok)

lemma fill_fields_idx:
  assumes "fill_fields lay ff i idx fs = Ok (idx', fs')" "distinct (map F_ID ff)" "j < length ff"
  shows "idx' ! unat (F_ID (ff ! j)) = int (i + j)"
  using assms
proof (induction ff arbitrary: i idx fs j)
  case (Cons f ff)
  from Cons.prems obtain x where x: "unat (F_ID f) < length idx"
    "fill_fields lay ff (Suc i) (idx[unat (F_ID f) := int i]) (fs @ [x]) = Ok (idx', fs')"
    by (auto simp: fill_fields_Cons_Ok)
  show ?case
  proof (cases j)
    case 0
    have "unat (F_ID f) \<notin> (\<lambda>f. unat (F_ID f)) ` set ff"
      using Cons.prems(2) by (auto simp: image_iff simp flip: word_unat_eq_iff)
    with fill_fields_idx_other [OF x(2)] x(1) 0 show ?thesis by simp
  next
    case (Suc j')
    then show ?thesis using Cons.IH [OF x(2), of j'] Cons.prems by simp
  qed
qed simp

lemma sum_fields_acc:
  "sum_fields fs i (n, vs, rs) =
     (n + (\<Sum>f\<leftarrow>fs. nat (max 0 (tField_EncodedSize f))),
      vs @ map (\<lambda>j. i + j) (filter (\<lambda>j. tField_EncodedSize (fs ! j) \<le> 0) [0..<length fs]),
      rs @ map fID (filter (\<lambda>f. fSpec f = Required) fs))"
proof (induction fs arbitrary: i n vs rs)
  case Nil
  then show ?case by simp
next
  case (Cons f fs)
  have up: "[0..<length (f # fs)] = 0 # map Suc [0..<length fs]"
    by (simp add: map_Suc_upt upt_conv_Cons del: upt_Suc)
  show ?case
    unfolding up
    by (simp add: Cons.IH Let_def filter_map o_def max_def)
qed

end
