(* ===== verification/WireInt.thy ===== *)
theory WireInt
  imports Prelude
begin

text \<open>
  The big-endian integers of the wire format: \<^verbatim>\<open>appendUint16\<close>, \<^verbatim>\<open>appendUint32\<close> and
  \<^verbatim>\<open>appendUint64\<close> of \<^verbatim>\<open>internal/reflect/utils.go\<close>, and the standard library's
  \<^verbatim>\<open>binary.BigEndian\<close> readers the decoder uses, which panic on a short slice.
  The locale \<open>be_codec\<close> is the contract the encoder and the decoder rely on; the four
  widths are its interpretations.
\<close>

unbundle bit_operations_syntax

definition appendByte :: "bytes \<Rightarrow> byte \<Rightarrow> bytes" where
  "appendByte b v = b @ [v]"

definition appendUint16 :: "bytes \<Rightarrow> 16 word \<Rightarrow> bytes" where
  "appendUint16 b v = b @ [ucast (drop_bit 8 v), ucast v]"

definition appendUint32 :: "bytes \<Rightarrow> 32 word \<Rightarrow> bytes" where
  "appendUint32 b v =
     b @ [ucast (drop_bit 24 v), ucast (drop_bit 16 v), ucast (drop_bit 8 v), ucast v]"

definition appendUint64 :: "bytes \<Rightarrow> 64 word \<Rightarrow> bytes" where
  "appendUint64 b v =
     b @ [ucast (drop_bit 56 v), ucast (drop_bit 48 v), ucast (drop_bit 40 v), ucast (drop_bit 32 v),
          ucast (drop_bit 24 v), ucast (drop_bit 16 v), ucast (drop_bit 8 v), ucast v]"

definition beByte :: "bytes \<Rightarrow> byte go" where
  "beByte b = index b 0"

definition beUint16 :: "bytes \<Rightarrow> 16 word go" where
  "beUint16 b =
     (if length b < 2 then Panic IndexOutOfRange
      else Ok (push_bit 8 (ucast (b ! 0)) OR ucast (b ! 1)))"

definition beUint32 :: "bytes \<Rightarrow> 32 word go" where
  "beUint32 b =
     (if length b < 4 then Panic IndexOutOfRange
      else Ok (push_bit 24 (ucast (b ! 0)) OR push_bit 16 (ucast (b ! 1)) OR
               push_bit 8 (ucast (b ! 2)) OR ucast (b ! 3)))"

definition beUint64 :: "bytes \<Rightarrow> 64 word go" where
  "beUint64 b =
     (if length b < 8 then Panic IndexOutOfRange
      else Ok (push_bit 56 (ucast (b ! 0)) OR push_bit 48 (ucast (b ! 1)) OR
               push_bit 40 (ucast (b ! 2)) OR push_bit 32 (ucast (b ! 3)) OR
               push_bit 24 (ucast (b ! 4)) OR push_bit 16 (ucast (b ! 5)) OR
               push_bit 8 (ucast (b ! 6)) OR ucast (b ! 7)))"

lemma beUint16_Cons: "beUint16 (x # y # r) = Ok (push_bit 8 (ucast x) OR ucast y)"
  by (simp add: beUint16_def)

lemma beUint32_Cons:
  "beUint32 (x0 # x1 # x2 # x3 # r) =
     Ok (push_bit 24 (ucast x0) OR push_bit 16 (ucast x1) OR push_bit 8 (ucast x2) OR ucast x3)"
  by (simp add: beUint32_def)

lemma beUint64_Cons:
  "beUint64 (x0 # x1 # x2 # x3 # x4 # x5 # x6 # x7 # r) =
     Ok (push_bit 56 (ucast x0) OR push_bit 48 (ucast x1) OR push_bit 40 (ucast x2) OR
         push_bit 32 (ucast x3) OR push_bit 24 (ucast x4) OR push_bit 16 (ucast x5) OR
         push_bit 8 (ucast x6) OR ucast x7)"
  by (simp add: beUint64_def)

subsection \<open>Splitting and joining words by bytes\<close>

lemma byte_piece:
  fixes v :: "'a::len word"
  assumes "k + 8 \<le> LENGTH('a)"
  shows "push_bit k (ucast (ucast (drop_bit k v) :: byte)) OR take_bit k v = take_bit (k + 8) v"
proof (rule bit_word_eqI)
  fix n assume "n < LENGTH('a)"
  then show "bit (push_bit k (ucast (ucast (drop_bit k v) :: byte)) OR take_bit k v) n \<longleftrightarrow>
      bit (take_bit (k + 8) v) n"
    using assms by (cases "n < k") (auto simp: bit_simps)
qed

lemma low_piece: "ucast (ucast v :: byte) = (take_bit 8 v :: 'a::len word)"
  by (rule bit_word_eqI) (auto simp: bit_simps)

lemma take_bit_full: "LENGTH('a) = n \<Longrightarrow> take_bit n (v :: 'a::len word) = v"
  by (drule sym) simp

lemma join16: "push_bit 8 (ucast (ucast (drop_bit 8 v) :: byte)) OR ucast (ucast v :: byte) = (v :: 16 word)"
  using byte_piece [of 8 v] by (simp add: low_piece take_bit_full)

lemma join32:
  "push_bit 24 (ucast (ucast (drop_bit 24 v) :: byte)) OR push_bit 16 (ucast (ucast (drop_bit 16 v) :: byte))
     OR push_bit 8 (ucast (ucast (drop_bit 8 v) :: byte)) OR ucast (ucast v :: byte) = (v :: 32 word)"
  using byte_piece [of 8 v] byte_piece [of 16 v] byte_piece [of 24 v]
  by (simp add: low_piece take_bit_full)

lemma join64:
  "push_bit 56 (ucast (ucast (drop_bit 56 v) :: byte)) OR push_bit 48 (ucast (ucast (drop_bit 48 v) :: byte))
     OR push_bit 40 (ucast (ucast (drop_bit 40 v) :: byte)) OR push_bit 32 (ucast (ucast (drop_bit 32 v) :: byte))
     OR push_bit 24 (ucast (ucast (drop_bit 24 v) :: byte)) OR push_bit 16 (ucast (ucast (drop_bit 16 v) :: byte))
     OR push_bit 8 (ucast (ucast (drop_bit 8 v) :: byte)) OR ucast (ucast v :: byte) = (v :: 64 word)"
  using byte_piece [of 8 v] byte_piece [of 16 v] byte_piece [of 24 v] byte_piece [of 32 v]
    byte_piece [of 40 v] byte_piece [of 48 v] byte_piece [of 56 v]
  by (simp add: low_piece take_bit_full)

lemma ucast_push_bit_byte:
  fixes x :: byte
  shows "8 \<le> k \<Longrightarrow> (ucast (push_bit k (ucast x) :: 'a::len word) :: byte) = 0"
  by (rule bit_word_eqI) (auto simp: bit_simps)

lemma bit_byte_ge: "8 \<le> n \<Longrightarrow> \<not> bit (x :: byte) n"
  by (auto dest: bit_imp_le_length)

lemma drop_bit_push_bit_byte:
  fixes x :: byte
  assumes "k + 8 \<le> LENGTH('a)"
  shows "(ucast (drop_bit n (push_bit k (ucast x) :: 'a::len word)) :: byte) =
    (if n = k then x else if n + 8 \<le> k \<or> k + 8 \<le> n then 0
     else ucast (drop_bit n (push_bit k (ucast x) :: 'a word)))"
  using assms by (auto intro!: bit_word_eqI simp: bit_simps bit_byte_ge)

lemma drop_bit_ucast_byte:
  fixes x :: byte
  shows "8 \<le> n \<Longrightarrow> (ucast (drop_bit n (ucast x :: 'a::len word)) :: byte) = 0"
  by (rule bit_word_eqI) (auto simp: bit_simps dest: bit_imp_le_length)

lemma ucast_ucast_byte:
  fixes x :: byte
  shows "8 \<le> LENGTH('a) \<Longrightarrow> (ucast (ucast x :: 'a::len word) :: byte) = x"
  by (rule bit_word_eqI) (auto simp: bit_simps)

lemma ucast_or: "(ucast (x OR y :: 'a::len word) :: 'b::len word) = ucast x OR ucast y"
  by (rule bit_word_eqI) (auto simp: bit_simps)

lemma ucast_drop_or:
  "(ucast (drop_bit n (x OR y :: 'a::len word)) :: 'b::len word) =
     ucast (drop_bit n x) OR ucast (drop_bit n y)"
  by (rule bit_word_eqI) (auto simp: bit_simps)

lemmas byte_split_simps = ucast_or ucast_drop_or ucast_push_bit_byte drop_bit_push_bit_byte
  drop_bit_ucast_byte ucast_ucast_byte

subsection \<open>The codec contract\<close>

locale be_codec =
  fixes put :: "bytes \<Rightarrow> 'a \<Rightarrow> bytes"
    and get :: "bytes \<Rightarrow> 'a go"
    and width :: nat
  assumes put_append: "put b v = b @ put [] v"
    and length_put: "length (put [] v) = width"
    and get_put: "get (put [] v @ r) = Ok v"
    and get_short: "length b < width \<Longrightarrow> get b = Panic IndexOutOfRange"
    and get_complete: "width \<le> length b \<Longrightarrow> \<exists>v. get b = Ok v \<and> take width b = put [] v"
begin

lemma length_put_gen [simp]: "length (put b v) = length b + width"
  by (subst put_append) (simp add: length_put)

lemma put_inject: "put b v = put b v' \<longleftrightarrow> v = v'"
proof
  assume "put b v = put b v'"
  then have "put [] v = put [] v'" by (metis put_append same_append_eq)
  then show "v = v'" by (metis get_put go.inject(1))
qed simp

lemma get_put_exact: "get (put [] v) = Ok v"
  using get_put [of v "[]"] by simp

lemma get_Ok_iff: "get b = Ok v \<longleftrightarrow> width \<le> length b \<and> take width b = put [] v"
proof (cases "width \<le> length b")
  case True
  then obtain w where w: "get b = Ok w" "take width b = put [] w" using get_complete by blast
  then show ?thesis using True put_inject by auto
next
  case False
  then show ?thesis by (simp add: get_short)
qed

lemma get_is_Ok: "is_Ok (get b) \<longleftrightarrow> width \<le> length b"
  by (metis get_complete get_short is_Ok.simps linorder_not_le)

lemma get_at: "get (drop (length b) (put b v @ r)) = Ok v"
  by (subst put_append) (simp add: get_put)

end

lemma list_ge_2: "2 \<le> length b \<Longrightarrow> \<exists>x y r. b = x # y # r"
  by (auto simp: numeral_2_eq_2 dest!: length_ge_Cons)

lemma list_ge_4: "4 \<le> length b \<Longrightarrow> \<exists>x0 x1 x2 x3 r. b = x0 # x1 # x2 # x3 # r"
  by (auto simp: eval_nat_numeral dest!: length_ge_Cons)

lemma list_ge_8:
  "8 \<le> length b \<Longrightarrow> \<exists>x0 x1 x2 x3 x4 x5 x6 x7 r. b = x0 # x1 # x2 # x3 # x4 # x5 # x6 # x7 # r"
  by (auto simp: eval_nat_numeral dest!: length_ge_Cons)

lemma beUint16_complete:
  "2 \<le> length b \<Longrightarrow> \<exists>v. beUint16 b = Ok v \<and> take 2 b = appendUint16 [] v"
  by (auto dest!: list_ge_2 simp: beUint16_Cons appendUint16_def byte_split_simps)

lemma beUint32_complete:
  "4 \<le> length b \<Longrightarrow> \<exists>v. beUint32 b = Ok v \<and> take 4 b = appendUint32 [] v"
  by (auto dest!: list_ge_4 simp: beUint32_Cons appendUint32_def byte_split_simps)

lemma beUint64_complete:
  "8 \<le> length b \<Longrightarrow> \<exists>v. beUint64 b = Ok v \<and> take 8 b = appendUint64 [] v"
  by (auto dest!: list_ge_8 simp: beUint64_Cons appendUint64_def byte_split_simps)

interpretation be8: be_codec appendByte beByte 1
  by unfold_locales
     (auto simp: appendByte_def beByte_def index_def Suc_le_length_iff)

interpretation be16: be_codec appendUint16 beUint16 2
  by unfold_locales
     (simp_all add: beUint16_Cons join16 beUint16_complete, simp_all add: appendUint16_def beUint16_def join16)

interpretation be32: be_codec appendUint32 beUint32 4
  by unfold_locales
     (simp_all add: beUint32_Cons join32 beUint32_complete, simp_all add: appendUint32_def beUint32_def join32)

interpretation be64: be_codec appendUint64 beUint64 8
  by unfold_locales
     (simp_all add: beUint64_Cons join64 beUint64_complete, simp_all add: appendUint64_def beUint64_def join64)

end
