(* ===== verification/AppendCore.thy ===== *)
theory AppendCore
  imports StructDesc WireInt
begin

text \<open>
  \<^verbatim>\<open>internal/reflect/append.go\<close>: the encoder of a struct and of any value. An append function
  returns the extended buffer and an error; both are kept (\<open>AErr b e\<close>), as the caller gets
  the partial buffer too. Calls through the function pointer \<^verbatim>\<open>t.AppendFunc\<close> go through the
  parameter \<open>call\<close>, which \<open>AppendRun\<close> instantiates with the dispatch itself.
\<close>

datatype gerr =
    MapSizeChanged
  | FieldErr rtype "16 word" gerr \<comment> \<open>\<^verbatim>\<open>withFieldErr\<close>\<close>

datatype ares = AOk bytes | AErr bytes gerr | APanic panic

type_synonym appendFuncType = "tType \<Rightarrow> bytes \<Rightarrow> ptr \<Rightarrow> ares"

text \<open>\<^verbatim>\<open>b, err = f(...); if err != nil { return b, err }\<close>, and a load that may panic.\<close>

primrec abind :: "ares \<Rightarrow> (bytes \<Rightarrow> ares) \<Rightarrow> ares" where
  "abind (AOk b) k = k b"
| "abind (AErr b e) k = AErr b e"
| "abind (APanic p) k = APanic p"

primrec aload :: "'a go \<Rightarrow> ('a \<Rightarrow> ares) \<Rightarrow> ares" where
  "aload (Ok x) k = k x"
| "aload (Panic p) k = APanic p"

lemma abind_AOk [simp]: "abind m AOk = m"
  by (cases m) auto

lemma abind_assoc: "abind (abind m f) g = abind m (\<lambda>b. abind (f b) g)"
  by (cases m) auto

lemma abind_cong [cong]:
  "m = m' \<Longrightarrow> (\<And>b. m' = AOk b \<Longrightarrow> k b = k' b) \<Longrightarrow> abind m k = abind m' k'"
  by (cases m') auto

lemma abind_eq_AOk_iff [simp]: "abind m k = AOk b \<longleftrightarrow> (\<exists>b'. m = AOk b' \<and> k b' = AOk b)"
  by (cases m) auto

lemma aload_eq_AOk_iff [simp]: "aload m k = AOk b \<longleftrightarrow> (\<exists>x. m = Ok x \<and> k x = AOk b)"
  by (cases m) auto

lemma abind_aload: "abind (aload m f) g = aload m (\<lambda>x. abind (f x) g)"
  by (cases m) auto

subsection \<open>appendAny\<close>

text \<open>\<^verbatim>\<open>b = appendUint32(b, uint32(len(s))); b = append(b, s...)\<close>.\<close>

definition appendString :: "bytes \<Rightarrow> bytes \<Rightarrow> bytes" where
  "appendString b s = appendUint32 b (of_nat (length s)) @ s"

text \<open>\<^verbatim>\<open>appendUint32(b, uint32(v))\<close> of an \<^verbatim>\<open>int64\<close> enum.\<close>

definition appendEnum :: "bytes \<Rightarrow> 64 word \<Rightarrow> bytes" where
  "appendEnum b v = appendUint32 b (ucast v)"

text \<open>The switch on \<^verbatim>\<open>t.T\<close> that \<^verbatim>\<open>appendAny\<close> and \<^verbatim>\<open>appendStruct\<close> share.\<close>

definition appendSimple :: appendFuncType where
  "appendSimple t b p =
     (if tT t = tBYTE \<or> tT t = tBOOL then aload (ld8 p) (\<lambda>x. AOk (appendByte b x))
      else if tT t = tI16 then aload (ld16 p) (\<lambda>x. AOk (appendUint16 b x))
      else if tT t = tI32 then aload (ld32 p) (\<lambda>x. AOk (appendUint32 b x))
      else if tT t = tENUM then aload (ld64 p) (\<lambda>x. AOk (appendEnum b x))
      else if tT t = tI64 \<or> tT t = tDOUBLE then aload (ld64 p) (\<lambda>x. AOk (appendUint64 b x))
      else if tT t = tSTRING then aload (ldString p) (\<lambda>s. AOk (appendString b s))
      else AOk b)"

definition appendAny :: "appendFuncType \<Rightarrow> appendFuncType" where
  "appendAny call t b p =
     aload (if tIsPointer t then ldPtr p else Ok p) (\<lambda>p.
       if tSimpleType t then appendSimple t b p else call t b p)"

subsection \<open>appendStruct\<close>

definition withFieldErr :: "rtype \<Rightarrow> tField \<Rightarrow> ares \<Rightarrow> ares" where
  "withFieldErr rt f r = (case r of AErr b e \<Rightarrow> AErr b (FieldErr rt (fID f) e) | _ \<Rightarrow> r)"

text \<open>One turn of the loop over \<^verbatim>\<open>sd.fields\<close>: the two skips, the field header, the value.\<close>

definition field_skipped :: "tField \<Rightarrow> ptr \<Rightarrow> bool go" where
  "field_skipped f p =
     gobind (if fCanSkipEncodeIfNil f then ldIsNil p else Ok False) (\<lambda>s.
       if s then Ok True
       else if fCanSkipIfDefault f then tType_Equal (fType f) (fDefault f) p else Ok False)"

definition appendFieldHeader :: "tField \<Rightarrow> bytes \<Rightarrow> bytes" where
  "appendFieldHeader f b = b @ [tWT (fType f), ucast (drop_bit 8 (fID f)), ucast (fID f)]"

definition appendField :: "appendFuncType \<Rightarrow> rtype \<Rightarrow> ptr \<Rightarrow> tField \<Rightarrow> bytes \<Rightarrow> ares" where
  "appendField call rt base f b =
     aload (fieldAt base (fOffset f)) (\<lambda>p.
     aload (field_skipped f p) (\<lambda>s.
       if s then AOk b
       else
         let t = fType f; b = appendFieldHeader f b
         in aload (if tIsPointer t then ldPtr p else Ok p) (\<lambda>p.
              if tSimpleType t then appendSimple t b p
              else withFieldErr rt f (call t b p))))"

fun appendFields :: "appendFuncType \<Rightarrow> rtype \<Rightarrow> ptr \<Rightarrow> tField list \<Rightarrow> bytes \<Rightarrow> ares" where
  "appendFields call rt base [] b = AOk b"
| "appendFields call rt base (f # fs) b =
     abind (appendField call rt base f b) (appendFields call rt base fs)"

definition appendUnknown :: "structDesc \<Rightarrow> ptr \<Rightarrow> bytes \<Rightarrow> ares" where
  "appendUnknown sd base b =
     (if hasUnknownFields sd
      then aload (fieldAt base (unknownFieldsOffset sd)) (\<lambda>p. aload (ldBytes p) (\<lambda>xb.
             if length xb > 0 then AOk (b @ xb) else AOk b))
      else AOk b)"

text \<open>
  \<^verbatim>\<open>appendStruct\<close>, for the descriptor \<^verbatim>\<open>t.Sd\<close>; a nil \<^verbatim>\<open>t.Sd\<close> panics at its first use,
  which comes after the test of \<open>base\<close>.
\<close>

definition appendStruct :: "appendFuncType \<Rightarrow> structDesc go \<Rightarrow> bytes \<Rightarrow> ptr \<Rightarrow> ares" where
  "appendStruct call sdp b base =
     (if base = None then AOk (b @ [tSTOP])
      else aload sdp (\<lambda>sd.
        abind (appendFields call (sd_rt sd) base (sd_fields sd) b) (\<lambda>b.
        abind (appendUnknown sd base b) (\<lambda>b.
          AOk (b @ [tSTOP])))))"

end
