(* ===== verification/AppendList.thy ===== *)
theory AppendList
  imports AppendCore
begin

text \<open>
  \<^verbatim>\<open>internal/reflect/append_list.go\<close> and \<^verbatim>\<open>append_list_fast.go\<close>: the header of a list or a
  set, the generic loop, and the specialised loops \<^verbatim>\<open>newTType\<close> installs by element type.
\<close>

text \<open>
  \<^verbatim>\<open>appendListHeader\<close>: the extended buffer, the length as \<^verbatim>\<open>uint32\<close>, and the elements from
  \<^verbatim>\<open>h.Data\<close> on. \<open>t\<close> is the element type.
\<close>

definition appendListHeader :: "tType \<Rightarrow> bytes \<Rightarrow> ptr \<Rightarrow> (bytes \<times> 32 word \<times> gval list) go" where
  "appendListHeader t b p =
     gobind (ldIsNil p) (\<lambda>z.
       if z then Ok (b @ [tWT t, 0, 0, 0, 0], 0, [])
       else gobind (ldSlice p) (\<lambda>vs.
         let n = of_nat (length vs) :: 32 word
         in Ok (b @ [tWT t, ucast (drop_bit 24 n), ucast (drop_bit 16 n), ucast (drop_bit 8 n),
                     ucast n], n, vs)))"

text \<open>
  \<^verbatim>\<open>for i := uint32(0); i < n; i++\<close> with \<open>vp\<close> advanced before every turn but the first: the
  body sees the cells in turn, and stepping past the last one is a bad access.
\<close>

fun listLoop :: "(bytes \<Rightarrow> ptr \<Rightarrow> ares) \<Rightarrow> gval list \<Rightarrow> nat \<Rightarrow> bytes \<Rightarrow> ares" where
  "listLoop body vs 0 b = AOk b"
| "listLoop body [] (Suc n) b = APanic BadMemory"
| "listLoop body (v # vs) (Suc n) b = abind (body b (Some v)) (listLoop body vs n)"

text \<open>What all of the functions do around their loop body.\<close>

definition appendList_with :: "(tType \<Rightarrow> bytes \<Rightarrow> ptr \<Rightarrow> ares) \<Rightarrow> appendFuncType" where
  "appendList_with body t b p =
     aload (tt_deref (tV t)) (\<lambda>t.
     aload (appendListHeader t b p) (\<lambda>(b, n, vs).
       if n = 0 then AOk b else listLoop (body t) vs (unat n) b))"

definition appendListAny :: "appendFuncType \<Rightarrow> appendFuncType" where
  "appendListAny call = appendList_with (\<lambda>t b vp. appendAny call t b vp)"

definition appendList_I08 :: appendFuncType where
  "appendList_I08 = appendList_with (\<lambda>t b vp. aload (ld8 vp) (\<lambda>x. AOk (appendByte b x)))"

definition appendList_I16 :: appendFuncType where
  "appendList_I16 = appendList_with (\<lambda>t b vp. aload (ld16 vp) (\<lambda>x. AOk (appendUint16 b x)))"

definition appendList_I32 :: appendFuncType where
  "appendList_I32 = appendList_with (\<lambda>t b vp. aload (ld32 vp) (\<lambda>x. AOk (appendUint32 b x)))"

definition appendList_I64 :: appendFuncType where
  "appendList_I64 = appendList_with (\<lambda>t b vp. aload (ld64 vp) (\<lambda>x. AOk (appendUint64 b x)))"

definition appendList_ENUM :: appendFuncType where
  "appendList_ENUM = appendList_with (\<lambda>t b vp. aload (ld64 vp) (\<lambda>x. AOk (appendEnum b x)))"

definition appendList_STRING :: appendFuncType where
  "appendList_STRING =
     appendList_with (\<lambda>t b vp. aload (ldString vp) (\<lambda>s. AOk (appendString b s)))"

text \<open>
  \<^verbatim>\<open>if t.IsPointer { t.AppendFunc(t, b, *(*unsafe.Pointer)(vp)) } else { t.AppendFunc(t, b, vp) }\<close>,
  the call all the \<^verbatim>\<open>_Other\<close> functions make.
\<close>

definition callOther :: "appendFuncType \<Rightarrow> appendFuncType" where
  "callOther call t b vp =
     (if tIsPointer t then aload (ldPtr vp) (\<lambda>q. call t b q) else call t b vp)"

definition appendList_Other :: "appendFuncType \<Rightarrow> appendFuncType" where
  "appendList_Other call = appendList_with (\<lambda>t b vp. callOther call t b vp)"

lemma listLoop_cong:
  "(\<And>v b. v \<in> set vs \<Longrightarrow> f b (Some v) = g b (Some v)) \<Longrightarrow>
   listLoop f vs n b = listLoop g vs n b"
proof (induction f vs n b rule: listLoop.induct)
  case (3 body v vs n b)
  then show ?case by (auto intro!: abind_cong)
qed auto

end
