(* ===== verification/AppendMap.thy ===== *)
theory AppendMap
  imports AppendList
begin

text \<open>
  \<^verbatim>\<open>internal/reflect/append_map.go\<close>: the header of a map, the count check that notices a map
  changed during encoding, and the generic loop over the entries.
\<close>

definition checkMapN :: "bytes \<Rightarrow> 32 word \<Rightarrow> ares" where
  "checkMapN b n = (if n = 0 then AOk b else AErr b MapSizeChanged)"

text \<open>
  \<^verbatim>\<open>appendMapHeader\<close>: the extended buffer and \<^verbatim>\<open>uint32(maplen(m))\<close>; the third component is
  what an iteration of the map visits.
\<close>

definition appendMapHeader ::
  "tType \<Rightarrow> bytes \<Rightarrow> ptr \<Rightarrow> (bytes \<times> 32 word \<times> (gval \<times> gval) list) go" where
  "appendMapHeader t b p =
     gobind (ldIsNil p) (\<lambda>z.
     gobind (if z then Ok (0, []) else ldMap p) (\<lambda>(cnt, kvs).
     gobind (tt_deref (tK t)) (\<lambda>k.
     gobind (tt_deref (tV t)) (\<lambda>v.
       let n = of_nat cnt :: 32 word
       in Ok (b @ [tWT k, tWT v, ucast (drop_bit 24 n), ucast (drop_bit 16 n),
                   ucast (drop_bit 8 n), ucast n], n, kvs)))))"

text \<open>
  \<^verbatim>\<open>for kp, vp := it.Next(); kp != nil; kp, vp = it.Next() { n--; ... }\<close>, ending in
  \<^verbatim>\<open>return b, checkMapN(n)\<close>. The body gets pointers to the key and to the value.
\<close>

fun iterLoop ::
  "(bytes \<Rightarrow> ptr \<Rightarrow> ptr \<Rightarrow> ares) \<Rightarrow> (gval \<times> gval) list \<Rightarrow> 32 word \<Rightarrow> bytes \<Rightarrow> ares" where
  "iterLoop body [] n b = checkMapN b n"
| "iterLoop body ((k, v) # kvs) n b =
     abind (body b (Some k) (Some v)) (iterLoop body kvs (n - 1))"

definition iterMap :: "(tType \<Rightarrow> bytes \<Rightarrow> ptr \<Rightarrow> ptr \<Rightarrow> ares) \<Rightarrow> appendFuncType" where
  "iterMap body t b p =
     aload (appendMapHeader t b p) (\<lambda>(b, n, kvs).
       if n = 0 then AOk b else iterLoop (body t) kvs n b)"

text \<open>The body of an iteration: the key, then the value.\<close>

definition pairBody ::
  "(tType \<Rightarrow> bytes \<Rightarrow> ptr \<Rightarrow> ares) \<Rightarrow> (tType \<Rightarrow> bytes \<Rightarrow> ptr \<Rightarrow> ares) \<Rightarrow>
     tType \<Rightarrow> bytes \<Rightarrow> ptr \<Rightarrow> ptr \<Rightarrow> ares" where
  "pairBody fk fv t b kp vp =
     abind (aload (tt_deref (tK t)) (\<lambda>k. fk k b kp)) (\<lambda>b.
            aload (tt_deref (tV t)) (\<lambda>v. fv v b vp))"

definition appendMapAnyAny :: "appendFuncType \<Rightarrow> appendFuncType" where
  "appendMapAnyAny call = iterMap (pairBody (appendAny call) (appendAny call))"

text \<open>
  \<^verbatim>\<open>for k, v := range *(*map[K]V)(p) { n--; ... }\<close>: typed reads of the keys and the values,
  then the body on the values read.
\<close>

fun rangeLoop ::
  "(gval \<Rightarrow> 'k go) \<Rightarrow> (gval \<Rightarrow> 'v go) \<Rightarrow> (bytes \<Rightarrow> 'k \<Rightarrow> 'v \<Rightarrow> bytes) \<Rightarrow>
     (gval \<times> gval) list \<Rightarrow> 32 word \<Rightarrow> bytes \<Rightarrow> ares" where
  "rangeLoop kr vr body [] n b = checkMapN b n"
| "rangeLoop kr vr body ((k, v) # kvs) n b =
     aload (kr k) (\<lambda>x. aload (vr v) (\<lambda>y.
       rangeLoop kr vr body kvs (n - 1) (body b x y)))"

definition rangeMap ::
  "(gval \<Rightarrow> 'k go) \<Rightarrow> (gval \<Rightarrow> 'v go) \<Rightarrow> (bytes \<Rightarrow> 'k \<Rightarrow> 'v \<Rightarrow> bytes) \<Rightarrow> appendFuncType" where
  "rangeMap kr vr body t b p =
     aload (appendMapHeader t b p) (\<lambda>(b, n, kvs).
       if n = 0 then AOk b else rangeLoop kr vr body kvs n b)"

lemma iterLoop_cong:
  "(\<And>k v b. (k, v) \<in> set kvs \<Longrightarrow> f b (Some k) (Some v) = g b (Some k) (Some v)) \<Longrightarrow>
   iterLoop f kvs n b = iterLoop g kvs n b"
proof (induction f kvs n b rule: iterLoop.induct)
  case (2 body k v kvs n b)
  then show ?case by (auto intro!: abind_cong)
qed auto

text \<open>A typed range and an iteration agree when they agree on every entry.\<close>

lemma rangeLoop_iterLoop:
  assumes "\<And>k v. (k, v) \<in> set kvs \<Longrightarrow> \<exists>x y. kr k = Ok x \<and> vr v = Ok y \<and>
      (\<forall>b. f b (Some k) (Some v) = AOk (body b x y))"
  shows "rangeLoop kr vr body kvs n b = iterLoop f kvs n b"
  using assms
proof (induction kvs arbitrary: n b)
  case (Cons kv kvs)
  obtain k v where kv: "kv = (k, v)" by (cases kv)
  from Cons.prems [of k v] obtain x y where xy: "kr k = Ok x" "vr v = Ok y"
    "\<And>b. f b (Some k) (Some v) = AOk (body b x y)" by (auto simp: kv)
  show ?case using Cons.IH Cons.prems by (simp add: kv xy)
qed simp

end
