(* ===== verification/AppendMapFast.thy ===== *)
theory AppendMapFast
  imports AppendMap
begin

text \<open>
  \<^verbatim>\<open>internal/reflect/append_map_fast.go\<close>: the 64 specialised map encoders
  \<^verbatim>\<open>appendMap_<K>_<V>\<close>. Between scalars the Go code ranges over the map at a fixed Go map
  type (\<open>rangeMap\<close>, whose reads are the typed ones); a key or a value of another type is
  reached through the reflective iterator and its own append function (\<open>iterMap\<close>). In
  both shapes the entry is the key followed by the value, and the loop ends in the check of
  the count. \<open>mapFast\<close> gives the function values of the registration table their meaning.
\<close>

definition appendMapBool :: "bytes \<Rightarrow> bool \<Rightarrow> bytes" where
  "appendMapBool b v = (if v then appendByte b 1 else appendByte b 0)"

definition appendMap_BOOL_BOOL :: appendFuncType where
  "appendMap_BOOL_BOOL = rangeMap asBool asBool (\<lambda>b k v. appendMapBool (appendMapBool b k) v)"

definition appendMap_BOOL_I08 :: appendFuncType where
  "appendMap_BOOL_I08 = rangeMap asBool asByte (\<lambda>b k v. appendByte (appendMapBool b k) v)"

definition appendMap_BOOL_I16 :: appendFuncType where
  "appendMap_BOOL_I16 = rangeMap asBool asUint16 (\<lambda>b k v. appendUint16 (appendMapBool b k) v)"

definition appendMap_BOOL_I32 :: appendFuncType where
  "appendMap_BOOL_I32 = rangeMap asBool asUint32 (\<lambda>b k v. appendUint32 (appendMapBool b k) v)"

definition appendMap_BOOL_I64 :: appendFuncType where
  "appendMap_BOOL_I64 = rangeMap asBool asUint64 (\<lambda>b k v. appendUint64 (appendMapBool b k) v)"

definition appendMap_BOOL_ENUM :: appendFuncType where
  "appendMap_BOOL_ENUM = rangeMap asBool asInt64 (\<lambda>b k v. appendEnum (appendMapBool b k) v)"

definition appendMap_BOOL_STRING :: appendFuncType where
  "appendMap_BOOL_STRING = rangeMap asBool asString (\<lambda>b k v. appendString (appendMapBool b k) v)"

definition appendMap_BOOL_Other :: "appendFuncType \<Rightarrow> appendFuncType" where
  "appendMap_BOOL_Other call =
     iterMap (pairBody (\<lambda>t b p. aload (ld8 p) (\<lambda>x. AOk (appendByte b x)))
       (callOther call))"

definition appendMap_I08_I08 :: appendFuncType where
  "appendMap_I08_I08 = rangeMap asByte asByte (\<lambda>b k v. appendByte (appendByte b k) v)"

definition appendMap_I08_BOOL :: appendFuncType where
  "appendMap_I08_BOOL = rangeMap asByte asBool (\<lambda>b k v. appendMapBool (appendByte b k) v)"

definition appendMap_I08_I16 :: appendFuncType where
  "appendMap_I08_I16 = rangeMap asByte asUint16 (\<lambda>b k v. appendUint16 (appendByte b k) v)"

definition appendMap_I08_I32 :: appendFuncType where
  "appendMap_I08_I32 = rangeMap asByte asUint32 (\<lambda>b k v. appendUint32 (appendByte b k) v)"

definition appendMap_I08_I64 :: appendFuncType where
  "appendMap_I08_I64 = rangeMap asByte asUint64 (\<lambda>b k v. appendUint64 (appendByte b k) v)"

definition appendMap_I08_ENUM :: appendFuncType where
  "appendMap_I08_ENUM = rangeMap asByte asInt64 (\<lambda>b k v. appendEnum (appendByte b k) v)"

definition appendMap_I08_STRING :: appendFuncType where
  "appendMap_I08_STRING = rangeMap asByte asString (\<lambda>b k v. appendString (appendByte b k) v)"

definition appendMap_I08_Other :: "appendFuncType \<Rightarrow> appendFuncType" where
  "appendMap_I08_Other call =
     iterMap (pairBody (\<lambda>t b p. aload (ld8 p) (\<lambda>x. AOk (appendByte b x)))
       (callOther call))"

definition appendMap_I16_I08 :: appendFuncType where
  "appendMap_I16_I08 = rangeMap asUint16 asByte (\<lambda>b k v. appendByte (appendUint16 b k) v)"

definition appendMap_I16_BOOL :: appendFuncType where
  "appendMap_I16_BOOL = rangeMap asUint16 asBool (\<lambda>b k v. appendMapBool (appendUint16 b k) v)"

definition appendMap_I16_I16 :: appendFuncType where
  "appendMap_I16_I16 = rangeMap asUint16 asUint16 (\<lambda>b k v. appendUint16 (appendUint16 b k) v)"

definition appendMap_I16_I32 :: appendFuncType where
  "appendMap_I16_I32 = rangeMap asUint16 asUint32 (\<lambda>b k v. appendUint32 (appendUint16 b k) v)"

definition appendMap_I16_I64 :: appendFuncType where
  "appendMap_I16_I64 = rangeMap asUint16 asUint64 (\<lambda>b k v. appendUint64 (appendUint16 b k) v)"

definition appendMap_I16_ENUM :: appendFuncType where
  "appendMap_I16_ENUM = rangeMap asUint16 asInt64 (\<lambda>b k v. appendEnum (appendUint16 b k) v)"

definition appendMap_I16_STRING :: appendFuncType where
  "appendMap_I16_STRING = rangeMap asUint16 asString (\<lambda>b k v. appendString (appendUint16 b k) v)"

definition appendMap_I16_Other :: "appendFuncType \<Rightarrow> appendFuncType" where
  "appendMap_I16_Other call =
     iterMap (pairBody (\<lambda>t b p. aload (ld16 p) (\<lambda>x. AOk (appendUint16 b x)))
       (callOther call))"

definition appendMap_I32_I08 :: appendFuncType where
  "appendMap_I32_I08 = rangeMap asUint32 asByte (\<lambda>b k v. appendByte (appendUint32 b k) v)"

definition appendMap_I32_BOOL :: appendFuncType where
  "appendMap_I32_BOOL = rangeMap asUint32 asBool (\<lambda>b k v. appendMapBool (appendUint32 b k) v)"

definition appendMap_I32_I16 :: appendFuncType where
  "appendMap_I32_I16 = rangeMap asUint32 asUint16 (\<lambda>b k v. appendUint16 (appendUint32 b k) v)"

definition appendMap_I32_I32 :: appendFuncType where
  "appendMap_I32_I32 = rangeMap asUint32 asUint32 (\<lambda>b k v. appendUint32 (appendUint32 b k) v)"

definition appendMap_I32_I64 :: appendFuncType where
  "appendMap_I32_I64 = rangeMap asUint32 asUint64 (\<lambda>b k v. appendUint64 (appendUint32 b k) v)"

definition appendMap_I32_ENUM :: appendFuncType where
  "appendMap_I32_ENUM = rangeMap asUint32 asInt64 (\<lambda>b k v. appendEnum (appendUint32 b k) v)"

definition appendMap_I32_STRING :: appendFuncType where
  "appendMap_I32_STRING = rangeMap asUint32 asString (\<lambda>b k v. appendString (appendUint32 b k) v)"

definition appendMap_I32_Other :: "appendFuncType \<Rightarrow> appendFuncType" where
  "appendMap_I32_Other call =
     iterMap (pairBody (\<lambda>t b p. aload (ld32 p) (\<lambda>x. AOk (appendUint32 b x)))
       (callOther call))"

definition appendMap_I64_I08 :: appendFuncType where
  "appendMap_I64_I08 = rangeMap asUint64 asByte (\<lambda>b k v. appendByte (appendUint64 b k) v)"

definition appendMap_I64_BOOL :: appendFuncType where
  "appendMap_I64_BOOL = rangeMap asUint64 asBool (\<lambda>b k v. appendMapBool (appendUint64 b k) v)"

definition appendMap_I64_I16 :: appendFuncType where
  "appendMap_I64_I16 = rangeMap asUint64 asUint16 (\<lambda>b k v. appendUint16 (appendUint64 b k) v)"

definition appendMap_I64_I32 :: appendFuncType where
  "appendMap_I64_I32 = rangeMap asUint64 asUint32 (\<lambda>b k v. appendUint32 (appendUint64 b k) v)"

definition appendMap_I64_I64 :: appendFuncType where
  "appendMap_I64_I64 = rangeMap asUint64 asUint64 (\<lambda>b k v. appendUint64 (appendUint64 b k) v)"

definition appendMap_I64_ENUM :: appendFuncType where
  "appendMap_I64_ENUM = rangeMap asUint64 asInt64 (\<lambda>b k v. appendEnum (appendUint64 b k) v)"

definition appendMap_I64_STRING :: appendFuncType where
  "appendMap_I64_STRING = rangeMap asUint64 asString (\<lambda>b k v. appendString (appendUint64 b k) v)"

definition appendMap_I64_Other :: "appendFuncType \<Rightarrow> appendFuncType" where
  "appendMap_I64_Other call =
     iterMap (pairBody (\<lambda>t b p. aload (ld64 p) (\<lambda>x. AOk (appendUint64 b x)))
       (callOther call))"

definition appendMap_ENUM_I08 :: appendFuncType where
  "appendMap_ENUM_I08 = rangeMap asInt64 asByte (\<lambda>b k v. appendByte (appendEnum b k) v)"

definition appendMap_ENUM_BOOL :: appendFuncType where
  "appendMap_ENUM_BOOL = rangeMap asInt64 asBool (\<lambda>b k v. appendMapBool (appendEnum b k) v)"

definition appendMap_ENUM_I16 :: appendFuncType where
  "appendMap_ENUM_I16 = rangeMap asInt64 asUint16 (\<lambda>b k v. appendUint16 (appendEnum b k) v)"

definition appendMap_ENUM_I32 :: appendFuncType where
  "appendMap_ENUM_I32 = rangeMap asInt64 asUint32 (\<lambda>b k v. appendUint32 (appendEnum b k) v)"

definition appendMap_ENUM_I64 :: appendFuncType where
  "appendMap_ENUM_I64 = rangeMap asInt64 asUint64 (\<lambda>b k v. appendUint64 (appendEnum b k) v)"

definition appendMap_ENUM_ENUM :: appendFuncType where
  "appendMap_ENUM_ENUM = rangeMap asInt64 asInt64 (\<lambda>b k v. appendEnum (appendEnum b k) v)"

definition appendMap_ENUM_STRING :: appendFuncType where
  "appendMap_ENUM_STRING = rangeMap asInt64 asString (\<lambda>b k v. appendString (appendEnum b k) v)"

definition appendMap_ENUM_Other :: "appendFuncType \<Rightarrow> appendFuncType" where
  "appendMap_ENUM_Other call =
     iterMap (pairBody (\<lambda>t b p. aload (ld64 p) (\<lambda>x. AOk (appendEnum b x)))
       (callOther call))"

definition appendMap_STRING_I08 :: appendFuncType where
  "appendMap_STRING_I08 = rangeMap asString asByte (\<lambda>b k v. appendByte (appendString b k) v)"

definition appendMap_STRING_BOOL :: appendFuncType where
  "appendMap_STRING_BOOL = rangeMap asString asBool (\<lambda>b k v. appendMapBool (appendString b k) v)"

definition appendMap_STRING_I16 :: appendFuncType where
  "appendMap_STRING_I16 = rangeMap asString asUint16 (\<lambda>b k v. appendUint16 (appendString b k) v)"

definition appendMap_STRING_I32 :: appendFuncType where
  "appendMap_STRING_I32 = rangeMap asString asUint32 (\<lambda>b k v. appendUint32 (appendString b k) v)"

definition appendMap_STRING_I64 :: appendFuncType where
  "appendMap_STRING_I64 = rangeMap asString asUint64 (\<lambda>b k v. appendUint64 (appendString b k) v)"

definition appendMap_STRING_ENUM :: appendFuncType where
  "appendMap_STRING_ENUM = rangeMap asString asInt64 (\<lambda>b k v. appendEnum (appendString b k) v)"

definition appendMap_STRING_STRING :: appendFuncType where
  "appendMap_STRING_STRING = rangeMap asString asString (\<lambda>b k v. appendString (appendString b k) v)"

definition appendMap_STRING_Other :: "appendFuncType \<Rightarrow> appendFuncType" where
  "appendMap_STRING_Other call =
     iterMap (pairBody (\<lambda>t b p. aload (ldString p) (\<lambda>x. AOk (appendString b x)))
       (callOther call))"

definition appendMap_Other_I08 :: "appendFuncType \<Rightarrow> appendFuncType" where
  "appendMap_Other_I08 call =
     iterMap (pairBody (callOther call)
       (\<lambda>t b p. aload (ld8 p) (\<lambda>x. AOk (appendByte b x))))"

definition appendMap_Other_BOOL :: "appendFuncType \<Rightarrow> appendFuncType" where
  "appendMap_Other_BOOL call =
     iterMap (pairBody (callOther call)
       (\<lambda>t b p. aload (ld8 p) (\<lambda>x. AOk (appendByte b x))))"

definition appendMap_Other_I16 :: "appendFuncType \<Rightarrow> appendFuncType" where
  "appendMap_Other_I16 call =
     iterMap (pairBody (callOther call)
       (\<lambda>t b p. aload (ld16 p) (\<lambda>x. AOk (appendUint16 b x))))"

definition appendMap_Other_I32 :: "appendFuncType \<Rightarrow> appendFuncType" where
  "appendMap_Other_I32 call =
     iterMap (pairBody (callOther call)
       (\<lambda>t b p. aload (ld32 p) (\<lambda>x. AOk (appendUint32 b x))))"

definition appendMap_Other_I64 :: "appendFuncType \<Rightarrow> appendFuncType" where
  "appendMap_Other_I64 call =
     iterMap (pairBody (callOther call)
       (\<lambda>t b p. aload (ld64 p) (\<lambda>x. AOk (appendUint64 b x))))"

definition appendMap_Other_ENUM :: "appendFuncType \<Rightarrow> appendFuncType" where
  "appendMap_Other_ENUM call =
     iterMap (pairBody (callOther call)
       (\<lambda>t b p. aload (ld64 p) (\<lambda>x. AOk (appendEnum b x))))"

definition appendMap_Other_STRING :: "appendFuncType \<Rightarrow> appendFuncType" where
  "appendMap_Other_STRING call =
     iterMap (pairBody (callOther call)
       (\<lambda>t b p. aload (ldString p) (\<lambda>x. AOk (appendString b x))))"

definition appendMap_Other_Other :: "appendFuncType \<Rightarrow> appendFuncType" where
  "appendMap_Other_Other call =
     iterMap (pairBody (callOther call)
       (callOther call))"

fun mapFast :: "mkind \<Rightarrow> mkind \<Rightarrow> appendFuncType \<Rightarrow> appendFuncType" where
  "mapFast mBOOL mBOOL call = appendMap_BOOL_BOOL"
| "mapFast mBOOL mI08 call = appendMap_BOOL_I08"
| "mapFast mBOOL mI16 call = appendMap_BOOL_I16"
| "mapFast mBOOL mI32 call = appendMap_BOOL_I32"
| "mapFast mBOOL mI64 call = appendMap_BOOL_I64"
| "mapFast mBOOL mENUM call = appendMap_BOOL_ENUM"
| "mapFast mBOOL mSTRING call = appendMap_BOOL_STRING"
| "mapFast mBOOL mOther call = appendMap_BOOL_Other call"
| "mapFast mI08 mI08 call = appendMap_I08_I08"
| "mapFast mI08 mBOOL call = appendMap_I08_BOOL"
| "mapFast mI08 mI16 call = appendMap_I08_I16"
| "mapFast mI08 mI32 call = appendMap_I08_I32"
| "mapFast mI08 mI64 call = appendMap_I08_I64"
| "mapFast mI08 mENUM call = appendMap_I08_ENUM"
| "mapFast mI08 mSTRING call = appendMap_I08_STRING"
| "mapFast mI08 mOther call = appendMap_I08_Other call"
| "mapFast mI16 mI08 call = appendMap_I16_I08"
| "mapFast mI16 mBOOL call = appendMap_I16_BOOL"
| "mapFast mI16 mI16 call = appendMap_I16_I16"
| "mapFast mI16 mI32 call = appendMap_I16_I32"
| "mapFast mI16 mI64 call = appendMap_I16_I64"
| "mapFast mI16 mENUM call = appendMap_I16_ENUM"
| "mapFast mI16 mSTRING call = appendMap_I16_STRING"
| "mapFast mI16 mOther call = appendMap_I16_Other call"
| "mapFast mI32 mI08 call = appendMap_I32_I08"
| "mapFast mI32 mBOOL call = appendMap_I32_BOOL"
| "mapFast mI32 mI16 call = appendMap_I32_I16"
| "mapFast mI32 mI32 call = appendMap_I32_I32"
| "mapFast mI32 mI64 call = appendMap_I32_I64"
| "mapFast mI32 mENUM call = appendMap_I32_ENUM"
| "mapFast mI32 mSTRING call = appendMap_I32_STRING"
| "mapFast mI32 mOther call = appendMap_I32_Other call"
| "mapFast mI64 mI08 call = appendMap_I64_I08"
| "mapFast mI64 mBOOL call = appendMap_I64_BOOL"
| "mapFast mI64 mI16 call = appendMap_I64_I16"
| "mapFast mI64 mI32 call = appendMap_I64_I32"
| "mapFast mI64 mI64 call = appendMap_I64_I64"
| "mapFast mI64 mENUM call = appendMap_I64_ENUM"
| "mapFast mI64 mSTRING call = appendMap_I64_STRING"
| "mapFast mI64 mOther call = appendMap_I64_Other call"
| "mapFast mENUM mI08 call = appendMap_ENUM_I08"
| "mapFast mENUM mBOOL call = appendMap_ENUM_BOOL"
| "mapFast mENUM mI16 call = appendMap_ENUM_I16"
| "mapFast mENUM mI32 call = appendMap_ENUM_I32"
| "mapFast mENUM mI64 call = appendMap_ENUM_I64"
| "mapFast mENUM mENUM call = appendMap_ENUM_ENUM"
| "mapFast mENUM mSTRING call = appendMap_ENUM_STRING"
| "mapFast mENUM mOther call = appendMap_ENUM_Other call"
| "mapFast mSTRING mI08 call = appendMap_STRING_I08"
| "mapFast mSTRING mBOOL call = appendMap_STRING_BOOL"
| "mapFast mSTRING mI16 call = appendMap_STRING_I16"
| "mapFast mSTRING mI32 call = appendMap_STRING_I32"
| "mapFast mSTRING mI64 call = appendMap_STRING_I64"
| "mapFast mSTRING mENUM call = appendMap_STRING_ENUM"
| "mapFast mSTRING mSTRING call = appendMap_STRING_STRING"
| "mapFast mSTRING mOther call = appendMap_STRING_Other call"
| "mapFast mOther mI08 call = appendMap_Other_I08 call"
| "mapFast mOther mBOOL call = appendMap_Other_BOOL call"
| "mapFast mOther mI16 call = appendMap_Other_I16 call"
| "mapFast mOther mI32 call = appendMap_Other_I32 call"
| "mapFast mOther mI64 call = appendMap_Other_I64 call"
| "mapFast mOther mENUM call = appendMap_Other_ENUM call"
| "mapFast mOther mSTRING call = appendMap_Other_STRING call"
| "mapFast mOther mOther call = appendMap_Other_Other call"

end
