(* ===== verification/AppendRun.thy ===== *)
theory AppendRun
  imports AppendMapFast
begin

text \<open>
  The encoder as a whole: the call \<^verbatim>\<open>t.AppendFunc(t, b, p)\<close> dispatches on the function
  value \<^verbatim>\<open>newTType\<close> chose, and the functions call each other through it. The recursion
  follows the nesting of the value; the first argument bounds the depth of the calls, as the
  Go stack does, and \<open>StackOverflow\<close> is its end. \<open>EncodeCorrect\<close> shows that the nesting
  depth of the value is enough.
\<close>

fun runAppend :: "nat \<Rightarrow> env \<Rightarrow> appendFuncType" where
  "runAppend 0 env t b p = APanic StackOverflow"
| "runAppend (Suc k) env t b p =
     (let call = runAppend k env
      in case tAppendFunc t of
           AppendAny \<Rightarrow> appendAny call t b p
         | AppendStruct \<Rightarrow> appendStruct call (Sd env t) b p
         | AppendListAny \<Rightarrow> appendListAny call t b p
         | AppendList_I08 \<Rightarrow> appendList_I08 t b p
         | AppendList_I16 \<Rightarrow> appendList_I16 t b p
         | AppendList_I32 \<Rightarrow> appendList_I32 t b p
         | AppendList_I64 \<Rightarrow> appendList_I64 t b p
         | AppendList_ENUM \<Rightarrow> appendList_ENUM t b p
         | AppendList_STRING \<Rightarrow> appendList_STRING t b p
         | AppendList_Other \<Rightarrow> appendList_Other call t b p
         | AppendMapAnyAny \<Rightarrow> appendMapAnyAny call t b p
         | AppendMap k v \<Rightarrow> mapFast k v call t b p)"

lemma runAppend_Suc_list:
  "tAppendFunc t = AppendListAny \<Longrightarrow> runAppend (Suc k) env t b p = appendListAny (runAppend k env) t b p"
  by simp

lemma runAppend_Suc_struct:
  "tAppendFunc t = AppendStruct \<Longrightarrow>
   runAppend (Suc k) env t b p = appendStruct (runAppend k env) (Sd env t) b p"
  by simp

end
