(* ===== verification/Conform.thy ===== *)
theory Conform
  imports AppendMapFast
begin

text \<open>
  What it means for the parts of the model to fit together: well-formed runtime types (what
  \<^verbatim>\<open>newTType\<close> builds for the types the codec supports), well-formed struct descriptors, and
  conformance of a memory cell to a type. Conformance is indexed by the nesting depth of the
  value, which is also the bound the encoder's and the decoder's recursions are compared to.
\<close>

subsection \<open>The table of map encoders\<close>

definition mkind_of :: "ttype \<Rightarrow> mkind" where
  "mkind_of t =
     (if t = tBOOL then mBOOL else if t = tBYTE then mI08 else if t = tI16 then mI16
      else if t = tI32 then mI32 else if t = tI64 \<or> t = tDOUBLE then mI64
      else if t = tENUM then mENUM else if t = tSTRING then mSTRING else mOther)"

definition valueTypes :: "ttype list" where
  "valueTypes = [tBOOL, tBYTE, tI16, tI32, tI64, tDOUBLE, tENUM, tSTRING, tSTRUCT, tMAP, tSET, tLIST]"

definition listFn_of :: "ttype \<Rightarrow> appendFn" where
  "listFn_of t =
     (if t = tBYTE then AppendList_I08 else if t = tI16 then AppendList_I16
      else if t = tI32 then AppendList_I32 else if t = tI64 \<or> t = tDOUBLE then AppendList_I64
      else if t = tENUM then AppendList_ENUM else if t = tSTRING then AppendList_STRING
      else if t = tSTRUCT \<or> t = tMAP \<or> t = tSET \<or> t = tLIST then AppendList_Other
      else AppendListAny)"

subsection \<open>Well-formed types\<close>

text \<open>
  \<open>bv\<close> allows structs by value (the tag parser accepts them, \<^verbatim>\<open>thriftgo\<close> does not generate
  them). A list element or a map value that is a pointer points to a struct, a map key is a
  scalar, a string or a pointer to a struct, as \<^verbatim>\<open>IsValueType\<close> and \<^verbatim>\<open>IsKeyType\<close> demand. Shapes
  the parser accepts and the code gets wrong are left out: a map from a scalar or a string to
  \<^verbatim>\<open>binary\<close>, which its encoder misreads (\<open>rangeMap_binary\<close> in \<open>FastPaths\<close>), and a pointer to a container
  (\<open>pointer_to_list_misread\<close> and \<open>pointer_to_map_panics\<close> in \<open>MapTypes\<close>). So is a pointer to a
  \<^verbatim>\<open>[]byte\<close>, which nothing here is about.
\<close>

definition elemOK :: "tType \<Rightarrow> bool" where
  "elemOK t \<longleftrightarrow> (tIsPointer t \<longrightarrow> tT t = tSTRUCT)"

definition keyOK :: "tType \<Rightarrow> bool" where
  "keyOK t \<longleftrightarrow>
     (if tIsPointer t then tT t = tSTRUCT else simpleTypes (tT t) \<and> tTag t \<noteq> T_binary)"

text \<open>
  Memory of a type that is not a scalar is typed, so that the allocator clears it; the same for
  what a pointer points to.
\<close>

definition memOK :: "ttype \<Rightarrow> bool \<Rightarrow> rtype option \<Rightarrow> tType option \<Rightarrow> bool" where
  "memOK T isp abi V \<longleftrightarrow>
     (isp \<or> typeToSize T = 0 \<longrightarrow> abi \<noteq> None) \<and>
     (isp \<longrightarrow> (case V of Some v \<Rightarrow> typeToSize T = 0 \<longrightarrow> tMallocAbiType v \<noteq> None | None \<Rightarrow> False))"

fun wfT :: "bool \<Rightarrow> env \<Rightarrow> tType \<Rightarrow> bool" where
  "wfT bv env (TType T K V WT tg rt sz al abi isp sim fsz fn) \<longleftrightarrow>
     sim = simpleTypes T \<and> fsz = typeToSize T \<and> WT = (if T = tENUM then tI32 else T) \<and>
     (isp \<longleftrightarrow> tg = T_pointer) \<and> memOK T isp abi V \<and>
     (if simpleTypes T then
        fn = AppendAny \<and> K = None \<and> (tg = T_binary \<longrightarrow> T = tSTRING) \<and>
        (if isp then (case V of Some v \<Rightarrow> tT v = T \<and> \<not> tIsPointer v \<and> tTag v \<noteq> T_binary | None \<Rightarrow> False)
         else V = None)
      else if T = tSTRUCT then
        fn = AppendStruct \<and> tg \<noteq> T_binary \<and> (isp \<or> bv) \<and> K = None \<and>
        (case struct_id rt of Some i \<Rightarrow> env i \<noteq> None | None \<Rightarrow> False) \<and>
        (if isp then (case V of Some v \<Rightarrow> tT v = T \<and> \<not> tIsPointer v \<and> struct_id (tRT v) = struct_id rt
                      | None \<Rightarrow> False)
         else V = None)
      else if T = tLIST \<or> T = tSET then
        \<not> isp \<and> tg \<noteq> T_binary \<and> K = None \<and>
        (case V of Some v \<Rightarrow> wfT bv env v \<and> elemOK v \<and> fn = listFn_of (tT v) | None \<Rightarrow> False)
      else if T = tMAP then
        \<not> isp \<and> tg \<noteq> T_binary \<and>
        (case (K, V) of
           (Some k, Some v) \<Rightarrow>
             wfT bv env k \<and> wfT bv env v \<and> keyOK k \<and> elemOK v \<and>
             (tTag v = T_binary \<longrightarrow> tT k = tSTRUCT) \<and>
             fn = AppendMap (mkind_of (tT k)) (mkind_of (tT v))
         | _ \<Rightarrow> False)
      else False)"

subsection \<open>Conformance\<close>

text \<open>
  \<open>strict\<close> adds what the encoder relies on: a \<^verbatim>\<open>bool\<close> is 0 or 1, a length fits the 32-bit
  header, and a map's count is the number of its entries (nothing changes it meanwhile).
\<close>

definition confSimple :: "bool \<Rightarrow> tType \<Rightarrow> gval \<Rightarrow> bool" where
  "confSimple strict t v =
     (if tT t = tBOOL then (case v of VByte x \<Rightarrow> strict \<longrightarrow> x = 0 \<or> x = 1 | _ \<Rightarrow> False)
      else if tT t = tBYTE then (case v of VByte x \<Rightarrow> True | _ \<Rightarrow> False)
      else if tT t = tI16 then (case v of VI16 x \<Rightarrow> True | _ \<Rightarrow> False)
      else if tT t = tI32 then (case v of VI32 x \<Rightarrow> True | _ \<Rightarrow> False)
      else if tT t = tI64 \<or> tT t = tDOUBLE \<or> tT t = tENUM then
        (case v of VI64 x \<Rightarrow> True | _ \<Rightarrow> False)
      else if tT t = tSTRING then
        (if tTag t = T_binary
         then (case v of VBytes q \<Rightarrow> strict \<longrightarrow> (case q of Some s \<Rightarrow> length s < 2 ^ 32 | None \<Rightarrow> True)
                       | _ \<Rightarrow> False)
         else (case v of VString s \<Rightarrow> strict \<longrightarrow> length s < 2 ^ 32 | _ \<Rightarrow> False))
      else False)"

text \<open>A struct: every field is there and conforms or is a nil that the encoder skips.\<close>

definition confFields ::
  "(tType \<Rightarrow> gval \<Rightarrow> bool) \<Rightarrow> structDesc \<Rightarrow> (nat \<times> gval) list \<Rightarrow> bool" where
  "confFields c sd cs \<longleftrightarrow>
     (\<forall>f\<in>set (sd_fields sd).
        case map_of cs (fOffset f) of
          None \<Rightarrow> False
        | Some v \<Rightarrow> (fCanSkipEncodeIfNil f \<and> tIsPointer (fType f) \<and> v = VPtr None) \<or> c (fType f) v) \<and>
     (hasUnknownFields sd \<longrightarrow>
        (case map_of cs (unknownFieldsOffset sd) of Some (VBytes q) \<Rightarrow> True | _ \<Rightarrow> False))"

fun conf :: "bool \<Rightarrow> env \<Rightarrow> nat \<Rightarrow> tType \<Rightarrow> gval \<Rightarrow> bool" where
  "conf strict env 0 t v = False"
| "conf strict env (Suc n) t v =
     (let body = (\<lambda>w.
        if simpleTypes (tT t) then confSimple strict t w
        else if tT t = tLIST \<or> tT t = tSET then
          (case (tV t, w) of
             (Some et, VSlice None) \<Rightarrow> True
           | (Some et, VSlice (Some vs)) \<Rightarrow>
               (strict \<longrightarrow> length vs < 2 ^ 32) \<and> (\<forall>x\<in>set vs. conf strict env n et x)
           | _ \<Rightarrow> False)
        else if tT t = tMAP then
          (case (tK t, tV t, w) of
             (Some kt, Some vt, VMap None) \<Rightarrow> True
           | (Some kt, Some vt, VMap (Some (c, kvs))) \<Rightarrow>
               (strict \<longrightarrow> c = length kvs \<and> c < 2 ^ 32) \<and>
               (\<forall>kv\<in>set kvs. conf strict env n kt (fst kv) \<and> conf strict env n vt (snd kv))
           | _ \<Rightarrow> False)
        else if tT t = tSTRUCT then
          (case (Sd env t, w) of
             (Ok sd, VStruct cs) \<Rightarrow> confFields (conf strict env n) sd cs
           | _ \<Rightarrow> False)
        else False)
      in if tIsPointer t
         then (case v of VPtr None \<Rightarrow> tT t = tSTRUCT | VPtr (Some w) \<Rightarrow> body w | _ \<Rightarrow> False)
         else body v)"

subsection \<open>Well-formed descriptors\<close>

text \<open>
  What \<^verbatim>\<open>newStructDesc\<close> gives (see \<open>DescCorrect\<close>): skipping is for optional fields, a
  pointer to anything but a struct is skipped when nil, a default value conforms, the sizes
  and the index table describe the fields, and no two fields share an offset.
\<close>

definition wfField :: "bool \<Rightarrow> env \<Rightarrow> tField \<Rightarrow> bool" where
  "wfField bv env f \<longleftrightarrow>
     wfT bv env (fType f) \<and>
     (tIsPointer (fType f) \<and> tT (fType f) \<noteq> tSTRUCT \<longrightarrow> fCanSkipEncodeIfNil f) \<and>
     (fCanSkipEncodeIfNil f \<longrightarrow> fSpec f = Optional \<and>
        (tIsPointer (fType f) \<or> tTag (fType f) = T_binary \<or> containerTypes (tT (fType f)))) \<and>
     (fCanSkipIfDefault f \<longrightarrow> fSpec f = Optional \<and> \<not> tIsPointer (fType f) \<and>
        (case fDefault f of None \<Rightarrow> False
         | Some d \<Rightarrow> simpleTypes (tT (fType f)) \<longrightarrow> confSimple True (fType f) d)) \<and>
     (fNoCopy f \<longrightarrow> tT (fType f) = tSTRING)"

definition wfIdx :: "structDesc \<Rightarrow> bool" where
  "wfIdx sd \<longleftrightarrow>
     length (fieldIdx sd) = Suc (unat (maxID sd)) \<and>
     distinct (map fID (sd_fields sd)) \<and>
     (\<forall>j<length (sd_fields sd). fID (sd_fields sd ! j) \<le> maxID sd) \<and>
     (\<forall>k<length (fieldIdx sd).
        fieldIdx sd ! k =
          (case find (\<lambda>j. unat (fID (sd_fields sd ! j)) = k) [0..<length (sd_fields sd)] of
             None \<Rightarrow> -1 | Some j \<Rightarrow> int j))"

definition wfSizes :: "structDesc \<Rightarrow> bool" where
  "wfSizes sd \<longleftrightarrow>
     (fixedLenFieldSize sd, varLenFields sd, requiredFieldIDs sd) =
       sum_fields (sd_fields sd) 0 (0, [], [])"

definition wfSd :: "bool \<Rightarrow> env \<Rightarrow> structDesc \<Rightarrow> bool" where
  "wfSd bv env sd \<longleftrightarrow>
     (\<forall>f\<in>set (sd_fields sd). wfField bv env f) \<and> wfIdx sd \<and> wfSizes sd \<and>
     distinct (map fOffset (sd_fields sd)) \<and>
     (hasUnknownFields sd \<longrightarrow> unknownFieldsOffset sd \<notin> fOffset ` set (sd_fields sd))"

definition wfEnv :: "bool \<Rightarrow> env \<Rightarrow> bool" where
  "wfEnv bv env \<longleftrightarrow> (\<forall>i sd. env i = Some sd \<longrightarrow> wfSd bv env sd)"

subsection \<open>First consequences\<close>

lemma typeToSize_pos: "typeToSize T > 0 \<longleftrightarrow> simpleTypes T \<and> T \<noteq> tSTRING"
  by (auto simp: typeToSize_def simpleTypes_def)

lemma wfT_Sd:
  assumes "wfT bv env t" "tT t = tSTRUCT"
  obtains i sd where "struct_id (tRT t) = Some i" "env i = Some sd" "Sd env t = Ok sd"
  using assms by (cases t) (auto simp: Sd_def simpleTypes_def split: option.splits)

lemma wfEnv_sd: "wfEnv bv env \<Longrightarrow> Sd env t = Ok sd \<Longrightarrow> wfSd bv env sd"
  by (auto simp: wfEnv_def Sd_def split: option.splits)

lemma wfT_simple_sel: "wfT bv env t \<Longrightarrow> tSimpleType t = simpleTypes (tT t)"
  by (cases t) auto

lemma wfT_fixed_sel: "wfT bv env t \<Longrightarrow> tFixedSize t = typeToSize (tT t)"
  by (cases t) auto

lemma wfT_WT_sel: "wfT bv env t \<Longrightarrow> tWT t = (if tT t = tENUM then tI32 else tT t)"
  by (cases t) auto

lemma wfT_valueTypes: "wfT bv env t \<Longrightarrow> tT t \<in> set valueTypes"
  by (cases t) (auto simp: valueTypes_def simpleTypes_def split: if_splits)

lemma wfT_isp: "wfT bv env t \<Longrightarrow> tIsPointer t \<Longrightarrow> simpleTypes (tT t) \<or> tT t = tSTRUCT"
  by (cases t) (auto split: if_splits)

text \<open>The part of \<open>wfT\<close> for composed types, by selectors.\<close>

lemma wfT_composed:
  assumes "wfT bv env t" "\<not> simpleTypes (tT t)" "tT t \<noteq> tSTRUCT"
  shows "if tT t = tLIST \<or> tT t = tSET then
        \<not> tIsPointer t \<and> tTag t \<noteq> T_binary \<and> tK t = None \<and>
        (case tV t of Some v \<Rightarrow> wfT bv env v \<and> elemOK v \<and> tAppendFunc t = listFn_of (tT v) | None \<Rightarrow> False)
      else if tT t = tMAP then
        \<not> tIsPointer t \<and> tTag t \<noteq> T_binary \<and>
        (case (tK t, tV t) of
           (Some k, Some v) \<Rightarrow>
             wfT bv env k \<and> wfT bv env v \<and> keyOK k \<and> elemOK v \<and>
             (tTag v = T_binary \<longrightarrow> tT k = tSTRUCT) \<and>
             tAppendFunc t = AppendMap (mkind_of (tT k)) (mkind_of (tT v))
         | _ \<Rightarrow> False)
      else False"
proof -
  obtain T K V WT tg rt sz al abi isp sim fsz fn
    where t: "t = TType T K V WT tg rt sz al abi isp sim fsz fn" by (cases t)
  note w = assms(1) [unfolded t wfT.simps]
  note rest = w [THEN conjunct2, THEN conjunct2, THEN conjunct2, THEN conjunct2, THEN conjunct2]
  show ?thesis using rest assms(2,3) by (simp only: t tType.sel if_False)
qed

lemma wfT_list:
  assumes "wfT bv env t" "tT t = tLIST \<or> tT t = tSET"
  obtains et where "tV t = Some et" "wfT bv env et" "elemOK et" "tAppendFunc t = listFn_of (tT et)"
    "\<not> tIsPointer t"
proof -
  have "\<not> simpleTypes (tT t)" "tT t \<noteq> tSTRUCT" using assms(2) by (auto simp: simpleTypes_def)
  from wfT_composed [OF assms(1) this] assms(2) that show thesis by (auto split: option.splits)
qed

lemma wfT_map:
  assumes "wfT bv env t" "tT t = tMAP"
  obtains kt vt where "tK t = Some kt" "tV t = Some vt" "wfT bv env kt" "wfT bv env vt"
    "keyOK kt" "elemOK vt" "tTag vt = T_binary \<Longrightarrow> tT kt = tSTRUCT"
    "tAppendFunc t = AppendMap (mkind_of (tT kt)) (mkind_of (tT vt))" "\<not> tIsPointer t"
proof -
  have "\<not> simpleTypes (tT t)" "tT t \<noteq> tSTRUCT" "\<not> (tT t = tLIST \<or> tT t = tSET)"
    using assms(2) by (auto simp: simpleTypes_def)
  from wfT_composed [OF assms(1) this(1,2)] this(3) assms(2) that show thesis
    by (auto split: option.splits)
qed

text \<open>Memory the decoder allocates for a type is cleared, but for scalars.\<close>

lemma wfT_memOK: "wfT bv env t \<Longrightarrow> memOK (tT t) (tIsPointer t) (tMallocAbiType t) (tV t)"
  by (cases t) simp

lemma wfT_abi: "wfT bv env t \<Longrightarrow> tIsPointer t \<or> typeToSize (tT t) = 0 \<Longrightarrow> tMallocAbiType t \<noteq> None"
  by (drule wfT_memOK) (auto simp: memOK_def)

lemma wfT_V:
  assumes "wfT bv env t" "tIsPointer t"
  shows "tTag t = T_pointer"
    and "simpleTypes (tT t) \<Longrightarrow> case tV t of
      Some v \<Rightarrow> tT v = tT t \<and> \<not> tIsPointer v \<and> tTag v \<noteq> T_binary | None \<Rightarrow> False"
    and "tT t = tSTRUCT \<Longrightarrow> case tV t of
      Some v \<Rightarrow> tT v = tT t \<and> \<not> tIsPointer v \<and> struct_id (tRT v) = struct_id (tRT t) | None \<Rightarrow> False"
proof -
  obtain T K V WT tg rt sz al abi isp sim fsz fn
    where t: "t = TType T K V WT tg rt sz al abi isp sim fsz fn" by (cases t)
  note w = assms(1) [unfolded t wfT.simps]
  have isp: isp using assms(2) t by simp
  note rest = w [THEN conjunct2, THEN conjunct2, THEN conjunct2, THEN conjunct2, THEN conjunct2]
  have ns: "\<not> simpleTypes tSTRUCT" by (simp add: simpleTypes_def)
  show "tTag t = T_pointer" using w isp by (simp only: t tType.sel)
  show "case tV t of Some v \<Rightarrow> tT v = tT t \<and> \<not> tIsPointer v \<and> tTag v \<noteq> T_binary | None \<Rightarrow> False"
    if "simpleTypes (tT t)"
    using rest that isp by (simp only: t tType.sel if_True)
  show "case tV t of
      Some v \<Rightarrow> tT v = tT t \<and> \<not> tIsPointer v \<and> struct_id (tRT v) = struct_id (tRT t) | None \<Rightarrow> False"
    if "tT t = tSTRUCT"
    using rest that isp ns by (simp only: t tType.sel if_True if_False)
qed

lemma wfT_pointee:
  assumes "wfT bv env t" "tIsPointer t"
  shows "\<exists>v. tV t = Some v \<and> tT v = tT t \<and> \<not> tIsPointer v \<and> tTag t = T_pointer \<and>
    (typeToSize (tT t) = 0 \<longrightarrow> tMallocAbiType v \<noteq> None) \<and>
    (simpleTypes (tT t) \<longrightarrow> tTag v \<noteq> T_binary) \<and>
    (tT t = tSTRUCT \<longrightarrow> struct_id (tRT v) = struct_id (tRT t))"
proof -
  have "\<not> simpleTypes tSTRUCT" by (simp add: simpleTypes_def)
  with wfT_isp [OF assms] wfT_V [OF assms] obtain v where v: "tV t = Some v" "tT v = tT t"
    "\<not> tIsPointer v" "simpleTypes (tT t) \<Longrightarrow> tTag v \<noteq> T_binary"
    "tT t = tSTRUCT \<Longrightarrow> struct_id (tRT v) = struct_id (tRT t)"
    by (cases "tV t") auto
  moreover have "typeToSize (tT t) = 0 \<Longrightarrow> tMallocAbiType v \<noteq> None"
    using wfT_memOK [OF assms(1)] v(1) assms(2) by (simp add: memOK_def)
  ultimately show ?thesis using wfT_V(1) [OF assms] by (intro exI [of _ v]) simp
qed

lemma wfT_struct_fn: "wfT bv env t \<Longrightarrow> tT t = tSTRUCT \<Longrightarrow> tAppendFunc t = AppendStruct"
  by (cases t) (auto simp: simpleTypes_def)

lemmas wfT_sels = wfT_simple_sel wfT_fixed_sel wfT_WT_sel

end
