(* ===== verification/FastPaths.thy ===== *)
theory FastPaths
  imports AppendRun Conform
begin

text \<open>
  The specialised list and map encoders are the generic ones: the registration tables cover
  every pair of types, and each registered function writes the bytes \<^verbatim>\<open>appendListAny\<close> and
  \<^verbatim>\<open>appendMapAnyAny\<close> would. The exception is a map from a scalar or a string to \<^verbatim>\<open>binary\<close>, whose
  function reads \<^verbatim>\<open>[]byte\<close> as \<^verbatim>\<open>string\<close> (\<open>rangeMap_binary\<close>).
\<close>

subsection \<open>The tables\<close>

lemma listAppendFuncs_eq:
  "(case listAppendFuncs t of Some f \<Rightarrow> f | None \<Rightarrow> AppendListAny) = listFn_of t"
  by (simp add: listAppendFuncs_def list_registrations_def registerListAppendFunc_def listFn_of_def)

lemma fold_register:
  "fold (\<lambda>((k, v), f). registerMapAppendFunc k v f) xs m = m ++ map_of (rev xs)"
proof (induction xs arbitrary: m)
  case (Cons x xs)
  obtain k v f where "x = ((k, v), f)" by (metis prod.exhaust)
  then show ?case using Cons by (simp add: registerMapAppendFunc_def map_add_def fun_eq_iff
    split: option.splits)
qed simp

text \<open>
  The table row by row: every row lists all value types, the row of \<^verbatim>\<open>tBYTE\<close> starting with
  \<^verbatim>\<open>tBYTE\<close> itself.
\<close>

definition map_row :: "ttype \<Rightarrow> ttype list" where
  "map_row k = (if k = tBYTE then [tBYTE, tBOOL] else [tBOOL, tBYTE]) @ drop 2 valueTypes"

definition map_rows :: "((ttype \<times> ttype) \<times> appendFn) list" where
  "map_rows = concat (map (\<lambda>k. map (\<lambda>v. ((k, v), AppendMap (mkind_of k) (mkind_of v)))
     (map_row k)) valueTypes)"

lemma map_registrations_rows: "map_registrations = map_rows"
  by (simp add: map_registrations_def map_rows_def map_row_def valueTypes_def mkind_of_def)

lemma set_map_row: "set (map_row k) = set valueTypes"
  by (auto simp: map_row_def valueTypes_def)

lemma set_map_rows:
  "((k, v), f) \<in> set map_rows \<longleftrightarrow>
     k \<in> set valueTypes \<and> v \<in> set valueTypes \<and> f = AppendMap (mkind_of k) (mkind_of v)"
  by (auto simp: map_rows_def set_map_row)

lemma map_of_functional:
  assumes "\<And>x y. (x, y) \<in> set xs \<Longrightarrow> y = g x"
  shows "map_of xs x = (if x \<in> fst ` set xs then Some (g x) else None)"
  using assms by (induction xs) auto

lemma mapAppendFuncs_eq:
  "mapAppendFuncs (k, v) =
     (if k \<in> set valueTypes \<and> v \<in> set valueTypes
      then Some (AppendMap (mkind_of k) (mkind_of v)) else None)"
proof -
  have "mapAppendFuncs = map_of (rev map_rows)"
    by (simp add: mapAppendFuncs_def fold_register map_registrations_rows)
  moreover have "map_of (rev map_rows) (k, v) =
      (if (k, v) \<in> fst ` set map_rows then Some (AppendMap (mkind_of k) (mkind_of v)) else None)"
    by (subst map_of_functional [where g = "\<lambda>(k, v). AppendMap (mkind_of k) (mkind_of v)"])
       (auto simp: set_map_rows)
  moreover have "(k, v) \<in> fst ` set map_rows \<longleftrightarrow> (\<exists>f. ((k, v), f) \<in> set map_rows)"
    by force
  moreover have "\<dots> \<longleftrightarrow> k \<in> set valueTypes \<and> v \<in> set valueTypes"
    by (simp add: set_map_rows)
  ultimately show ?thesis by simp
qed

subsection \<open>Lists\<close>

lemma appendList_with_cong:
  assumes "\<And>et b vp. tV t = Some et \<Longrightarrow> f et b vp = g et b vp"
  shows "appendList_with f t b p = appendList_with g t b p"
proof (cases "tV t")
  case (Some et)
  then have "f et = g et" using assms by (intro ext) simp
  with Some show ?thesis
    by (cases "appendListHeader et b p") (auto simp: appendList_with_def)
qed (simp add: appendList_with_def tt_deref_def)

lemmas appendList_defs = appendList_I08_def appendList_I16_def appendList_I32_def
  appendList_I64_def appendList_ENUM_def appendList_STRING_def appendList_Other_def appendListAny_def

lemma callOther_eq: "\<not> tSimpleType t \<Longrightarrow> callOther call t b p = appendAny call t b p"
  by (cases "tIsPointer t") (simp_all add: callOther_def appendAny_def)

text \<open>The function \<^verbatim>\<open>newTType\<close> installs for a list is the generic loop.\<close>

fun listFn :: "appendFn \<Rightarrow> appendFuncType \<Rightarrow> appendFuncType" where
  "listFn AppendList_I08 call = appendList_I08"
| "listFn AppendList_I16 call = appendList_I16"
| "listFn AppendList_I32 call = appendList_I32"
| "listFn AppendList_I64 call = appendList_I64"
| "listFn AppendList_ENUM call = appendList_ENUM"
| "listFn AppendList_STRING call = appendList_STRING"
| "listFn AppendList_Other call = appendList_Other call"
| "listFn f call = appendListAny call"

lemma appendAny_scalar:
  assumes "\<not> tIsPointer t" "tSimpleType t = simpleTypes (tT t)"
  shows "tT t = tBYTE \<or> tT t = tBOOL \<Longrightarrow>
      appendAny call t b p = aload (ld8 p) (\<lambda>x. AOk (appendByte b x))"
    and "tT t = tI16 \<Longrightarrow> appendAny call t b p = aload (ld16 p) (\<lambda>x. AOk (appendUint16 b x))"
    and "tT t = tI32 \<Longrightarrow> appendAny call t b p = aload (ld32 p) (\<lambda>x. AOk (appendUint32 b x))"
    and "tT t = tENUM \<Longrightarrow> appendAny call t b p = aload (ld64 p) (\<lambda>x. AOk (appendEnum b x))"
    and "tT t = tI64 \<or> tT t = tDOUBLE \<Longrightarrow>
      appendAny call t b p = aload (ld64 p) (\<lambda>x. AOk (appendUint64 b x))"
    and "tT t = tSTRING \<Longrightarrow> appendAny call t b p = aload (ldString p) (\<lambda>s. AOk (appendString b s))"
  using assms by (auto simp: appendAny_def appendSimple_def simpleTypes_def)

lemma listFn_generic:
  assumes et: "tV t = Some et" and wf: "tSimpleType et = simpleTypes (tT et)" and el: "elemOK et"
    and vt: "tT et \<in> set valueTypes"
  shows "listFn (listFn_of (tT et)) call t b p = appendListAny call t b p"
proof -
  have np: "tT et \<noteq> tSTRUCT \<Longrightarrow> \<not> tIsPointer et"
    using el by (auto simp: elemOK_def)
  consider "tT et = tBOOL" | "tT et = tBYTE" | "tT et = tI16" | "tT et = tI32"
    | "tT et = tI64 \<or> tT et = tDOUBLE" | "tT et = tENUM" | "tT et = tSTRING"
    | "\<not> simpleTypes (tT et)"
    using vt by (auto simp: valueTypes_def simpleTypes_def)
  then show ?thesis
  proof cases
    case 8
    then have "listFn_of (tT et) = AppendList_Other"
      using vt by (auto simp: valueTypes_def simpleTypes_def listFn_of_def)
    with 8 show ?thesis
      by (auto simp: appendList_defs wf et callOther_eq intro!: appendList_with_cong)
  qed (use et np wf in \<open>auto simp: listFn_of_def appendList_defs appendAny_scalar
        intro!: appendList_with_cong\<close>)
qed

subsection \<open>Maps\<close>

text \<open>
  \<open>put\<close> writes what reading a cell of type \<open>t\<close> with \<open>rd\<close> gives, and that is what
  \<^verbatim>\<open>appendAny\<close> writes for the cell.
\<close>

definition typed_writer ::
  "appendFuncType \<Rightarrow> tType \<Rightarrow> (gval \<Rightarrow> 'a go) \<Rightarrow> (bytes \<Rightarrow> 'a \<Rightarrow> bytes) \<Rightarrow> bool" where
  "typed_writer call t rd put \<longleftrightarrow>
     (\<forall>v. confSimple True t v \<longrightarrow>
        (\<exists>x. rd v = Ok x \<and> (\<forall>b. appendAny call t b (Some v) = AOk (put b x))))"

definition scalar_elem :: "tType \<Rightarrow> bool" where
  "scalar_elem t \<longleftrightarrow> \<not> tIsPointer t \<and> tSimpleType t = simpleTypes (tT t) \<and> tTag t \<noteq> T_binary"

lemma typed_writers:
  assumes "scalar_elem t"
  shows "tT t = tBOOL \<Longrightarrow> typed_writer call t asBool appendMapBool"
    and "tT t = tBYTE \<Longrightarrow> typed_writer call t asByte appendByte"
    and "tT t = tI16 \<Longrightarrow> typed_writer call t asUint16 appendUint16"
    and "tT t = tI32 \<Longrightarrow> typed_writer call t asUint32 appendUint32"
    and "tT t = tI64 \<or> tT t = tDOUBLE \<Longrightarrow> typed_writer call t asUint64 appendUint64"
    and "tT t = tENUM \<Longrightarrow> typed_writer call t asInt64 appendEnum"
    and "tT t = tSTRING \<Longrightarrow> typed_writer call t asString appendString"
  using assms
  by (auto simp: typed_writer_def scalar_elem_def confSimple_def appendAny_scalar appendMapBool_def
      split: gval.splits)

lemma rangeMap_generic:
  assumes K: "tK t = Some kt" "typed_writer call kt kr kp"
    and V: "tV t = Some vt" "typed_writer call vt vr vp"
    and entries: "\<And>cnt kvs k v. ldMap p = Ok (cnt, kvs) \<Longrightarrow> (k, v) \<in> set kvs \<Longrightarrow>
      confSimple True kt k \<and> confSimple True vt v"
  shows "rangeMap kr vr (\<lambda>b k v. vp (kp b k) v) t b p = appendMapAnyAny call t b p"
proof -
  have "rangeLoop kr vr (\<lambda>b k v. vp (kp b k) v) kvs n b' =
      iterLoop (pairBody (appendAny call) (appendAny call) t) kvs n b'"
    if "ldMap p = Ok (cnt, kvs)" for cnt kvs n b'
  proof (rule rangeLoop_iterLoop)
    fix k v assume "(k, v) \<in> set kvs"
    with entries that have c: "confSimple True kt k" "confSimple True vt v" by blast+
    from K(2) c(1) obtain x where "kr k = Ok x" "\<And>b. appendAny call kt b (Some k) = AOk (kp b x)"
      by (auto simp: typed_writer_def)
    moreover from V(2) c(2) obtain y where "vr v = Ok y"
      "\<And>b. appendAny call vt b (Some v) = AOk (vp b y)" by (auto simp: typed_writer_def)
    ultimately show "\<exists>x y. kr k = Ok x \<and> vr v = Ok y \<and>
        (\<forall>b. pairBody (appendAny call) (appendAny call) t b (Some k) (Some v) = AOk (vp (kp b x) y))"
      using K V by (auto simp: pairBody_def)
  qed
  note loop = this
  show ?thesis
  proof (cases "ldIsNil p")
    case (Ok z)
    show ?thesis
      by (cases z; cases "ldMap p")
         (auto simp: rangeMap_def appendMapAnyAny_def iterMap_def appendMapHeader_def Ok K V Let_def loop
           split: prod.splits)
  qed (simp add: rangeMap_def appendMapAnyAny_def iterMap_def appendMapHeader_def)
qed

lemma rangeMap_body:
  assumes "tK t = Some kt" "tV t = Some vt"
    and "\<And>cnt kvs k v. ldMap p = Ok (cnt, kvs) \<Longrightarrow> (k, v) \<in> set kvs \<Longrightarrow>
      confSimple True kt k \<and> confSimple True vt v"
    and "typed_writer call kt kr kp" "typed_writer call vt vr vp"
    and "\<And>b k v. body b k v = vp (kp b k) v"
  shows "rangeMap kr vr body t b p = appendMapAnyAny call t b p"
proof -
  have "body = (\<lambda>b k v. vp (kp b k) v)" using assms(6) by (intro ext) simp
  with rangeMap_generic [OF assms(1,4,2,5,3)] show ?thesis by simp
qed

lemmas appendMap_scalar_defs =
  appendMap_BOOL_BOOL_def appendMap_BOOL_I08_def appendMap_BOOL_I16_def appendMap_BOOL_I32_def
  appendMap_BOOL_I64_def appendMap_BOOL_ENUM_def appendMap_BOOL_STRING_def appendMap_I08_I08_def
  appendMap_I08_BOOL_def appendMap_I08_I16_def appendMap_I08_I32_def appendMap_I08_I64_def
  appendMap_I08_ENUM_def appendMap_I08_STRING_def appendMap_I16_I08_def appendMap_I16_BOOL_def
  appendMap_I16_I16_def appendMap_I16_I32_def appendMap_I16_I64_def appendMap_I16_ENUM_def
  appendMap_I16_STRING_def appendMap_I32_I08_def appendMap_I32_BOOL_def appendMap_I32_I16_def
  appendMap_I32_I32_def appendMap_I32_I64_def appendMap_I32_ENUM_def appendMap_I32_STRING_def
  appendMap_I64_I08_def appendMap_I64_BOOL_def appendMap_I64_I16_def appendMap_I64_I32_def
  appendMap_I64_I64_def appendMap_I64_ENUM_def appendMap_I64_STRING_def appendMap_ENUM_I08_def
  appendMap_ENUM_BOOL_def appendMap_ENUM_I16_def appendMap_ENUM_I32_def appendMap_ENUM_I64_def
  appendMap_ENUM_ENUM_def appendMap_ENUM_STRING_def appendMap_STRING_I08_def
  appendMap_STRING_BOOL_def appendMap_STRING_I16_def appendMap_STRING_I32_def
  appendMap_STRING_I64_def appendMap_STRING_ENUM_def appendMap_STRING_STRING_def

lemmas appendMap_Other_defs =
  appendMap_BOOL_Other_def appendMap_I08_Other_def appendMap_I16_Other_def
  appendMap_I32_Other_def appendMap_I64_Other_def appendMap_ENUM_Other_def
  appendMap_STRING_Other_def appendMap_Other_I08_def appendMap_Other_BOOL_def
  appendMap_Other_I16_def appendMap_Other_I32_def appendMap_Other_I64_def
  appendMap_Other_ENUM_def appendMap_Other_STRING_def appendMap_Other_Other_def

lemma scalar_kind_cases:
  assumes "scalar_elem t" "simpleTypes (tT t)"
  obtains
    "mkind_of (tT t) = mBOOL" "typed_writer call t asBool appendMapBool" |
    "mkind_of (tT t) = mI08" "typed_writer call t asByte appendByte" |
    "mkind_of (tT t) = mI16" "typed_writer call t asUint16 appendUint16" |
    "mkind_of (tT t) = mI32" "typed_writer call t asUint32 appendUint32" |
    "mkind_of (tT t) = mI64" "typed_writer call t asUint64 appendUint64" |
    "mkind_of (tT t) = mENUM" "typed_writer call t asInt64 appendEnum" |
    "mkind_of (tT t) = mSTRING" "typed_writer call t asString appendString"
proof -
  have "tT t = tBOOL \<or> tT t = tBYTE \<or> tT t = tI16 \<or> tT t = tI32 \<or>
      (tT t = tI64 \<or> tT t = tDOUBLE) \<or> tT t = tENUM \<or> tT t = tSTRING"
    using assms(2) by (auto simp: simpleTypes_def)
  moreover note typed_writers [OF assms(1), of call]
  ultimately show thesis using that by (auto simp: mkind_of_def)
qed

lemma mapFast_scalar:
  assumes K: "tK t = Some kt" and V: "tV t = Some vt"
    and ks: "scalar_elem kt" and vs: "scalar_elem vt"
    and kT: "simpleTypes (tT kt)" and vT: "simpleTypes (tT vt)"
    and entries: "\<And>cnt kvs k v. ldMap p = Ok (cnt, kvs) \<Longrightarrow> (k, v) \<in> set kvs \<Longrightarrow>
      confSimple True kt k \<and> confSimple True vt v"
  shows "mapFast (mkind_of (tT kt)) (mkind_of (tT vt)) call t b p = appendMapAnyAny call t b p"
  by (rule scalar_kind_cases [OF ks kT, of call]; rule scalar_kind_cases [OF vs vT, of call];
      simp only: mapFast.simps appendMap_scalar_defs;
      rule rangeMap_body [OF K V entries]; (assumption | rule refl))

lemma iterMap_pair_cong:
  assumes "tK t = Some kt" "tV t = Some vt"
    and "\<forall>b p. fk kt b p = gk kt b p" "\<forall>b p. fv vt b p = gv vt b p"
  shows "iterMap (pairBody fk fv) t b p = iterMap (pairBody gk gv) t b p"
proof -
  have "pairBody fk fv t = pairBody gk gv t"
    using assms by (intro ext) (simp add: pairBody_def)
  then show ?thesis
    by (cases "appendMapHeader t b p") (auto simp: iterMap_def)
qed

lemma scalar_ptr_cases:
  assumes "\<not> tIsPointer t" "tSimpleType t = simpleTypes (tT t)" "simpleTypes (tT t)"
  obtains
    "mkind_of (tT t) = mBOOL"
      "\<forall>b p. aload (ld8 p) (\<lambda>x. AOk (appendByte b x)) = appendAny call t b p" |
    "mkind_of (tT t) = mI08"
      "\<forall>b p. aload (ld8 p) (\<lambda>x. AOk (appendByte b x)) = appendAny call t b p" |
    "mkind_of (tT t) = mI16"
      "\<forall>b p. aload (ld16 p) (\<lambda>x. AOk (appendUint16 b x)) = appendAny call t b p" |
    "mkind_of (tT t) = mI32"
      "\<forall>b p. aload (ld32 p) (\<lambda>x. AOk (appendUint32 b x)) = appendAny call t b p" |
    "mkind_of (tT t) = mI64"
      "\<forall>b p. aload (ld64 p) (\<lambda>x. AOk (appendUint64 b x)) = appendAny call t b p" |
    "mkind_of (tT t) = mENUM"
      "\<forall>b p. aload (ld64 p) (\<lambda>x. AOk (appendEnum b x)) = appendAny call t b p" |
    "mkind_of (tT t) = mSTRING"
      "\<forall>b p. aload (ldString p) (\<lambda>x. AOk (appendString b x)) = appendAny call t b p"
proof -
  have "tT t = tBOOL \<or> tT t = tBYTE \<or> tT t = tI16 \<or> tT t = tI32 \<or>
      (tT t = tI64 \<or> tT t = tDOUBLE) \<or> tT t = tENUM \<or> tT t = tSTRING"
    using assms(3) by (auto simp: simpleTypes_def)
  then show thesis using that assms by (auto simp: mkind_of_def appendAny_scalar)
qed

lemma mkind_Other: "\<not> simpleTypes T \<Longrightarrow> mkind_of T = mOther"
  by (simp add: simpleTypes_def mkind_of_def)

lemma mapFast_key_other:
  assumes K: "tK t = Some kt" and V: "tV t = Some vt"
    and ks: "\<not> tIsPointer kt" "tSimpleType kt = simpleTypes (tT kt)" "simpleTypes (tT kt)"
    and vs: "tSimpleType vt = simpleTypes (tT vt)" "\<not> simpleTypes (tT vt)"
  shows "mapFast (mkind_of (tT kt)) (mkind_of (tT vt)) call t b p = appendMapAnyAny call t b p"
proof -
  note cong = iterMap_pair_cong [OF K V]
  have v: "\<forall>b p. callOther call vt b p = appendAny call vt b p"
    using vs by (simp add: callOther_eq)
  show ?thesis
    unfolding mkind_Other [OF vs(2)] appendMapAnyAny_def
    by (rule scalar_ptr_cases [OF ks, of call]; simp only: mapFast.simps appendMap_Other_defs;
        rule cong; (assumption | rule v | simp))
qed

lemma mapFast_other_val:
  assumes K: "tK t = Some kt" and V: "tV t = Some vt"
    and ks: "tSimpleType kt = simpleTypes (tT kt)" "\<not> simpleTypes (tT kt)"
    and vs: "tSimpleType vt = simpleTypes (tT vt)" "elemOK vt" "tT vt \<in> set valueTypes"
  shows "mapFast (mkind_of (tT kt)) (mkind_of (tT vt)) call t b p = appendMapAnyAny call t b p"
proof -
  note cong = iterMap_pair_cong [OF K V]
  have k: "\<forall>b p. callOther call kt b p = appendAny call kt b p"
    using ks by (simp add: callOther_eq)
  show ?thesis
  proof (cases "simpleTypes (tT vt)")
    case True
    then have np: "\<not> tIsPointer vt" using vs(2) by (auto simp: elemOK_def simpleTypes_def)
    show ?thesis
      unfolding mkind_Other [OF ks(2)] appendMapAnyAny_def
      by (rule scalar_ptr_cases [OF np vs(1) True, of call]; simp only: mapFast.simps appendMap_Other_defs;
          rule cong; (assumption | rule k | simp))
  next
    case False
    then have v: "\<forall>b p. callOther call vt b p = appendAny call vt b p"
      using vs(1) by (simp add: callOther_eq)
    show ?thesis
      unfolding mkind_Other [OF ks(2)] mkind_Other [OF False] appendMapAnyAny_def mapFast.simps
        appendMap_Other_Other_def
      by (rule cong) (rule k, rule v)
  qed
qed

text \<open>
  A map type as \<^verbatim>\<open>newTType\<close> builds it: a key type and an element type of the permitted shapes,
  and the function of their kinds. The value may be a \<^verbatim>\<open>binary\<close>.
\<close>

definition mapType :: "tType \<Rightarrow> tType \<Rightarrow> tType \<Rightarrow> bool" where
  "mapType t kt vt \<longleftrightarrow>
     tK t = Some kt \<and> tV t = Some vt \<and> keyOK kt \<and> elemOK vt \<and>
     tSimpleType kt = simpleTypes (tT kt) \<and> tSimpleType vt = simpleTypes (tT vt) \<and>
     tT vt \<in> set valueTypes \<and> (tTag vt = T_binary \<longrightarrow> tT vt = tSTRING) \<and>
     tAppendFunc t = AppendMap (mkind_of (tT kt)) (mkind_of (tT vt))"

lemma wfT_mapType:
  assumes "wfT bv env t" "tT t = tMAP"
  obtains kt vt where "mapType t kt vt" "tTag vt = T_binary \<longrightarrow> tT kt = tSTRUCT"
proof -
  from wfT_map [OF assms] obtain kt vt where kv: "tK t = Some kt" "tV t = Some vt"
    "wfT bv env kt" "wfT bv env vt" "keyOK kt" "elemOK vt" "tTag vt = T_binary \<Longrightarrow> tT kt = tSTRUCT"
    "tAppendFunc t = AppendMap (mkind_of (tT kt)) (mkind_of (tT vt))" by metis
  have "tTag vt = T_binary \<longrightarrow> tT vt = tSTRING"
    using kv(4) by (cases vt) (auto split: if_splits)
  with kv have "mapType t kt vt"
    using wfT_simple_sel [OF kv(3)] wfT_simple_sel [OF kv(4)] wfT_valueTypes [OF kv(4)]
    by (simp add: mapType_def)
  then show thesis using kv(7) by (blast intro: that)
qed

lemma mapType_run:
  "mapType t kt vt \<Longrightarrow> runAppend (Suc n) env t b p =
     mapFast (mkind_of (tT kt)) (mkind_of (tT vt)) (runAppend n env) t b p"
  by (simp add: mapType_def)

lemma mapType_scalar:
  assumes "mapType t kt vt"
  shows "simpleTypes (tT kt) \<Longrightarrow> scalar_elem kt"
    and "simpleTypes (tT vt) \<Longrightarrow> tTag vt \<noteq> T_binary \<Longrightarrow> scalar_elem vt"
  using assms by (auto simp: mapType_def scalar_elem_def keyOK_def elemOK_def simpleTypes_def split: if_splits)

text \<open>For these the function \<^verbatim>\<open>newTType\<close> installs is the generic loop, but for binaries by scalars.\<close>

lemma mapType_generic:
  assumes t: "mapType t kt vt" and bin: "tTag vt = T_binary \<Longrightarrow> \<not> simpleTypes (tT kt)"
    and entries: "\<And>cnt kvs k v. simpleTypes (tT kt) \<Longrightarrow> simpleTypes (tT vt) \<Longrightarrow>
      ldMap p = Ok (cnt, kvs) \<Longrightarrow> (k, v) \<in> set kvs \<Longrightarrow>
      confSimple True kt k \<and> confSimple True vt v"
  shows "runAppend (Suc n) env t b p = appendMapAnyAny (runAppend n env) t b p"
proof -
  note run = mapType_run [OF t] and scalar = mapType_scalar [OF t]
  note t = t [unfolded mapType_def]
  show ?thesis
  proof (cases "simpleTypes (tT kt)")
    case ksim: True
    then have ks: "scalar_elem kt" and np: "\<not> tIsPointer kt" "tSimpleType kt = simpleTypes (tT kt)"
      using scalar by (simp_all add: scalar_elem_def)
    show ?thesis
    proof (cases "simpleTypes (tT vt)")
      case vsim: True
      then have "scalar_elem vt" using bin ksim scalar by blast
      then show ?thesis
        unfolding run using t
        by (intro mapFast_scalar [OF _ _ ks _ ksim vsim] entries [OF ksim vsim]) simp_all
    next
      case False
      with mapFast_key_other [of t kt vt, OF _ _ np ksim] t show ?thesis unfolding run by simp
    qed
  next
    case False
    with mapFast_other_val [of t kt vt] t show ?thesis unfolding run by simp
  qed
qed

lemma mapFast_generic:
  assumes wf: "wfT bv env t" "tT t = tMAP"
    and entries: "\<And>kt vt cnt kvs k v. tK t = Some kt \<Longrightarrow> tV t = Some vt \<Longrightarrow>
      simpleTypes (tT kt) \<Longrightarrow> simpleTypes (tT vt) \<Longrightarrow>
      ldMap p = Ok (cnt, kvs) \<Longrightarrow> (k, v) \<in> set kvs \<Longrightarrow>
      confSimple True kt k \<and> confSimple True vt v"
  shows "runAppend (Suc n) env t b p = appendMapAnyAny (runAppend n env) t b p"
proof -
  obtain kt vt where t: "mapType t kt vt" and bin: "tTag vt = T_binary \<longrightarrow> tT kt = tSTRUCT"
    by (rule wfT_mapType [OF wf])
  have kv: "tK t = Some kt" "tV t = Some vt" using t by (simp_all add: mapType_def)
  have "tTag vt = T_binary \<Longrightarrow> \<not> simpleTypes (tT kt)" using bin by (simp add: simpleTypes_def)
  from mapType_generic [OF t this entries [OF kv]] show ?thesis .
qed

text \<open>
  A map from a scalar to a \<^verbatim>\<open>binary\<close> gets a function that ranges over it as over a
  \<^verbatim>\<open>map[K]string\<close>: the first value it reads is not a \<^verbatim>\<open>string\<close>.
\<close>

definition visible :: "ptr \<Rightarrow> bool" where
  "visible p \<longleftrightarrow> (case ldMap p of Ok (cnt, kvs) \<Rightarrow> (of_nat cnt :: 32 word) \<noteq> 0 \<and> kvs \<noteq> [] | Panic e \<Rightarrow> False)"

lemma rangeMap_binary:
  assumes "tK t = Some kt" "tV t = Some vt" "typed_writer call kt kr kp"
    and entries: "\<And>cnt kvs k v. ldMap p = Ok (cnt, kvs) \<Longrightarrow> (k, v) \<in> set kvs \<Longrightarrow>
      confSimple True kt k \<and> asString v = Panic BadMemory"
  shows "rangeMap kr asString body t b p =
    (if visible p then APanic BadMemory else appendMapAnyAny call t b p)"
proof (cases "ldIsNil p")
  case (Ok z)
  show ?thesis
  proof (cases "ldMap p")
    case ld: (Ok m)
    obtain cnt kvs where m: "m = (cnt, kvs)" by (cases m)
    show ?thesis
    proof (cases kvs)
      case (Cons kv kvs')
      obtain k v where kv: "kv = (k, v)" by (cases kv)
      from entries [OF ld [unfolded m], of k v] have "confSimple True kt k" "asString v = Panic BadMemory"
        by (simp_all add: Cons kv)
      moreover from this assms(3) obtain x where "kr k = Ok x" by (auto simp: typed_writer_def)
      moreover have "z \<Longrightarrow> cnt = 0 \<and> kvs = []"
        using Ok ld m by (cases p rule: ldIsNil.cases) (auto simp: m)
      ultimately show ?thesis
        using assms(1,2) ld Ok m
        by (cases z) (auto simp: visible_def rangeMap_def appendMapAnyAny_def iterMap_def appendMapHeader_def
            Let_def Cons kv)
    qed (use assms(1,2) ld Ok m in \<open>simp add: visible_def rangeMap_def appendMapAnyAny_def iterMap_def
        appendMapHeader_def Let_def\<close>)
  qed (use assms(1,2) Ok in \<open>simp add: visible_def rangeMap_def appendMapAnyAny_def iterMap_def
        appendMapHeader_def Let_def\<close>)
qed (auto simp: visible_def rangeMap_def appendMapAnyAny_def iterMap_def appendMapHeader_def
      split: go.splits elim: ldIsNil.elims)

lemma mapType_binary:
  assumes t: "mapType t kt vt" and bin: "tTag vt = T_binary" and k: "simpleTypes (tT kt)"
    and entries: "\<And>cnt kvs k v. ldMap p = Ok (cnt, kvs) \<Longrightarrow> (k, v) \<in> set kvs \<Longrightarrow>
      confSimple True kt k \<and> confSimple True vt v"
  shows "runAppend (Suc n) env t b p =
    (if visible p then APanic BadMemory else appendMapAnyAny (runAppend n env) t b p)"
proof -
  have V: "tK t = Some kt" "tV t = Some vt" "tT vt = tSTRING" using t bin by (simp_all add: mapType_def)
  then have vk: "mkind_of (tT vt) = mSTRING" by (simp add: mkind_of_def)
  have "asString v = Panic BadMemory" if "confSimple True vt v" for v
    using that V(3) bin by (cases v) (simp_all add: confSimple_def)
  with entries have e: "\<And>cnt kvs k v. ldMap p = Ok (cnt, kvs) \<Longrightarrow> (k, v) \<in> set kvs \<Longrightarrow>
      confSimple True kt k \<and> asString v = Panic BadMemory" by blast
  show ?thesis
    unfolding mapType_run [OF t] vk
    by (rule scalar_kind_cases [OF mapType_scalar(1) [OF t k] k, of "runAppend n env"];
        simp only: mapFast.simps appendMap_scalar_defs;
        rule rangeMap_binary [OF V(1,2) _ e]; assumption)
qed

text \<open>The same for a list.\<close>

lemma listFn_run:
  assumes "tAppendFunc t = listFn_of T"
  shows "runAppend (Suc n) env t b p = listFn (listFn_of T) (runAppend n env) t b p"
  using assms by (simp add: listFn_of_def)

lemma listRun_generic:
  assumes wf: "wfT bv env t" "tT t = tLIST \<or> tT t = tSET"
  shows "runAppend (Suc n) env t b p = appendListAny (runAppend n env) t b p"
proof -
  from wfT_list [OF wf] obtain et where et: "tV t = Some et" "wfT bv env et" "elemOK et"
    "tAppendFunc t = listFn_of (tT et)" by metis
  show ?thesis
    unfolding listFn_run [OF et(4)]
    by (rule listFn_generic [OF et(1) wfT_simple_sel [OF et(2)] et(3) wfT_valueTypes [OF et(2)]])
qed

end
