(* ===== verification/WireSpec.thy ===== *)
theory WireSpec
  imports Conform
begin

text \<open>
  The abstract specification of the codec: the Thrift binary encoding of a value, as a
  function of its type and the value, with no buffers, pointers or specialised paths. It is
  partial (\<open>None\<close> where the value does not fit the type) and indexed by the nesting depth like
  \<open>conf\<close>. \<open>EncodeCorrect\<close> shows that the encoder refines it, \<open>SizeCorrect\<close> that the size
  computation gives its length, \<open>RoundTrip\<close> that the decoder inverts it.
\<close>

subsection \<open>Integers\<close>

text \<open>The \<open>k\<close> low bytes of a number, the most significant one first.\<close>

definition bigEndian :: "nat \<Rightarrow> nat \<Rightarrow> bytes" where
  "bigEndian k n = map (\<lambda>i. of_nat (n div 256 ^ (k - 1 - i))) [0..<k]"

definition wire32 :: "nat \<Rightarrow> bytes" where
  "wire32 n = bigEndian 4 n"

lemma length_wire32 [simp]: "length (wire32 n) = 4"
  by (simp add: wire32_def bigEndian_def)

text \<open>The code's shifts and conversions give these bytes.\<close>

lemma byte_div: "(ucast (drop_bit n v) :: byte) = of_nat (unat v div 2 ^ n)"
  by (metis of_nat_unat unat_drop_bit_eq drop_bit_eq_div)

lemma upt_4_8: "[0..<2] = [0, 1]" "[0..<4] = [0, 1, 2, 3]" "[0..<8] = [0, 1, 2, 3, 4, 5, 6, 7]"
  by (simp_all add: upt_rec)

lemma bigEndian_16: "bigEndian 2 (unat w) = appendUint16 [] w"
  by (simp add: bigEndian_def appendUint16_def upt_4_8 byte_div)

lemma bigEndian_32: "bigEndian 4 (unat w) = appendUint32 [] w"
  by (simp add: bigEndian_def appendUint32_def upt_4_8 byte_div)

lemma bigEndian_64: "bigEndian 8 (unat w) = appendUint64 [] w"
  by (simp add: bigEndian_def appendUint64_def upt_4_8 byte_div)

lemma byte_narrow:
  "n + 8 \<le> 32 \<Longrightarrow> (ucast (drop_bit n (ucast (w :: 64 word) :: 32 word)) :: byte) = ucast (drop_bit n w)"
  by (rule bit_word_eqI) (auto simp: bit_simps)

lemma bigEndian_enum: "bigEndian 4 (unat w) = appendUint32 [] (ucast (w :: 64 word))"
  using byte_narrow [of 0 w] byte_narrow [of 8 w] byte_narrow [of 16 w] byte_narrow [of 24 w]
  by (simp add: bigEndian_def appendUint32_def upt_4_8 byte_div)

lemma byte_of_nat:
  "k + 8 \<le> 32 \<Longrightarrow> (ucast (drop_bit k (of_nat n :: 32 word)) :: byte) = of_nat (n div 2 ^ k)"
  by (rule bit_word_eqI) (auto simp: bit_simps simp flip: drop_bit_eq_div)

lemma wire32_eq: "wire32 n = appendUint32 [] (of_nat n)"
  using byte_of_nat [of 0 n] byte_of_nat [of 8 n] byte_of_nat [of 16 n] byte_of_nat [of 24 n]
  by (simp add: wire32_def bigEndian_def appendUint32_def upt_4_8)

subsection \<open>Values\<close>

definition specSimple :: "tType \<Rightarrow> gval \<Rightarrow> bytes option" where
  "specSimple t v =
     (case v of
        VByte w \<Rightarrow> Some [w]
      | VI16 w \<Rightarrow> Some (bigEndian 2 (unat w))
      | VI32 w \<Rightarrow> Some (bigEndian 4 (unat w))
      | VI64 w \<Rightarrow> Some (bigEndian (if tT t = tENUM then 4 else 8) (unat w))
      | VString s \<Rightarrow> Some (wire32 (length s) @ s)
      | VBytes q \<Rightarrow> (let s = (case q of Some s \<Rightarrow> s | None \<Rightarrow> []) in Some (wire32 (length s) @ s))
      | _ \<Rightarrow> None)"

text \<open>A field: nothing when it is skipped, else its header and its value.\<close>

definition specField ::
  "(tType \<Rightarrow> gval \<Rightarrow> bytes option) \<Rightarrow> (nat \<times> gval) list \<Rightarrow> tField \<Rightarrow> bytes option" where
  "specField sv cs f =
     (case map_of cs (fOffset f) of
        None \<Rightarrow> None
      | Some v \<Rightarrow>
          (case field_skipped f (Some v) of
             Panic e \<Rightarrow> None
           | Ok s \<Rightarrow> if s then Some []
                     else map_option (\<lambda>bs. tWT (fType f) # bigEndian 2 (unat (fID f)) @ bs) (sv (fType f) v)))"

text \<open>In terms of the code's helpers.\<close>

lemma specSimple_eq:
  "specSimple t v =
     (case v of
        VByte w \<Rightarrow> Some [w]
      | VI16 w \<Rightarrow> Some (appendUint16 [] w)
      | VI32 w \<Rightarrow> Some (appendUint32 [] w)
      | VI64 w \<Rightarrow> Some (if tT t = tENUM then appendUint32 [] (ucast w) else appendUint64 [] w)
      | VString s \<Rightarrow> Some (wire32 (length s) @ s)
      | VBytes q \<Rightarrow> (let s = (case q of Some s \<Rightarrow> s | None \<Rightarrow> []) in Some (wire32 (length s) @ s))
      | _ \<Rightarrow> None)"
  by (simp add: specSimple_def bigEndian_16 bigEndian_32 bigEndian_64 bigEndian_enum split: gval.split)

lemma specField_eq:
  "specField sv cs f =
     (case map_of cs (fOffset f) of
        None \<Rightarrow> None
      | Some v \<Rightarrow>
          (case field_skipped f (Some v) of
             Panic e \<Rightarrow> None
           | Ok s \<Rightarrow> if s then Some []
                     else map_option (\<lambda>bs. appendFieldHeader f [] @ bs) (sv (fType f) v)))"
  unfolding specField_def bigEndian_16 appendFieldHeader_def appendUint16_def append_Nil append_Cons
  by (simp cong: option.case_cong)

definition specUnknown :: "structDesc \<Rightarrow> (nat \<times> gval) list \<Rightarrow> bytes" where
  "specUnknown sd cs =
     (if hasUnknownFields sd then
        (case map_of cs (unknownFieldsOffset sd) of Some (VBytes (Some s)) \<Rightarrow> s | _ \<Rightarrow> [])
      else [])"

definition specStruct ::
  "(tType \<Rightarrow> gval \<Rightarrow> bytes option) \<Rightarrow> structDesc \<Rightarrow> (nat \<times> gval) list \<Rightarrow> bytes option" where
  "specStruct sv sd cs =
     map_option (\<lambda>bss. concat bss @ specUnknown sd cs @ [tSTOP])
       (those (map (specField sv cs) (sd_fields sd)))"

definition specPair ::
  "(tType \<Rightarrow> gval \<Rightarrow> bytes option) \<Rightarrow> tType \<Rightarrow> tType \<Rightarrow> gval \<times> gval \<Rightarrow> bytes option" where
  "specPair sv kt vt kv =
     (case sv kt (fst kv) of None \<Rightarrow> None
      | Some kb \<Rightarrow> map_option (\<lambda>vb. kb @ vb) (sv vt (snd kv)))"

fun specV :: "env \<Rightarrow> nat \<Rightarrow> tType \<Rightarrow> gval \<Rightarrow> bytes option" where
  "specV env 0 t v = None"
| "specV env (Suc n) t v =
     (let body = (\<lambda>w.
        if simpleTypes (tT t) then specSimple t w
        else if tT t = tLIST \<or> tT t = tSET then
          (case (tV t, w) of
             (Some et, VSlice q) \<Rightarrow>
               (let vs = (case q of Some vs \<Rightarrow> vs | None \<Rightarrow> [])
                in map_option (\<lambda>bss. tWT et # wire32 (length vs) @ concat bss)
                     (those (map (\<lambda>x. specV env n et x) vs)))
           | _ \<Rightarrow> None)
        else if tT t = tMAP then
          (case (tK t, tV t, w) of
             (Some kt, Some vt, VMap q) \<Rightarrow>
               (let kvs = (case q of Some m \<Rightarrow> snd m | None \<Rightarrow> [])
                in map_option (\<lambda>bss. tWT kt # tWT vt # wire32 (length kvs) @ concat bss)
                     (those (map (specPair (\<lambda>t x. specV env n t x) kt vt) kvs)))
           | _ \<Rightarrow> None)
        else if tT t = tSTRUCT then
          (case (Sd env t, w) of
             (Ok sd, VStruct cs) \<Rightarrow> specStruct (\<lambda>t x. specV env n t x) sd cs
           | _ \<Rightarrow> None)
        else None)
      in if tIsPointer t
         then (case v of
                 VPtr None \<Rightarrow> if tT t = tSTRUCT then Some [tSTOP] else None
               | VPtr (Some w) \<Rightarrow> body w
               | _ \<Rightarrow> None)
         else body v)"

lemma those_map_Some:
  "(\<And>x. x \<in> set xs \<Longrightarrow> f x = Some (E x)) \<Longrightarrow> those (map f xs) = Some (map E xs)"
  by (induction xs) auto

lemma those_Some_nth:
  "those (map f xs) = Some ys \<Longrightarrow>
   length ys = length xs \<and> (\<forall>j<length xs. f (xs ! j) = Some (ys ! j))"
proof (induction xs arbitrary: ys)
  case (Cons x xs)
  then obtain y zs where "f x = Some y" "those (map f xs) = Some zs" "ys = y # zs"
    by (auto split: option.splits)
  with Cons.IH show ?case by (auto simp: nth_Cons split: nat.split)
qed simp

text \<open>
  One level of a conforming value: what \<open>conf\<close> says of it, by the kind of its type.
\<close>

lemma conf_cases [consumes 2]:
  assumes "conf s env (Suc n) t v" "wfT bv env t"
  obtains
    (nilStruct) "tIsPointer t" "tT t = tSTRUCT" "v = VPtr None" |
    (simple) w where "simpleTypes (tT t)" "v = (if tIsPointer t then VPtr (Some w) else w)"
      "confSimple s t w" |
    (list) et q where "tT t = tLIST \<or> tT t = tSET" "tV t = Some et" "v = VSlice q"
      "\<not> tIsPointer t"
      "\<And>vs. q = Some vs \<Longrightarrow> (s \<longrightarrow> length vs < 2 ^ 32) \<and> (\<forall>x\<in>set vs. conf s env n et x)" |
    (map) kt vt q where "tT t = tMAP" "tK t = Some kt" "tV t = Some vt" "v = VMap q"
      "\<not> tIsPointer t"
      "\<And>c kvs. q = Some (c, kvs) \<Longrightarrow> (s \<longrightarrow> c = length kvs \<and> c < 2 ^ 32) \<and>
         (\<forall>kv\<in>set kvs. conf s env n kt (fst kv) \<and> conf s env n vt (snd kv))" |
    (struct) sd cs where "tT t = tSTRUCT" "Sd env t = Ok sd"
      "v = (if tIsPointer t then VPtr (Some (VStruct cs)) else VStruct cs)"
      "confFields (conf s env n) sd cs"
proof -
  have tv: "tT t \<in> set valueTypes" using assms(2) by (rule wfT_valueTypes)
  consider (n) "tIsPointer t" "tT t = tSTRUCT" "v = VPtr None" | (s) "simpleTypes (tT t)" |
    (l) "tT t = tLIST \<or> tT t = tSET" | (m) "tT t = tMAP" |
    (st) "tT t = tSTRUCT" "\<not> (tIsPointer t \<and> v = VPtr None)"
    using tv by (auto simp: valueTypes_def simpleTypes_def)
  then show thesis
  proof cases
    case n then show thesis by (rule nilStruct)
  next
    case s
    then have "tT t \<noteq> tSTRUCT" by (auto simp: simpleTypes_def)
    with s assms(1) show thesis
      by (cases "tIsPointer t")
         (auto intro!: simple split: gval.splits option.splits)
  next
    case l
    then have np: "\<not> tIsPointer t" and ns: "\<not> simpleTypes (tT t)"
      using wfT_isp [OF assms(2)] by (auto simp: simpleTypes_def)
    from wfT_list [OF assms(2) l] obtain et where et: "tV t = Some et" by metis
    from assms(1) np ns l et obtain q where "v = VSlice q"
      "\<And>vs. q = Some vs \<Longrightarrow> (s \<longrightarrow> length vs < 2 ^ 32) \<and> (\<forall>x\<in>set vs. conf s env n et x)"
      by (auto split: gval.splits option.splits)
    then show thesis using list l et np by blast
  next
    case m
    then have np: "\<not> tIsPointer t" and ns: "\<not> simpleTypes (tT t)"
      using wfT_isp [OF assms(2)] by (auto simp: simpleTypes_def)
    from wfT_map [OF assms(2) m] obtain kt vt where kv: "tK t = Some kt" "tV t = Some vt" by metis
    from assms(1) np ns m kv obtain q where "v = VMap q"
      "\<And>c kvs. q = Some (c, kvs) \<Longrightarrow> (s \<longrightarrow> c = length kvs \<and> c < 2 ^ 32) \<and>
         (\<forall>kv\<in>set kvs. conf s env n kt (fst kv) \<and> conf s env n vt (snd kv))"
      by (auto split: gval.splits option.splits)
    then show thesis using map m kv np by blast
  next
    case st
    then have ns: "\<not> simpleTypes (tT t)" by (auto simp: simpleTypes_def)
    have body: "\<exists>sd cs. Sd env t = Ok sd \<and> w = VStruct cs \<and> confFields (conf s env n) sd cs"
      if "case (Sd env t, w) of (Ok sd, VStruct cs) \<Rightarrow> confFields (conf s env n) sd cs | _ \<Rightarrow> False"
      for w
      using that by (cases "Sd env t"; cases w) auto
    note c = assms(1) [unfolded conf.simps Let_def] and T = ns [unfolded st(1)] st(1)
    have "\<exists>w sd cs. v = (if tIsPointer t then VPtr (Some w) else w) \<and> Sd env t = Ok sd \<and>
        w = VStruct cs \<and> confFields (conf s env n) sd cs"
    proof (cases "tIsPointer t")
      case True
      with c st(2) obtain w where v: "v = VPtr (Some w)"
        by (cases v) (auto split: option.splits)
      with c True T body [of w] show ?thesis by simp
    next
      case False
      with c T body [of v] show ?thesis by simp
    qed
    then show thesis using struct st(1) by (auto split: if_splits)
  qed
qed

text \<open>The specification one level down, for the composed types.\<close>

lemma not_simple_tags: "tT t = tLIST \<or> tT t = tSET \<or> tT t = tMAP \<or> tT t = tSTRUCT \<Longrightarrow> \<not> simpleTypes (tT t)"
  by (auto simp: simpleTypes_def)

lemma spec_list:
  assumes "tT t = tLIST \<or> tT t = tSET" "tV t = Some et" "\<not> tIsPointer t"
    and "\<And>x. x \<in> set (case q of Some vs \<Rightarrow> vs | None \<Rightarrow> []) \<Longrightarrow> specV env n et x = Some (E x)"
  shows "specV env (Suc n) t (VSlice q) =
    (let vs = (case q of Some vs \<Rightarrow> vs | None \<Rightarrow> [])
     in Some (tWT et # wire32 (length vs) @ concat (map E vs)))"
proof -
  have "those (map (specV env n et) (case q of Some vs \<Rightarrow> vs | None \<Rightarrow> [])) =
      Some (map E (case q of Some vs \<Rightarrow> vs | None \<Rightarrow> []))"
    by (rule those_map_Some) (rule assms(4))
  then show ?thesis using assms(1-3) not_simple_tags [of t] by (auto simp: Let_def)
qed

lemma spec_map:
  assumes "tT t = tMAP" "tK t = Some kt" "tV t = Some vt" "\<not> tIsPointer t"
    and "\<And>x. x \<in> set (case q of Some m \<Rightarrow> snd m | None \<Rightarrow> []) \<Longrightarrow>
      specPair (specV env n) kt vt x = Some (E x)"
  shows "specV env (Suc n) t (VMap q) =
    (let kvs = (case q of Some m \<Rightarrow> snd m | None \<Rightarrow> [])
     in Some (tWT kt # tWT vt # wire32 (length kvs) @ concat (map E kvs)))"
proof -
  have "those (map (specPair (specV env n) kt vt) (case q of Some m \<Rightarrow> snd m | None \<Rightarrow> [])) =
      Some (map E (case q of Some m \<Rightarrow> snd m | None \<Rightarrow> []))"
    by (rule those_map_Some) (rule assms(5))
  then show ?thesis using assms(1-4) not_simple_tags [of t] by (simp add: Let_def)
qed

lemma spec_struct:
  assumes "tT t = tSTRUCT" "Sd env t = Ok sd"
  shows "specV env (Suc n) t (if tIsPointer t then VPtr (Some (VStruct cs)) else VStruct cs) =
    specStruct (specV env n) sd cs"
  using assms not_simple_tags [of t] by (simp add: Let_def)

lemma spec_fields:
  assumes "\<And>f. f \<in> set (sd_fields sd) \<Longrightarrow> specField sv cs f = Some (E f)"
  shows "specStruct sv sd cs = Some (concat (map E (sd_fields sd)) @ specUnknown sd cs @ [tSTOP])"
  using assms by (simp add: specStruct_def those_map_Some)

end
