(* ===== verification/EncodeCorrect.thy ===== *)
theory EncodeCorrect
  imports FastPaths WireSpec
begin

text \<open>
  The encoder refines the specification: on a value that conforms to its type, with a call
  depth no smaller than the nesting of the value, it appends exactly the specified bytes and
  returns no error and no panic.
\<close>

subsection \<open>The loops\<close>

lemma listLoop_append:
  assumes "\<And>x b. x \<in> set vs \<Longrightarrow> body b (Some x) = AOk (b @ E x)"
  shows "listLoop body vs (length vs) b = AOk (b @ concat (map E vs))"
  using assms by (induction vs arbitrary: b) auto

lemma iterLoop_append:
  assumes "\<And>k v b. (k, v) \<in> set kvs \<Longrightarrow> body b (Some k) (Some v) = AOk (b @ E (k, v))"
  shows "iterLoop body kvs (of_nat (length kvs)) b = AOk (b @ concat (map E kvs))"
  using assms by (induction kvs arbitrary: b) (auto simp: checkMapN_def)

lemma appendFields_append:
  assumes "\<And>f b. f \<in> set fs \<Longrightarrow> appendField call rt base f b = AOk (b @ E f)"
  shows "appendFields call rt base fs b = AOk (b @ concat (map E fs))"
  using assms by (induction fs arbitrary: b) auto

lemma iterLoop_count:
  assumes "\<And>k v b. (k, v) \<in> set kvs \<Longrightarrow> \<exists>b'. body b (Some k) (Some v) = AOk b'"
  shows "\<exists>b'. iterLoop body kvs n b =
    (if n = of_nat (length kvs) then AOk b' else AErr b' MapSizeChanged)"
  using assms
proof (induction kvs arbitrary: n b)
  case Nil
  then show ?case by (simp add: checkMapN_def)
next
  case (Cons kv kvs)
  obtain k v where kv: "kv = (k, v)" by (cases kv)
  from Cons.prems [of k v b] obtain b1 where "body b (Some k) (Some v) = AOk b1" by (auto simp: kv)
  moreover obtain b' where "iterLoop body kvs (n - 1) b1 =
      (if n - 1 = of_nat (length kvs) then AOk b' else AErr b' MapSizeChanged)"
    using Cons.IH [of "n - 1" b1] Cons.prems by auto
  moreover have "n - 1 = of_nat (length kvs) \<longleftrightarrow> n = 1 + of_nat (length kvs)"
    by (auto simp: algebra_simps)
  ultimately show ?case by (auto simp: kv)
qed

subsection \<open>Scalars\<close>

lemma appendSimple_spec:
  assumes "confSimple s t w" "simpleTypes (tT t)"
  shows "\<exists>bs. specSimple t w = Some bs \<and> (\<forall>b. appendSimple t b (Some w) = AOk (b @ bs))"
  using assms
  by (auto simp: confSimple_def specSimple_eq appendSimple_def simpleTypes_def appendByte_def
      appendUint16_def appendUint32_def appendUint64_def appendString_def appendEnum_def wire32_eq
      split: gval.splits if_splits option.splits)

subsection \<open>Fields\<close>

text \<open>The load that the type calls for succeeds on a conforming cell.\<close>

lemma confSimple_loads:
  assumes "confSimple True t w"
  shows "tT t = tBOOL \<Longrightarrow> \<exists>x. ldBool (Some w) = Ok x"
    and "tT t = tBYTE \<Longrightarrow> \<exists>x. ld8 (Some w) = Ok x"
    and "tT t = tI16 \<Longrightarrow> \<exists>x. ld16 (Some w) = Ok x"
    and "tT t = tI32 \<Longrightarrow> \<exists>x. ld32 (Some w) = Ok x"
    and "tT t = tI64 \<or> tT t = tDOUBLE \<or> tT t = tENUM \<Longrightarrow> \<exists>x. ld64 (Some w) = Ok x"
    and "tT t = tSTRING \<Longrightarrow> \<exists>x. ldString (Some w) = Ok x"
  using assms
  by (cases w; force simp: confSimple_def ldBool_def split: if_splits option.splits)+

lemma ld_eq_Ok:
  "\<exists>x. ld p = Ok x \<Longrightarrow> \<exists>x. ld q = Ok x \<Longrightarrow> \<exists>e. ld_eq ld eq p q = Ok e"
  by (auto simp: ld_eq_def)

lemma tType_Equal_Ok:
  assumes "simpleTypes (tT t) \<Longrightarrow> confSimple True t d \<and> confSimple True t v"
  shows "\<exists>e. tType_Equal t (Some d) (Some v) = Ok e"
proof (cases "simpleTypes (tT t)")
  case True
  with assms have d: "confSimple True t d" and v: "confSimple True t v" by blast+
  from True show ?thesis
    unfolding tType_Equal_def
    by (auto intro!: ld_eq_Ok confSimple_loads [OF d] confSimple_loads [OF v])
qed (auto simp: simpleTypes_def tType_Equal_def)

lemma conf_simple_np:
  "conf s env n t v \<Longrightarrow> \<not> tIsPointer t \<Longrightarrow> simpleTypes (tT t) \<Longrightarrow> confSimple s t v"
  by (cases n) auto

lemma ldIsNil_Ok:
  assumes "conf s env n t v \<or> v = VPtr None"
    and "tIsPointer t \<or> tTag t = T_binary \<or> containerTypes (tT t)" and "wfT bv env t"
  shows "\<exists>z. ldIsNil (Some v) = Ok z"
proof (cases "v = VPtr None")
  case False
  with assms(1) obtain m where "conf s env (Suc m) t v" by (cases n) auto
  from this assms(3) show ?thesis
  proof (cases rule: conf_cases)
    case (simple w)
    show ?thesis
    proof (cases "tIsPointer t")
      case False
      with assms(2) simple(1) have "tTag t = T_binary"
        by (auto simp: containerTypes_def simpleTypes_def)
      with assms(3) have "tT t = tSTRING" using simple(1) by (cases t) auto
      with simple False \<open>tTag t = T_binary\<close> show ?thesis
        by (auto simp: confSimple_def split: gval.splits)
    qed (use simple in auto)
  next
    case (struct sd cs)
    have "tIsPointer t"
      using assms(2,3) struct(1) by (cases t) (auto simp: containerTypes_def simpleTypes_def)
    with struct show ?thesis by auto
  qed auto
qed auto

lemma field_skipped_Ok:
  assumes "wfField bv env f" "(fCanSkipEncodeIfNil f \<and> v = VPtr None) \<or> conf True env n (fType f) v"
  shows "\<exists>s. field_skipped f (Some v) = Ok s \<and> (\<not> s \<longrightarrow> conf True env n (fType f) v)"
proof -
  have wf: "wfT bv env (fType f)" using assms(1) by (simp add: wfField_def)
  have nil: "\<exists>z. (if fCanSkipEncodeIfNil f then ldIsNil (Some v) else Ok False) = Ok z"
    using ldIsNil_Ok [of True env n "fType f" v bv] assms wf by (auto simp: wfField_def)
  show ?thesis
  proof (cases "fCanSkipEncodeIfNil f \<and> ldIsNil (Some v) = Ok True")
    case True
    then show ?thesis by (auto simp: field_skipped_def)
  next
    case False
    with nil have n2: "(if fCanSkipEncodeIfNil f then ldIsNil (Some v) else Ok False) = Ok False"
      by auto
    with assms(2) have c: "conf True env n (fType f) v" by (auto split: if_splits)
    have "\<exists>e. (if fCanSkipIfDefault f then tType_Equal (fType f) (fDefault f) (Some v) else Ok False) = Ok e"
      using assms(1) c tType_Equal_Ok [of "fType f" _ v]
      by (auto simp: wfField_def conf_simple_np split: option.splits)
    with n2 c show ?thesis by (auto simp: field_skipped_def)
  qed
qed

lemma appendField_any:
  assumes "fieldAt base (fOffset f) = Ok p" "field_skipped f p = Ok False"
    and "appendAny call (fType f) (appendFieldHeader f b) p = AOk r"
  shows "appendField call rt base f b = AOk r"
  using assms by (auto simp: appendField_def appendAny_def withFieldErr_def Let_def)

lemma appendFieldHeader_append: "appendFieldHeader f b = b @ appendFieldHeader f []"
  by (simp add: appendFieldHeader_def)

subsection \<open>The refinement\<close>

text \<open>What the induction says of one value.\<close>

definition enc_ok :: "env \<Rightarrow> nat \<Rightarrow> tType \<Rightarrow> gval \<Rightarrow> bool" where
  "enc_ok env n t v \<longleftrightarrow> (\<exists>bs. specV env n t v = Some bs \<and>
     (\<forall>k\<ge>n. \<forall>b. appendAny (runAppend k env) t b (Some v) = AOk (b @ bs)))"

lemma enc_okD:
  assumes "\<And>x. x \<in> A \<Longrightarrow> enc_ok env n t x"
  obtains E where "\<And>x. x \<in> A \<Longrightarrow> specV env n t x = Some (E x)"
    and "\<And>x k b. x \<in> A \<Longrightarrow> n \<le> k \<Longrightarrow> appendAny (runAppend k env) t b (Some x) = AOk (b @ E x)"
  using that [of "\<lambda>x. the (specV env n t x)"] assms by (fastforce simp: enc_ok_def)

lemma list_header:
  "tWT et # wire32 m @ r = [tWT et, ucast (drop_bit 24 (of_nat m :: 32 word)),
     ucast (drop_bit 16 (of_nat m :: 32 word)), ucast (drop_bit 8 (of_nat m :: 32 word)),
     ucast (of_nat m :: 32 word)] @ r"
  by (simp add: wire32_eq appendUint32_def)

lemma wire32_0: "wire32 0 = [0, 0, 0, 0]"
  by (simp add: wire32_eq appendUint32_def)

lemma enc_list:
  assumes wf: "wfT bv env t" and T: "tT t = tLIST \<or> tT t = tSET"
    and et: "tV t = Some et" "\<not> tIsPointer t"
    and q: "\<And>vs. q = Some vs \<Longrightarrow> length vs < 2 ^ 32 \<and> (\<forall>x\<in>set vs. enc_ok env n et x)"
  shows "enc_ok env (Suc n) t (VSlice q)"
proof -
  define vs where "vs = (case q of Some vs \<Rightarrow> vs | None \<Rightarrow> [])"
  have len: "length vs < 2 ^ 32" and ok: "\<And>x. x \<in> set vs \<Longrightarrow> enc_ok env n et x"
    using q by (auto simp: vs_def split: option.splits)
  from enc_okD [OF ok] obtain E where E: "\<And>x. x \<in> set vs \<Longrightarrow> specV env n et x = Some (E x)"
    "\<And>x k b. x \<in> set vs \<Longrightarrow> n \<le> k \<Longrightarrow> appendAny (runAppend k env) et b (Some x) = AOk (b @ E x)"
    by metis
  have ns: "\<not> simpleTypes (tT t)" "\<not> tSimpleType t"
    using T wfT_simple_sel [OF wf] by (auto simp: simpleTypes_def)
  let ?bs = "tWT et # wire32 (length vs) @ concat (map E vs)"
  have "specV env (Suc n) t (VSlice q) = Some ?bs"
    using spec_list [OF T et, of q env n E] E(1) by (simp add: vs_def Let_def del: specV.simps)
  moreover have "appendAny (runAppend k env) t b (Some (VSlice q)) = AOk (b @ ?bs)"
    if "Suc n \<le> k" for k b
  proof -
    from that obtain k' where k: "k = Suc k'" "n \<le> k'" by (cases k) auto
    have "appendAny (runAppend k env) t b (Some (VSlice q)) =
        appendListAny (runAppend k' env) t b (Some (VSlice q))"
      using ns et by (simp add: appendAny_def k(1) listRun_generic [OF wf T] del: runAppend.simps)
    also have "\<dots> = AOk (b @ ?bs)"
    proof (cases q)
      case None
      then show ?thesis
        by (simp add: appendListAny_def appendList_with_def et appendListHeader_def vs_def wire32_0)
    next
      case (Some xs)
      then have xs: "vs = xs" by (simp add: vs_def)
      show ?thesis
        using len E(2) k(2)
        by (simp add: appendListAny_def appendList_with_def et appendListHeader_def Some xs Let_def
            list_header of_nat_word_eq_0_lt listLoop_append unat_of_nat_lt del: append_Cons)
    qed
    finally show ?thesis .
  qed
  ultimately show ?thesis by (auto simp: enc_ok_def)
qed

text \<open>One entry of a map.\<close>

lemma map_header:
  "tWT kt # tWT vt # wire32 m @ r = [tWT kt, tWT vt, ucast (drop_bit 24 (of_nat m :: 32 word)),
     ucast (drop_bit 16 (of_nat m :: 32 word)), ucast (drop_bit 8 (of_nat m :: 32 word)),
     ucast (of_nat m :: 32 word)] @ r"
  by (simp add: wire32_eq appendUint32_def)

lemma enc_pair:
  assumes "tK t = Some kt" "tV t = Some vt" "enc_ok env n kt k" "enc_ok env n vt v"
  shows "\<exists>bs. specPair (specV env n) kt vt (k, v) = Some bs \<and>
    (\<forall>m\<ge>n. \<forall>b. pairBody (appendAny (runAppend m env)) (appendAny (runAppend m env)) t b (Some k) (Some v)
       = AOk (b @ bs))"
  using assms by (auto simp: enc_ok_def specPair_def pairBody_def)

lemma enc_map:
  assumes wf: "wfT bv env t" and T: "tT t = tMAP"
    and kv: "tK t = Some kt" "tV t = Some vt" "\<not> tIsPointer t"
    and q: "\<And>c kvs. q = Some (c, kvs) \<Longrightarrow> c = length kvs \<and> c < 2 ^ 32 \<and>
      (\<forall>kv\<in>set kvs. enc_ok env n kt (fst kv) \<and> enc_ok env n vt (snd kv))"
    and simple: "\<And>c kvs k v. q = Some (c, kvs) \<Longrightarrow> (k, v) \<in> set kvs \<Longrightarrow>
      simpleTypes (tT kt) \<Longrightarrow> simpleTypes (tT vt) \<Longrightarrow> confSimple True kt k \<and> confSimple True vt v"
  shows "enc_ok env (Suc n) t (VMap q)"
proof -
  define kvs where "kvs = (case q of Some m \<Rightarrow> snd m | None \<Rightarrow> [])"
  have len: "length kvs < 2 ^ 32"
    and ok: "\<And>k v. (k, v) \<in> set kvs \<Longrightarrow> enc_ok env n kt k \<and> enc_ok env n vt v"
    using q by (force simp: kvs_def split: option.splits)+
  define E where "E = (\<lambda>x. the (specPair (specV env n) kt vt x))"
  have E: "\<And>x. x \<in> set kvs \<Longrightarrow> specPair (specV env n) kt vt x = Some (E x)"
    "\<And>k v m b. (k, v) \<in> set kvs \<Longrightarrow> n \<le> m \<Longrightarrow>
      pairBody (appendAny (runAppend m env)) (appendAny (runAppend m env)) t b (Some k) (Some v) =
        AOk (b @ E (k, v))"
    using enc_pair [OF kv(1,2)] ok by (fastforce simp: E_def)+
  have ns: "\<not> simpleTypes (tT t)" "\<not> tSimpleType t"
    using T wfT_simple_sel [OF wf] by (auto simp: simpleTypes_def)
  let ?bs = "tWT kt # tWT vt # wire32 (length kvs) @ concat (map E kvs)"
  have "specV env (Suc n) t (VMap q) = Some ?bs"
    using spec_map [OF T kv, of q env n E] E(1) by (simp add: kvs_def Let_def del: specV.simps)
  moreover have "appendAny (runAppend k env) t b (Some (VMap q)) = AOk (b @ ?bs)"
    if "Suc n \<le> k" for k b
  proof -
    from that obtain k' where k: "k = Suc k'" "n \<le> k'" by (cases k) auto
    have "runAppend (Suc k') env t b (Some (VMap q)) =
        appendMapAnyAny (runAppend k' env) t b (Some (VMap q))"
      using simple kv by (intro mapFast_generic [OF wf T]) (auto split: option.splits; cases q; force)
    then have "appendAny (runAppend k env) t b (Some (VMap q)) =
        appendMapAnyAny (runAppend k' env) t b (Some (VMap q))"
      using ns kv by (simp add: appendAny_def k(1) del: runAppend.simps)
    also have "\<dots> = AOk (b @ ?bs)"
    proof (cases q)
      case None
      then show ?thesis
        by (simp add: appendMapAnyAny_def iterMap_def kv appendMapHeader_def kvs_def wire32_0)
    next
      case (Some m)
      with q [of "fst m" "snd m"] have m: "m = (length kvs, kvs)"
        by (cases m) (auto simp: kvs_def)
      have "iterLoop (pairBody (appendAny (runAppend k' env)) (appendAny (runAppend k' env)) t)
          kvs (of_nat (length kvs)) b' = AOk (b' @ concat (map E kvs))" for b'
        using E(2) k(2) by (intro iterLoop_append) simp
      then show ?thesis
        using len
        by (simp add: appendMapAnyAny_def iterMap_def kv appendMapHeader_def Some m Let_def
            map_header of_nat_word_eq_0_lt del: append_Cons)
    qed
    finally show ?thesis .
  qed
  ultimately show ?thesis by (auto simp: enc_ok_def)
qed

text \<open>One field of a struct.\<close>

lemma enc_field:
  assumes wf: "wfField bv env f"
    and c: "(fCanSkipEncodeIfNil f \<and> v = VPtr None) \<or> conf True env n (fType f) v"
    and at: "map_of cs (fOffset f) = Some v"
    and IH: "conf True env n (fType f) v \<Longrightarrow> enc_ok env n (fType f) v"
  shows "\<exists>bs. specField (specV env n) cs f = Some bs \<and>
    (\<forall>k\<ge>n. \<forall>b. appendField (runAppend k env) rt (Some (VStruct cs)) f b = AOk (b @ bs))"
proof -
  have fa: "fieldAt (Some (VStruct cs)) (fOffset f) = Ok (Some v)" using at by simp
  from field_skipped_Ok [OF wf c] obtain s where s: "field_skipped f (Some v) = Ok s"
    "\<not> s \<Longrightarrow> conf True env n (fType f) v" by blast
  show ?thesis
  proof (cases s)
    case True
    with s fa at show ?thesis by (auto simp: specField_eq appendField_def)
  next
    case False
    with s IH obtain bs where bs: "specV env n (fType f) v = Some bs"
      "\<And>k b. n \<le> k \<Longrightarrow> appendAny (runAppend k env) (fType f) b (Some v) = AOk (b @ bs)"
      by (auto simp: enc_ok_def)
    have "appendField (runAppend k env) rt (Some (VStruct cs)) f b =
        AOk (b @ appendFieldHeader f [] @ bs)" if "n \<le> k" for k b
      using appendField_any [OF fa] False fa s(1) bs(2) [OF that]
        appendFieldHeader_append [of f b]
      by (intro appendField_any [OF fa]) auto
    with s(1) False at bs(1) show ?thesis by (auto simp: specField_eq)
  qed
qed

lemma appendUnknown_spec:
  assumes "confFields c sd cs"
  shows "appendUnknown sd (Some (VStruct cs)) b = AOk (b @ specUnknown sd cs)"
  using assms
  by (cases "map_of cs (unknownFieldsOffset sd)")
     (auto simp: confFields_def appendUnknown_def specUnknown_def split: gval.splits option.splits)

lemma enc_fields:
  assumes sd: "wfSd bv env sd" and c: "confFields (conf True env n) sd cs"
    and IH: "\<And>t v. wfT bv env t \<Longrightarrow> conf True env n t v \<Longrightarrow> enc_ok env n t v"
  shows "\<exists>bs. specStruct (specV env n) sd cs = Some bs \<and>
    (\<forall>k\<ge>n. \<forall>b. appendStruct (runAppend k env) (Ok sd) b (Some (VStruct cs)) = AOk (b @ bs))"
proof -
  have one: "\<exists>bs. specField (specV env n) cs f = Some bs \<and>
      (\<forall>k\<ge>n. \<forall>b. appendField (runAppend k env) (sd_rt sd) (Some (VStruct cs)) f b = AOk (b @ bs))"
    if f: "f \<in> set (sd_fields sd)" for f
  proof -
    from c f obtain v where v: "map_of cs (fOffset f) = Some v"
      "(fCanSkipEncodeIfNil f \<and> v = VPtr None) \<or> conf True env n (fType f) v"
      by (auto simp: confFields_def split: option.splits dest!: bspec)
    from sd f have wf: "wfField bv env f" by (simp add: wfSd_def)
    then have "wfT bv env (fType f)" by (simp add: wfField_def)
    with enc_field [OF wf v(2,1)] IH show ?thesis by blast
  qed
  then obtain E where E: "\<And>f. f \<in> set (sd_fields sd) \<Longrightarrow> specField (specV env n) cs f = Some (E f)"
    "\<And>f k b. f \<in> set (sd_fields sd) \<Longrightarrow> n \<le> k \<Longrightarrow>
       appendField (runAppend k env) (sd_rt sd) (Some (VStruct cs)) f b = AOk (b @ E f)"
    by metis
  have "specStruct (specV env n) sd cs =
      Some (concat (map E (sd_fields sd)) @ specUnknown sd cs @ [tSTOP])"
    by (rule spec_fields) (rule E(1))
  then show ?thesis
    using E(2) by (auto simp: appendStruct_def appendFields_append appendUnknown_spec [OF c])
qed

text \<open>The induction on the depth.\<close>

lemma enc_all:
  assumes env: "wfEnv bv env"
  shows "wfT bv env t \<Longrightarrow> conf True env n t v \<Longrightarrow> enc_ok env n t v"
proof (induction n arbitrary: t v)
  case (Suc n)
  note wf = Suc.prems(1)
  from Suc.prems(2,1) show ?case
  proof (cases rule: conf_cases)
    case nilStruct
    then have "appendAny (runAppend k env) t b (Some v) = AOk (b @ [tSTOP])" if "Suc n \<le> k" for k b
      using that wfT_struct_fn [OF wf] wfT_simple_sel [OF wf]
      by (cases k) (auto simp: appendAny_def appendStruct_def simpleTypes_def)
    then show ?thesis using nilStruct by (simp add: enc_ok_def)
  next
    case (simple w)
    from appendSimple_spec [OF simple(3,1)] wfT_simple_sel [OF wf] simple show ?thesis
      by (auto simp: enc_ok_def appendAny_def)
  next
    case (list et q)
    from wfT_list [OF wf list(1)] list(2) have "wfT bv env et" by auto
    then show ?thesis unfolding list(3)
      using list Suc.IH by (intro enc_list [OF wf]) auto
  next
    case (map kt vt q)
    from wfT_map [OF wf map(1)] map(2,3) have kv: "wfT bv env kt" "wfT bv env vt"
      "keyOK kt" "elemOK vt" by auto
    then have np: "simpleTypes (tT kt) \<Longrightarrow> \<not> tIsPointer kt" "simpleTypes (tT vt) \<Longrightarrow> \<not> tIsPointer vt"
      by (auto simp: keyOK_def elemOK_def simpleTypes_def)
    show ?thesis unfolding map(4)
    proof (rule enc_map [OF wf map(1,2,3,5)])
      fix c kvs assume "q = Some (c, kvs)"
      with map(6) Suc.IH kv show "c = length kvs \<and> c < 2 ^ 32 \<and>
        (\<forall>kv\<in>set kvs. enc_ok env n kt (fst kv) \<and> enc_ok env n vt (snd kv))" by blast
    next
      fix c kvs k v
      assume "q = Some (c, kvs)" "(k, v) \<in> set kvs" "simpleTypes (tT kt)" "simpleTypes (tT vt)"
      with map(6) [of c kvs] np show "confSimple True kt k \<and> confSimple True vt v"
        by (auto intro: conf_simple_np dest!: bspec)
    qed
  next
    case (struct sd cs)
    have ns: "\<not> simpleTypes (tT t)" "\<not> tSimpleType t"
      using struct wfT_simple_sel [OF wf] by (auto simp: simpleTypes_def)
    from enc_fields [OF wfEnv_sd [OF env struct(2)] struct(4)] Suc.IH
    obtain bs where bs: "specStruct (specV env n) sd cs = Some bs"
      "\<And>k b. n \<le> k \<Longrightarrow> appendStruct (runAppend k env) (Ok sd) b (Some (VStruct cs)) = AOk (b @ bs)"
      by blast
    have "specV env (Suc n) t v = Some bs"
      using spec_struct [OF struct(1,2), of n cs] bs(1) by (simp add: struct(3) del: specV.simps)
    moreover have "appendAny (runAppend k env) t b (Some v) = AOk (b @ bs)" if "Suc n \<le> k" for k b
      using that ns struct wfT_struct_fn [OF wf struct(1)] bs(2)
      by (cases k) (auto simp: appendAny_def)
    ultimately show ?thesis by (auto simp: enc_ok_def)
  qed
qed simp

end
