(* ===== verification/EncodedSize.thy ===== *)
theory EncodedSize
  imports AppendCore
begin

text \<open>
  The size computation of \<^verbatim>\<open>internal/reflect/ttype.go\<close>: \<^verbatim>\<open>EncodedSize\<close> of a struct,
  \<^verbatim>\<open>encodedMapSize\<close>, \<^verbatim>\<open>encodedListSize\<close>. The calls through \<^verbatim>\<open>t.EncodedSizeFunc\<close> go through
  the parameter \<open>szf\<close>; the direct call \<^verbatim>\<open>kt.EncodedSize(kp)\<close> through \<open>szs\<close>; \<open>runSize\<close> ties
  both.
\<close>

datatype sres = SOk nat | SErr nat gerr | SPanic panic

text \<open>\<^verbatim>\<open>n, err := f(...); if err != nil { return ret, err }; ret += n\<close>.\<close>

primrec sadd :: "nat \<Rightarrow> sres \<Rightarrow> (nat \<Rightarrow> sres) \<Rightarrow> sres" where
  "sadd ret (SOk n) k = k (ret + n)"
| "sadd ret (SErr n e) k = SErr ret e"
| "sadd ret (SPanic p) k = SPanic p"

primrec sload :: "'a go \<Rightarrow> ('a \<Rightarrow> sres) \<Rightarrow> sres" where
  "sload (Ok x) k = k x"
| "sload (Panic p) k = SPanic p"

definition encodedStringSize :: "ptr \<Rightarrow> nat go" where
  "encodedStringSize p = gobind (ldString p) (\<lambda>s. Ok (strHeaderLen + length s))"

subsection \<open>Structs\<close>

type_synonym sizeFn = "tType \<Rightarrow> ptr \<Rightarrow> sres"

definition sizeVarField :: "sizeFn \<Rightarrow> ptr \<Rightarrow> tField \<Rightarrow> nat \<Rightarrow> (nat \<Rightarrow> sres) \<Rightarrow> sres" where
  "sizeVarField szf base f ret k =
     sload (fieldAt base (fOffset f)) (\<lambda>p.
     sload (field_skipped f p) (\<lambda>s.
       if s then k ret
       else
         let t = fType f
         in if tFixedSize t > 0 then k (ret + (fieldHeaderLen + tFixedSize t))
            else if tT t = tSTRING then
              sload (if tIsPointer t then ldPtr p else Ok p) (\<lambda>p.
              sload (encodedStringSize p) (\<lambda>n. k (ret + (fieldHeaderLen + n))))
            else sadd (ret + fieldHeaderLen) (szf t p) k))"

fun sizeVarFields :: "sizeFn \<Rightarrow> tField list \<Rightarrow> ptr \<Rightarrow> nat list \<Rightarrow> nat \<Rightarrow> (nat \<Rightarrow> sres) \<Rightarrow> sres" where
  "sizeVarFields szf fs base [] ret k = k ret"
| "sizeVarFields szf fs base (i # is) ret k =
     sload (index fs i) (\<lambda>f.
       sizeVarField szf base f ret (\<lambda>ret. sizeVarFields szf fs base is ret k))"

text \<open>
  \<^verbatim>\<open>(t *tType) EncodedSize(base)\<close>. \<open>nested\<close> is \<^verbatim>\<open>t.T != 0\<close>: for a value reached through a
  descriptor, \<open>base\<close> points to a pointer to the struct; the top-level call passes the struct
  pointer itself.
\<close>

definition tType_EncodedSize :: "sizeFn \<Rightarrow> bool \<Rightarrow> structDesc go \<Rightarrow> ptr \<Rightarrow> sres" where
  "tType_EncodedSize szf nested sdp base =
     sload (if nested then ldPtr base else Ok base) (\<lambda>base.
       if base = None then SOk 1
       else sload sdp (\<lambda>sd.
         sizeVarFields szf (sd_fields sd) base (varLenFields sd) (fixedLenFieldSize sd) (\<lambda>ret.
           if hasUnknownFields sd
           then sload (fieldAt base (unknownFieldsOffset sd)) (\<lambda>p. sload (ldBytes p) (\<lambda>xb.
                  SOk (ret + length xb + 1)))
           else SOk (ret + 1))))"

subsection \<open>Maps and lists\<close>

text \<open>The size of one key or value that is not of fixed size.\<close>

definition sizeElem :: "sizeFn \<Rightarrow> tType \<Rightarrow> ptr \<Rightarrow> nat \<Rightarrow> (nat \<Rightarrow> sres) \<Rightarrow> sres" where
  "sizeElem sz t p ret k =
     (if tT t = tSTRING then sload (encodedStringSize p) (\<lambda>n. k (ret + n))
      else sadd ret (sz t p) k)"

fun sizeMapLoop ::
  "sizeFn \<Rightarrow> sizeFn \<Rightarrow> tType \<Rightarrow> tType \<Rightarrow> bool \<Rightarrow> bool \<Rightarrow> (gval \<times> gval) list \<Rightarrow> nat \<Rightarrow> sres" where
  "sizeMapLoop szf szs kt vt doneK doneV [] ret = SOk ret"
| "sizeMapLoop szf szs kt vt doneK doneV ((k, v) # kvs) ret =
     (let valuePart = (\<lambda>ret.
            if doneV then sizeMapLoop szf szs kt vt doneK doneV kvs ret
            else sizeElem szf vt (Some v) ret (sizeMapLoop szf szs kt vt doneK doneV kvs))
      in if doneK then valuePart ret else sizeElem szs kt (Some k) ret valuePart)"

definition encodedMapSize :: "sizeFn \<Rightarrow> sizeFn \<Rightarrow> sizeFn" where
  "encodedMapSize szf szs t p =
     sload (ldIsNil p) (\<lambda>z.
       if z then SOk mapHeaderLen
       else
         sload (tt_deref (tK t)) (\<lambda>kt. sload (tt_deref (tV t)) (\<lambda>vt.
         sload (ldMap p) (\<lambda>(l, kvs).
           if l = 0 then SOk mapHeaderLen
           else
             let doneK = tFixedSize kt > 0;
                 doneV = tFixedSize vt > 0;
                 ret1 = (if doneK then mapHeaderLen + l * tFixedSize kt else mapHeaderLen);
                 ret2 = (if doneV then ret1 + l * tFixedSize vt else ret1)
             in if doneK \<and> doneV then SOk ret2
                else sizeMapLoop szf szs kt vt doneK doneV kvs ret2))))"

fun sizeListLoop :: "sizeFn \<Rightarrow> tType \<Rightarrow> gval list \<Rightarrow> nat \<Rightarrow> sres" where
  "sizeListLoop szf vt [] ret = SOk ret"
| "sizeListLoop szf vt (v # vs) ret =
     sizeElem szf vt (Some v) ret (sizeListLoop szf vt vs)"

definition encodedListSize :: "sizeFn \<Rightarrow> sizeFn" where
  "encodedListSize szf t p =
     sload (ldIsNil p) (\<lambda>z.
       if z then SOk listHeaderLen
       else
         sload (tt_deref (tV t)) (\<lambda>vt. sload (ldSlice p) (\<lambda>vs.
           if tFixedSize vt > 0 then SOk (listHeaderLen + length vs * tFixedSize vt)
           else if length vs = 0 then SOk listHeaderLen
           else sizeListLoop szf vt vs listHeaderLen)))"

subsection \<open>Dispatch\<close>

text \<open>
  \<^verbatim>\<open>t.EncodedSizeFunc(p)\<close>, which \<^verbatim>\<open>newTType\<close> sets by \<^verbatim>\<open>t.T\<close> and leaves nil for the scalars.
\<close>

fun runSize :: "nat \<Rightarrow> env \<Rightarrow> sizeFn" where
  "runSize 0 env t p = SPanic StackOverflow"
| "runSize (Suc k) env t p =
     (let szf = runSize k env;
          szs = (\<lambda>kt kp. tType_EncodedSize szf (tT kt \<noteq> 0) (Sd env kt) kp)
      in if tT t = tMAP then encodedMapSize szf szs t p
         else if tT t = tLIST \<or> tT t = tSET then encodedListSize szf t p
         else if tT t = tSTRUCT then tType_EncodedSize szf (tT t \<noteq> 0) (Sd env t) p
         else SPanic NilDeref)"

end
