(* ===== verification/SizeCorrect.thy ===== *)
theory SizeCorrect
  imports EncodeCorrect EncodedSize
begin

text \<open>
  The size computation gives the length of the encoding: on a conforming value of a type
  without structs by value, \<^verbatim>\<open>EncodedSize\<close> returns the number of bytes the specification
  (and so the encoder) produces. With a struct by value inside it goes wrong, see the
  property about \<open>byvalue_size_panics\<close>.
\<close>

subsection \<open>Sums\<close>

lemma sum_split_filter:
  fixes g s :: "nat \<Rightarrow> nat"
  assumes "\<And>j. j \<in> set js \<Longrightarrow> P j \<Longrightarrow> g j = s j" "\<And>j. j \<in> set js \<Longrightarrow> \<not> P j \<Longrightarrow> s j = 0"
  shows "sum_list (map g js) = sum_list (map s js) + sum_list (map g (filter (\<lambda>j. \<not> P j) js))"
  using assms by (induction js) auto

lemma sum_list_nth: "sum_list (map g xs) = sum_list (map (\<lambda>j. g (xs ! j)) [0..<length xs])"
proof -
  have "map g xs = map (\<lambda>j. g (xs ! j)) [0..<length xs]"
    by (intro nth_equalityI) auto
  then show ?thesis by simp
qed

lemma length_concat_map: "length (concat (map E xs)) = sum_list (map (\<lambda>x. length (E x)) xs)"
  by (simp add: length_concat o_def)

lemma sum_const_length: "(\<And>x. x \<in> set xs \<Longrightarrow> g x = c) \<Longrightarrow> sum_list (map g xs) = length xs * (c :: nat)"
  by (induction xs) auto

subsection \<open>What the induction says of one value\<close>

definition size_ok :: "env \<Rightarrow> nat \<Rightarrow> tType \<Rightarrow> gval \<Rightarrow> bool" where
  "size_ok env n t v \<longleftrightarrow> (\<exists>bs. specV env n t v = Some bs \<and>
     (simpleTypes (tT t) \<longrightarrow>
        (typeToSize (tT t) > 0 \<longrightarrow> length bs = typeToSize (tT t)) \<and>
        (tT t = tSTRING \<longrightarrow>
           gobind (if tIsPointer t then ldPtr (Some v) else Ok (Some v)) encodedStringSize =
             Ok (length bs))) \<and>
     (\<not> simpleTypes (tT t) \<longrightarrow> (\<forall>k\<ge>n. runSize k env t (Some v) = SOk (length bs))))"

lemma size_simple:
  assumes "confSimple True t w" "simpleTypes (tT t)" "specSimple t w = Some bs"
  shows "typeToSize (tT t) > 0 \<Longrightarrow> length bs = typeToSize (tT t)"
    and "tT t = tSTRING \<Longrightarrow> encodedStringSize (Some w) = Ok (length bs)"
  using assms
  by (cases w; force simp: confSimple_def specSimple_eq typeToSize_def simpleTypes_def
      encodedStringSize_def strHeaderLen_def split: if_splits option.splits)+

subsection \<open>Lists\<close>

lemma size_elem:
  assumes ok: "size_ok env n t v" and np: "simpleTypes (tT t) \<Longrightarrow> \<not> tIsPointer t"
    and var: "typeToSize (tT t) = 0"
    and sz: "\<not> simpleTypes (tT t) \<Longrightarrow> sz t (Some v) = runSize m env t (Some v)" "n \<le> m"
    and sp: "specV env n t v = Some bs"
  shows "sizeElem sz t (Some v) ret k = k (ret + length bs)"
proof (cases "simpleTypes (tT t)")
  case True
  with var have "tT t = tSTRING" using typeToSize_pos [of "tT t"] by simp
  with ok np sp True show ?thesis by (simp add: size_ok_def sizeElem_def)
next
  case False
  then have "tT t \<noteq> tSTRING" by (auto simp: simpleTypes_def)
  with ok sp sz False show ?thesis by (simp add: size_ok_def sizeElem_def)
qed

lemma size_list_loop:
  assumes "\<And>x ret k. x \<in> set vs \<Longrightarrow> sizeElem sz t (Some x) ret k = k (ret + length (E x))"
  shows "sizeListLoop sz t vs ret = SOk (ret + length (concat (map E vs)))"
  using assms by (induction vs arbitrary: ret) (auto simp: add.assoc)

lemma size_list:
  assumes wf: "wfT bv env t" and T: "tT t = tLIST \<or> tT t = tSET"
    and et: "tV t = Some et" "\<not> tIsPointer t" "wfT bv env et" "elemOK et"
    and ok: "\<And>vs x. q = Some vs \<Longrightarrow> x \<in> set vs \<Longrightarrow> size_ok env n et x"
  shows "size_ok env (Suc n) t (VSlice q)"
proof -
  define vs where "vs = (case q of Some vs \<Rightarrow> vs | None \<Rightarrow> [])"
  have ok: "\<And>x. x \<in> set vs \<Longrightarrow> size_ok env n et x"
    using ok by (auto simp: vs_def split: option.splits)
  define E where "E = (\<lambda>x. the (specV env n et x))"
  have E: "specV env n et x = Some (E x)" if "x \<in> set vs" for x
    using ok [OF that] by (auto simp: size_ok_def E_def)
  have sp: "specV env (Suc n) t (VSlice q) = Some (tWT et # wire32 (length vs) @ concat (map E vs))"
    using spec_list [OF T et(1,2), of q env n E] E by (simp add: vs_def Let_def del: specV.simps)
  have ns: "\<not> simpleTypes (tT t)" using T not_simple_tags [of t] by blast
  have np: "simpleTypes (tT et) \<Longrightarrow> \<not> tIsPointer et" using et(4) by (auto simp: elemOK_def simpleTypes_def)
  have "encodedListSize (runSize k env) t (Some (VSlice q)) =
      SOk (5 + length (concat (map E vs)))" if "n \<le> k" for k
  proof (cases "q = None")
    case True
    then show ?thesis by (simp add: encodedListSize_def listHeaderLen_def vs_def)
  next
    case False
    then have q: "q = Some vs" by (auto simp: vs_def)
    show ?thesis
    proof (cases "typeToSize (tT et) > 0")
      case True
      then have "length (concat (map E vs)) = length vs * typeToSize (tT et)"
        unfolding length_concat_map
        using ok E typeToSize_pos [of "tT et"]
        by (intro sum_const_length) (fastforce simp: size_ok_def)
      with True q et show ?thesis
        by (simp add: encodedListSize_def listHeaderLen_def wfT_fixed_sel)
    next
      case False
      then have "sizeListLoop (runSize k env) et vs 5 = SOk (5 + length (concat (map E vs)))"
        using ok E that by (intro size_list_loop size_elem [OF _ np]) auto
      with False q et show ?thesis
        by (simp add: encodedListSize_def listHeaderLen_def wfT_fixed_sel)
    qed
  qed
  then have "runSize k env t (Some (VSlice q)) = SOk (5 + length (concat (map E vs)))"
    if "Suc n \<le> k" for k
    using that T by (cases k) auto
  with sp ns show ?thesis by (simp add: size_ok_def del: runSize.simps specV.simps)
qed

subsection \<open>Maps\<close>

lemma size_map_loop:
  assumes "\<And>k v ret f. (k, v) \<in> set kvs \<Longrightarrow> \<not> dk \<Longrightarrow> sizeElem szs kt (Some k) ret f = f (ret + LK k)"
    and "\<And>k v ret f. (k, v) \<in> set kvs \<Longrightarrow> \<not> dv \<Longrightarrow> sizeElem szf vt (Some v) ret f = f (ret + LV v)"
  shows "sizeMapLoop szf szs kt vt dk dv kvs ret = SOk (ret +
    sum_list (map (\<lambda>x. (if dk then 0 else LK (fst x)) + (if dv then 0 else LV (snd x))) kvs))"
  using assms
proof (induction kvs arbitrary: ret)
  case (Cons kv kvs)
  obtain k v where kv: "kv = (k, v)" by (cases kv)
  have IH: "sizeMapLoop szf szs kt vt dk dv kvs ret = SOk (ret +
      sum_list (map (\<lambda>x. (if dk then 0 else LK (fst x)) + (if dv then 0 else LV (snd x))) kvs))" for ret
    using Cons.prems by (intro Cons.IH) (blast intro: list.set_intros)+
  show ?case
    using Cons.prems(1) [of k v] Cons.prems(2) [of k v] IH
    by (cases dk; cases dv) (simp_all add: kv Let_def add.assoc)
qed simp

lemma sum_map_split:
  assumes "\<And>k v. (k, v) \<in> set kvs \<Longrightarrow> dk \<Longrightarrow> LK k = a" "\<And>k v. (k, v) \<in> set kvs \<Longrightarrow> dv \<Longrightarrow> LV v = b"
  shows "sum_list (map (\<lambda>x. LK (fst x) + LV (snd x)) kvs) =
    (if dk then length kvs * a else 0) + (if dv then length kvs * b else 0) +
    sum_list (map (\<lambda>x. (if dk then 0 else LK (fst x)) + (if dv then 0 else (LV (snd x) :: nat))) kvs)"
  using assms
proof (induction kvs)
  case (Cons kv kvs)
  have "?case \<longleftrightarrow> LK (fst kv) + LV (snd kv) = (if dk then a else 0) + (if dv then b else 0) +
      ((if dk then 0 else LK (fst kv)) + (if dv then 0 else LV (snd kv)))"
    using Cons.IH Cons.prems by (force simp: algebra_simps)
  moreover have "dk \<Longrightarrow> LK (fst kv) = a" "dv \<Longrightarrow> LV (snd kv) = b"
    using Cons.prems [of "fst kv" "snd kv"] by auto
  ultimately show ?case by auto
qed simp

lemma size_map:
  assumes wf: "wfT bv env t" and T: "tT t = tMAP"
    and kv: "tK t = Some kt" "tV t = Some vt" "\<not> tIsPointer t" "wfT bv env kt" "wfT bv env vt"
      "keyOK kt" "elemOK vt"
    and ok: "\<And>c kvs k v. q = Some (c, kvs) \<Longrightarrow> (k, v) \<in> set kvs \<Longrightarrow>
      size_ok env n kt k \<and> size_ok env n vt v"
    and cnt: "\<And>c kvs. q = Some (c, kvs) \<Longrightarrow> c = length kvs"
  shows "size_ok env (Suc n) t (VMap q)"
proof -
  define kvs where "kvs = (case q of Some m \<Rightarrow> snd m | None \<Rightarrow> [])"
  have ok: "size_ok env n kt k" "size_ok env n vt v" if "(k, v) \<in> set kvs" for k v
    using ok that by (auto simp: kvs_def split: option.splits)
  define EK where "EK = (\<lambda>x. the (specV env n kt x))"
  define EV where "EV = (\<lambda>x. the (specV env n vt x))"
  have E: "specV env n kt k = Some (EK k)" "specV env n vt v = Some (EV v)"
    if "(k, v) \<in> set kvs" for k v
    using ok [OF that] by (auto simp: size_ok_def EK_def EV_def)
  define E where "E = (\<lambda>(k, v). EK k @ EV v)"
  have "specPair (specV env n) kt vt x = Some (E x)" if "x \<in> set kvs" for x
    using E [of "fst x" "snd x"] that by (simp add: specPair_def E_def split_beta)
  then have sp: "specV env (Suc n) t (VMap q) =
      Some (tWT kt # tWT vt # wire32 (length kvs) @ concat (map E kvs))"
    using spec_map [OF T kv(1-3), of q env n E] by (simp add: kvs_def Let_def del: specV.simps)
  have ns: "\<not> simpleTypes (tT t)" using T not_simple_tags [of t] by blast
  have np: "simpleTypes (tT kt) \<Longrightarrow> \<not> tIsPointer kt" "simpleTypes (tT vt) \<Longrightarrow> \<not> tIsPointer vt"
    using kv(6,7) by (auto simp: keyOK_def elemOK_def simpleTypes_def)
  let ?dk = "typeToSize (tT kt) > 0" and ?dv = "typeToSize (tT vt) > 0"
  have len: "length (concat (map E kvs)) = sum_list (map (\<lambda>x. length (EK (fst x)) + length (EV (snd x))) kvs)"
    by (simp add: length_concat_map E_def split_beta)
  have K: "length (EK k) = typeToSize (tT kt)" if "(k, v) \<in> set kvs" "?dk" for k v
    using ok(1) [OF that(1)] E(1) [OF that(1)] that(2) typeToSize_pos [of "tT kt"]
    by (auto simp: size_ok_def)
  have V: "length (EV v) = typeToSize (tT vt)" if "(k, v) \<in> set kvs" "?dv" for k v
    using ok(2) [OF that(1)] E(2) [OF that(1)] that(2) typeToSize_pos [of "tT vt"]
    by (auto simp: size_ok_def)
  have run: "runSize (Suc k) env t (Some (VMap q)) = SOk (6 + length (concat (map E kvs)))"
    if k: "n \<le> k" for k
  proof -
    let ?szf = "runSize k env"
    let ?szs = "\<lambda>kt kp. tType_EncodedSize ?szf (tT kt \<noteq> 0) (Sd env kt) kp"
    have sk: "\<not> simpleTypes (tT kt) \<Longrightarrow> ?szs kt p = runSize (Suc k) env kt p" for p
      using kv(6) by (auto simp: keyOK_def split: if_splits)
    show ?thesis
    proof (cases "q = None \<or> kvs = []")
      case True
      then show ?thesis
        using T kv cnt by (cases q) (auto simp: encodedMapSize_def mapHeaderLen_def kvs_def Let_def)
    next
      case False
      then have q: "q = Some (length kvs, kvs)" using cnt by (auto simp: kvs_def)
      have el: "(x, v) \<in> set kvs \<Longrightarrow> \<not> ?dk \<Longrightarrow> sizeElem ?szs kt (Some x) ret f = f (ret + length (EK x))"
        "(x, v) \<in> set kvs \<Longrightarrow> \<not> ?dv \<Longrightarrow> sizeElem ?szf vt (Some v) ret f = f (ret + length (EV v))"
        for x v ret and f :: "nat \<Rightarrow> sres"
        using ok E k by (auto intro!: size_elem [OF _ np(2)] size_elem [OF _ np(1), where m = "Suc k"] sk
            simp del: runSize.simps)
      have "encodedMapSize ?szf ?szs t (Some (VMap q)) = SOk (6 + length (concat (map E kvs)))"
        using False kv q size_map_loop [of kvs ?dk ?szs kt "\<lambda>x. length (EK x)" ?dv ?szf vt
            "\<lambda>x. length (EV x)", OF el]
          sum_map_split [of kvs ?dk "\<lambda>x. length (EK x)" _ ?dv "\<lambda>x. length (EV x)", OF K V]
        unfolding len by (simp add: encodedMapSize_def mapHeaderLen_def wfT_fixed_sel Let_def)
      then show ?thesis using T by (simp add: Let_def)
    qed
  qed
  have "runSize k env t (Some (VMap q)) = SOk (6 + length (concat (map E kvs)))"
    if "Suc n \<le> k" for k
    using that run by (cases k) auto
  with sp ns show ?thesis by (simp add: size_ok_def del: runSize.simps specV.simps)
qed

subsection \<open>Structs\<close>

lemma length_appendFieldHeader: "length (appendFieldHeader f []) = 3"
  by (simp add: appendFieldHeader_def)

text \<open>A field of fixed size is never skipped.\<close>

lemma size_fixed_field:
  assumes wf: "wfField bv env f" and fx: "tField_EncodedSize f > 0"
    and at: "map_of cs (fOffset f) = Some v" and ok: "size_ok env n (fType f) v"
    and sp: "specField (specV env n) cs f = Some bs"
  shows "length bs = nat (tField_EncodedSize f)"
proof -
  have T: "wfT bv env (fType f)" using wf by (simp add: wfField_def)
  from fx have f: "\<not> tIsPointer (fType f)" "fSpec f \<noteq> Optional" "typeToSize (tT (fType f)) > 0"
    "tField_EncodedSize f = int (3 + typeToSize (tT (fType f)))"
    using wfT_fixed_sel [OF T] by (auto simp: tField_EncodedSize_def fieldHeaderLen_def split: if_splits)
  with wf have "field_skipped f (Some v) = Ok False"
    by (auto simp: wfField_def field_skipped_def)
  with sp at obtain vb where "specV env n (fType f) v = Some vb" "bs = appendFieldHeader f [] @ vb"
    by (auto simp: specField_eq)
  with ok f typeToSize_pos [of "tT (fType f)"] show ?thesis
    by (auto simp: size_ok_def length_appendFieldHeader)
qed

text \<open>The other fields are visited.\<close>

lemma size_var_field:
  assumes wf: "wfField bv env f" and at: "map_of cs (fOffset f) = Some v"
    and c: "(fCanSkipEncodeIfNil f \<and> v = VPtr None) \<or> conf True env n (fType f) v"
    and ok: "conf True env n (fType f) v \<Longrightarrow> size_ok env n (fType f) v"
    and sp: "specField (specV env n) cs f = Some bs" and m: "n \<le> m"
  shows "sizeVarField (runSize m env) (Some (VStruct cs)) f ret k = k (ret + length bs)"
proof -
  have T: "wfT bv env (fType f)" using wf by (simp add: wfField_def)
  from field_skipped_Ok [OF wf c] obtain s where s: "field_skipped f (Some v) = Ok s"
    "\<not> s \<Longrightarrow> conf True env n (fType f) v" by blast
  show ?thesis
  proof (cases s)
    case True
    with s at sp show ?thesis by (simp add: sizeVarField_def specField_eq)
  next
    case False
    with s sp at obtain vb where vb: "specV env n (fType f) v = Some vb"
      "bs = appendFieldHeader f [] @ vb" by (auto simp: specField_eq)
    from False s ok have z: "size_ok env n (fType f) v" by blast
    consider (fx) "typeToSize (tT (fType f)) > 0" | (str) "tT (fType f) = tSTRING" "simpleTypes (tT (fType f))" |
      (oth) "\<not> simpleTypes (tT (fType f))" "tT (fType f) \<noteq> tSTRING" "typeToSize (tT (fType f)) = 0"
      using typeToSize_pos [of "tT (fType f)"] by (auto simp: simpleTypes_def)
    then show ?thesis
    proof cases
      case str
      then have "typeToSize (tT (fType f)) = 0" by (simp add: typeToSize_def)
      with str s False at vb z wfT_fixed_sel [OF T] show ?thesis
        by (cases "tIsPointer (fType f)"; cases "ldPtr (Some v)")
           (auto simp: sizeVarField_def size_ok_def length_appendFieldHeader fieldHeaderLen_def Let_def add.assoc)
    qed (use s False at vb z m typeToSize_pos [of "tT (fType f)"] wfT_fixed_sel [OF T] in
        \<open>auto simp: sizeVarField_def size_ok_def length_appendFieldHeader fieldHeaderLen_def Let_def add.assoc\<close>)
  qed
qed

lemma size_var_fields:
  assumes "\<And>i ret k. i \<in> set is \<Longrightarrow> i < length fs \<and>
      sizeVarField szf base (fs ! i) ret k = k (ret + L i)"
  shows "sizeVarFields szf fs base is ret k = k (ret + sum_list (map L is))"
  using assms
proof (induction "is" arbitrary: ret)
  case (Cons i "is")
  have "sizeVarFields szf fs base is ret k = k (ret + sum_list (map L is))" for ret
    using Cons.prems [OF list.set_intros(2)] by (rule Cons.IH)
  then show ?case using Cons.prems [of i] by (simp add: add.assoc)
qed simp

lemma size_fields:
  assumes sd: "wfSd bv env sd" and c: "confFields (conf True env n) sd cs"
    and ok: "\<And>f v. f \<in> set (sd_fields sd) \<Longrightarrow> conf True env n (fType f) v \<Longrightarrow> size_ok env n (fType f) v"
    and sp: "specStruct (specV env n) sd cs = Some bs" and m: "n \<le> m"
  shows "tType_EncodedSize (runSize m env) False (Ok sd) (Some (VStruct cs)) = SOk (length bs)"
proof -
  let ?fs = "sd_fields sd"
  have "those (map (specField (specV env n) cs) ?fs) \<noteq> None"
    using sp by (auto simp: specStruct_def)
  then obtain bss where bss: "those (map (specField (specV env n) cs) ?fs) = Some bss" by blast
  have bs: "bs = concat bss @ specUnknown sd cs @ [tSTOP]" using sp bss by (simp add: specStruct_def)
  have nth: "length bss = length ?fs"
    "\<And>j. j < length ?fs \<Longrightarrow> specField (specV env n) cs (?fs ! j) = Some (bss ! j)"
    using those_Some_nth [OF bss] by auto
  have cell: "\<exists>v. map_of cs (fOffset f) = Some v \<and>
      ((fCanSkipEncodeIfNil f \<and> v = VPtr None) \<or> conf True env n (fType f) v)"
    if "f \<in> set ?fs" for f
    using c that by (auto simp: confFields_def split: option.splits dest!: bspec)
  have wf: "wfField bv env f" if "f \<in> set ?fs" for f using sd that by (simp add: wfSd_def)
  let ?L = "\<lambda>j. length (bss ! j)" and ?S = "\<lambda>j. nat (max 0 (tField_EncodedSize (?fs ! j)))"
  have fixed: "?L j = ?S j" if "j < length ?fs" "tField_EncodedSize (?fs ! j) > 0" for j
  proof -
    have f: "?fs ! j \<in> set ?fs" using that by simp
    from cell [OF f] obtain v where v: "map_of cs (fOffset (?fs ! j)) = Some v"
      "(fCanSkipEncodeIfNil (?fs ! j) \<and> v = VPtr None) \<or> conf True env n (fType (?fs ! j)) v" by blast
    have "\<not> fCanSkipEncodeIfNil (?fs ! j)"
      using wf [OF f] that(2) by (auto simp: wfField_def tField_EncodedSize_def split: if_splits)
    with v ok [OF f] size_fixed_field [OF wf [OF f] that(2) v(1) _ nth(2) [OF that(1)]] that(2)
    show ?thesis by (auto simp: max_def)
  qed
  have sizes: "fixedLenFieldSize sd = sum_list (map ?S [0..<length ?fs])"
    "varLenFields sd = filter (\<lambda>j. \<not> tField_EncodedSize (?fs ! j) > 0) [0..<length ?fs]"
    using sd sum_list_nth [of "\<lambda>f. nat (max 0 (tField_EncodedSize f))" ?fs]
    by (simp_all add: wfSd_def wfSizes_def sum_fields_acc not_less)
  have total: "length (concat bss) = fixedLenFieldSize sd + sum_list (map ?L (varLenFields sd))"
    using sum_split_filter [of "[0..<length ?fs]" "\<lambda>j. tField_EncodedSize (?fs ! j) > 0" ?L ?S] fixed
      sum_list_nth [of length bss]
    by (simp add: sizes nth(1) length_concat)
  have "sizeVarFields (runSize m env) ?fs (Some (VStruct cs)) (varLenFields sd) ret k =
      k (ret + sum_list (map ?L (varLenFields sd)))" for ret k
  proof (intro size_var_fields conjI)
    fix i ret k assume "i \<in> set (varLenFields sd)"
    then show i: "i < length ?fs" by (simp add: sizes)
    then have f: "?fs ! i \<in> set ?fs" by simp
    from cell [OF f] obtain v where v: "map_of cs (fOffset (?fs ! i)) = Some v"
      "(fCanSkipEncodeIfNil (?fs ! i) \<and> v = VPtr None) \<or> conf True env n (fType (?fs ! i)) v" by blast
    show "sizeVarField (runSize m env) (Some (VStruct cs)) (?fs ! i) ret k = k (ret + ?L i)"
      by (rule size_var_field [OF wf [OF f] v ok [OF f] nth(2) [OF i] m])
  qed
  moreover have "\<exists>q. map_of cs (unknownFieldsOffset sd) = Some (VBytes q) \<and>
      specUnknown sd cs = (case q of Some s \<Rightarrow> s | None \<Rightarrow> [])" if "hasUnknownFields sd"
    using c that by (auto simp: confFields_def specUnknown_def split: option.splits gval.splits)
  ultimately show ?thesis
    by (auto simp: tType_EncodedSize_def bs total specUnknown_def split: option.splits)
qed

subsection \<open>The induction on the depth\<close>

lemma size_all:
  assumes env: "wfEnv False env"
  shows "wfT False env t \<Longrightarrow> conf True env n t v \<Longrightarrow> size_ok env n t v"
proof (induction n arbitrary: t v)
  case (Suc n)
  note wf = Suc.prems(1)
  from enc_all [OF env wf Suc.prems(2)] obtain bs where sp: "specV env (Suc n) t v = Some bs"
    by (auto simp: enc_ok_def)
  from Suc.prems(2,1) show ?case
  proof (cases rule: conf_cases)
    case nilStruct
    then have "runSize k env t (Some v) = SOk 1" if "Suc n \<le> k" for k
      using that by (cases k) (auto simp: tType_EncodedSize_def)
    then show ?thesis using nilStruct by (simp add: size_ok_def simpleTypes_def)
  next
    case (simple w)
    have "specSimple t w = Some bs"
      using sp simple by (cases "tIsPointer t") (auto simp: Let_def)
    from size_simple [OF simple(3,1) this] sp simple show ?thesis
      by (auto simp: size_ok_def simp del: specV.simps)
  next
    case (list et q)
    from wfT_list [OF wf list(1)] list(2) have et: "wfT False env et" "elemOK et" by auto
    with list Suc.IH show ?thesis unfolding list(3)
      by (intro size_list [OF wf]) auto
  next
    case (map kt vt q)
    from wfT_map [OF wf map(1)] map(2,3) have kv: "wfT False env kt" "wfT False env vt"
      "keyOK kt" "elemOK vt" by auto
    show ?thesis unfolding map(4)
    proof (rule size_map [OF wf map(1,2,3,5) kv])
      fix c kvs k v assume "q = Some (c, kvs)" "(k, v) \<in> set kvs"
      with map(6) Suc.IH kv show "size_ok env n kt k \<and> size_ok env n vt v" by fastforce
    qed (use map(6) in blast)
  next
    case (struct sd cs)
    have p: "tIsPointer t" using wf struct(1) by (cases t) (auto simp: simpleTypes_def)
    have ns: "\<not> simpleTypes (tT t)" using struct not_simple_tags by blast
    have sd: "wfSd False env sd" by (rule wfEnv_sd [OF env struct(2)])
    have fs: "specStruct (specV env n) sd cs = Some bs"
      using sp spec_struct [OF struct(1,2), of n cs] struct(3) by simp
    have "size_ok env n (fType f) v" if "f \<in> set (sd_fields sd)" "conf True env n (fType f) v" for f v
      using sd that by (intro Suc.IH) (auto simp: wfSd_def wfField_def)
    from size_fields [OF sd struct(4) this fs]
    have m: "tType_EncodedSize (runSize m env) False (Ok sd) (Some (VStruct cs)) = SOk (length bs)"
      if "n \<le> m" for m using that by blast
    have "runSize k env t (Some v) = SOk (length bs)" if "Suc n \<le> k" for k
      using that struct p m [of "k - 1"] by (cases k) (auto simp: tType_EncodedSize_def)
    with sp ns show ?thesis by (simp add: size_ok_def del: runSize.simps specV.simps)
  qed
qed simp

end
