(* ===== verification/Frugal.thy ===== *)
theory Frugal
  imports AppendRun EncodedSize
begin

text \<open>
  The entry points of the encoder: \<^verbatim>\<open>EncodedSize\<close> and \<^verbatim>\<open>Append\<close> of
  \<^verbatim>\<open>internal/reflect/reflect.go\<close>, \<^verbatim>\<open>createStructDesc\<close> of \<^verbatim>\<open>desc.go\<close> and \<^verbatim>\<open>EncodeObject\<close>
  of \<^verbatim>\<open>frugal.go\<close>. An \<^verbatim>\<open>interface{}\<close> argument is nil or a type with a cell of that type.
\<close>

datatype iface = IfNil | Iface rtype gval

datatype ferr =
    ErrType \<comment> \<open>\<^verbatim>\<open>errType\<close>: not pointer to struct\<close>
  | ErrResolve \<comment> \<open>the error of \<^verbatim>\<open>defs.DoResolveFields\<close>\<close>
  | ErrAppend gerr
  | ErrBufferTooSmall nat nat \<comment> \<open>\<^verbatim>\<open>index out of range [%d] with length %d\<close>\<close>

text \<open>
  \<^verbatim>\<open>createStructDesc\<close>, without the cache: the type must be a struct or a pointer to one, and
  its fields must resolve (\<open>env\<close> knows the types whose fields do).
\<close>

definition find_desc :: "env \<Rightarrow> rtype \<Rightarrow> ferr + structDesc" where
  "find_desc env rt =
     (case struct_id rt of
        None \<Rightarrow> Inl ErrType
      | Some i \<Rightarrow> (case env i of None \<Rightarrow> Inl ErrResolve | Some sd \<Rightarrow> Inr sd))"

definition createStructDesc :: "env \<Rightarrow> rtype \<Rightarrow> ferr + structDesc" where
  "createStructDesc env rt =
     (if rt_Kind rt \<noteq> K_Struct then
        if rt_Kind rt \<noteq> K_Ptr then Inl ErrType
        else (case rt_Elem rt of
                Panic p \<Rightarrow> Inl ErrType
              | Ok e \<Rightarrow> if rt_Kind e \<noteq> K_Struct then Inl ErrType else find_desc env e)
      else find_desc env rt)"

text \<open>The pointer to the struct: the interface's own pointer, or one to a copy of the struct.\<close>

definition objPtr :: "rtype \<Rightarrow> gval \<Rightarrow> ptr go" where
  "objPtr rt c = (if rt_Kind rt = K_Struct then Ok (Some c) else ldPtr (Some c))"

datatype fres = FOk bytes | FErr bytes ferr | FPanic panic

fun ares_f :: "ares \<Rightarrow> fres" where
  "ares_f (AOk b) = FOk b"
| "ares_f (AErr b e) = FErr b (ErrAppend e)"
| "ares_f (APanic p) = FPanic p"

definition Append :: "nat \<Rightarrow> env \<Rightarrow> bytes \<Rightarrow> iface \<Rightarrow> fres" where
  "Append k env b v =
     (case v of
        IfNil \<Rightarrow> FPanic NilDeref
      | Iface rt c \<Rightarrow>
          (case createStructDesc env rt of
             Inl e \<Rightarrow> FErr b e
           | Inr sd \<Rightarrow>
               (case objPtr rt c of
                  Panic p \<Rightarrow> FPanic p
                | Ok p \<Rightarrow> ares_f (appendStruct (runAppend k env) (Ok sd) b p))))"

text \<open>\<^verbatim>\<open>EncodedSize\<close> has no error result: it panics on one.\<close>

definition EncodedSize :: "nat \<Rightarrow> env \<Rightarrow> iface \<Rightarrow> nat go" where
  "EncodedSize k env v =
     (case v of
        IfNil \<Rightarrow> Panic NilDeref
      | Iface rt c \<Rightarrow>
          (case createStructDesc env rt of
             Inl e \<Rightarrow> Panic (ExplicitPanic ''unexpected err when parse fields'')
           | Inr sd \<Rightarrow>
               gobind (objPtr rt c) (\<lambda>p.
                 case tType_EncodedSize (runSize k env) False (Ok sd) p of
                   SOk n \<Rightarrow> Ok n
                 | SErr n e \<Rightarrow> Panic (ExplicitPanic ''unexpected err'')
                 | SPanic q \<Rightarrow> Panic q)))"

text \<open>
  \<^verbatim>\<open>EncodeObject(buf, w, val)\<close> appends to \<^verbatim>\<open>buf[:0]\<close>: the result is the count, the error and
  what \<^verbatim>\<open>buf\<close> holds afterwards. While the encoding is no longer than \<^verbatim>\<open>buf\<close>, no \<^verbatim>\<open>append\<close>
  outgrows its capacity and the bytes are in place; when it is longer, how much of it reached
  \<^verbatim>\<open>buf\<close> depends on the growth of the slice (\<open>None\<close>).
\<close>

datatype eobj = EObj nat "ferr option" "bytes option" | EObjPanic panic

definition EncodeObject :: "nat \<Rightarrow> env \<Rightarrow> bytes \<Rightarrow> iface \<Rightarrow> eobj" where
  "EncodeObject k env buf v =
     (let finish = (\<lambda>ret err.
            if length ret > length buf
            then EObj 0 (Some (ErrBufferTooSmall (length ret) (length buf))) None
            else EObj (length ret) err (Some (ret @ drop (length ret) buf)))
      in case Append k env [] v of
           FOk ret \<Rightarrow> finish ret None
         | FErr ret e \<Rightarrow> finish ret (Some e)
         | FPanic p \<Rightarrow> EObjPanic p)"

end
