(* ===== verification/DescCorrect.thy ===== *)
theory DescCorrect
  imports FastPaths
begin

text \<open>
  What \<^verbatim>\<open>newTType\<close>, \<^verbatim>\<open>fromDefsField\<close>, \<^verbatim>\<open>fromDefsFields\<close> and \<^verbatim>\<open>newStructDesc\<close> build is
  well-formed in the sense of \<open>Conform\<close>, for the Go types the codec supports; and
  \<^verbatim>\<open>GetField\<close> on the descriptor they build is the lookup by field id.
\<close>

subsection \<open>Supported types\<close>

definition basicTag :: "Tag \<Rightarrow> bool" where
  "basicTag t \<longleftrightarrow> t \<in> set [T_bool, T_i8, T_double, T_i16, T_i32, T_i64, T_string, T_enum]"

text \<open>
  A type descriptor the codec supports: the shapes of \<open>valid_Type\<close>, with the structs known
  to \<open>env\<close>, less those \<open>wfT\<close> leaves out: pointers to containers and to binaries, maps from a
  scalar or a string to a binary.
\<close>

fun supT :: "bool \<Rightarrow> env \<Rightarrow> Type \<Rightarrow> bool" where
  "supT bv env (Type t k v s) \<longleftrightarrow>
     (basicTag t \<and> t \<noteq> T_string \<or> rt_Kind s \<in> set abi_kinds) \<and>
     (if basicTag t \<or> t = T_binary then k = None \<and> v = None
      else if t = T_struct then
        bv \<and> k = None \<and> v = None \<and>
        (case struct_id s of Some i \<Rightarrow> env i \<noteq> None | None \<Rightarrow> False)
      else if t = T_map then
        (case (k, v) of
           (Some k', Some v') \<Rightarrow>
             supT bv env k' \<and> supT bv env v' \<and> Type_IsKeyType k' = Ok True \<and>
             Type_IsValueType v' = Ok True \<and> (ty_T v' = T_binary \<longrightarrow> ty_T k' = T_pointer)
         | _ \<Rightarrow> False)
      else if t = T_set \<or> t = T_list then
        k = None \<and>
        (case v of Some v' \<Rightarrow> supT bv env v' \<and> Type_IsValueType v' = Ok True | None \<Rightarrow> False)
      else if t = T_pointer then
        k = None \<and>
        (case v of
           Some v' \<Rightarrow>
             supT True env v' \<and>
             (basicTag (ty_T v') \<or> ty_T v' = T_struct \<and> struct_id (ty_S v') = struct_id s)
         | None \<Rightarrow> False)
      else False)"

text \<open>The runtime type \<^verbatim>\<open>t.T\<close> a descriptor gets.\<close>

fun ttype_of :: "Type \<Rightarrow> ttype" where
  "ttype_of (Type t k v s) =
     (if t = T_pointer then (case v of Some v' \<Rightarrow> ttype_of v' | None \<Rightarrow> 0)
      else if t = T_enum then tENUM else if t = T_binary then tSTRING else t)"

definition built :: "bool \<Rightarrow> env \<Rightarrow> Type \<Rightarrow> tType \<Rightarrow> bool" where
  "built bv env ty t \<longleftrightarrow>
     wfT bv env t \<and> tTag t = ty_T ty \<and> tRT t = ty_S ty \<and> tT t = ttype_of ty \<and>
     (tIsPointer t \<longleftrightarrow> ty_T ty = T_pointer)"

lemma supT_tag: "supT bv env ty \<Longrightarrow> Type_IsEnum ty = Ok (ttype_of ty = tENUM) \<and>
    Type_Tag ty = Ok (if ttype_of ty = tENUM then tI32 else ttype_of ty)"
  by (induction bv env ty rule: supT.induct)
     (auto simp: basicTag_def split: option.splits if_splits)

lemma pick_list:
  "T = tLIST \<or> T = tSET \<Longrightarrow> pick_AppendFunc T K (Some v) = Ok (listFn_of (tT v))"
  using listAppendFuncs_eq [of "tT v"]
  by (auto simp: pick_AppendFunc_def updateListAppendFunc_def split: option.splits)

lemma pick_map:
  "tT k \<in> set valueTypes \<Longrightarrow> tT v \<in> set valueTypes \<Longrightarrow>
   pick_AppendFunc tMAP (Some k) (Some v) = Ok (AppendMap (mkind_of (tT k)) (mkind_of (tT v)))"
  by (simp add: pick_AppendFunc_def updateMapAppendFunc_def mapAppendFuncs_eq)

text \<open>\<^verbatim>\<open>t.MallocAbiType\<close> of a Go type.\<close>

definition abi_of :: "rtype \<Rightarrow> rtype option" where
  "abi_of s = (if rt_Kind s \<in> set abi_kinds then Some s else None)"

lemma supT_abi: "supT bv env (Type t k v s) \<Longrightarrow>
    basicTag t \<and> t \<noteq> T_string \<or> abi_of s \<noteq> None"
  by (auto simp: abi_of_def)

lemma newTType_eq:
  assumes "supT bv env (Type tg k v s)"
    "k = None \<and> K = None \<or> (\<exists>k' x. k = Some k' \<and> K = Some x \<and> newTType lay k' = Ok x)"
    "v = None \<and> V = None \<or> (\<exists>v' y. v = Some v' \<and> V = Some y \<and> newTType lay v' = Ok y)"
    "pick_AppendFunc (ttype_of (Type tg k v s)) K V = Ok f"
    "tg = T_pointer \<Longrightarrow> \<exists>y. V = Some y \<and> \<not> tIsPointer y"
  shows "\<exists>sz al. newTType lay (Type tg k v s) =
    Ok (TType (ttype_of (Type tg k v s)) K V
        (if ttype_of (Type tg k v s) = tENUM then tI32 else ttype_of (Type tg k v s))
        tg s sz al (abi_of s) (tg = T_pointer) (simpleTypes (ttype_of (Type tg k v s)))
        (typeToSize (ttype_of (Type tg k v s))) f)"
proof -
  define T where "T = ttype_of (Type tg k v s)"
  have K: "(case k of None \<Rightarrow> Ok None | Some k' \<Rightarrow> gobind (newTType lay k') (\<lambda>x. Ok (Some x))) = Ok K"
    and V: "(case v of None \<Rightarrow> Ok None | Some v' \<Rightarrow> gobind (newTType lay v') (\<lambda>x. Ok (Some x))) = Ok V"
    using assms(2,3) by auto
  have P: "(if tg = T_pointer then gobind (tt_deref V) (\<lambda>v. Ok (tIsPointer v)) else Ok False) = Ok False"
    using assms(5) by auto
  have T: "(if T = tENUM then tENUM else if T = tENUM then tI32 else T) = T" by simp
  show ?thesis
    unfolding newTType.simps Let_def supT_tag [OF assms(1), THEN conjunct1]
      supT_tag [OF assms(1), THEN conjunct2] gobind.simps T_def [symmetric] T K V P
      abi_of_def [symmetric]
    using assms(4) [folded T_def] by simp
qed

declare newTType.simps [simp del]

lemma simpleTypes_basic: "basicTag t \<Longrightarrow> simpleTypes (if t = T_enum then tENUM else t)"
  by (auto simp: basicTag_def simpleTypes_def)

lemma pick_other: "simpleTypes T \<Longrightarrow> pick_AppendFunc T K V = Ok AppendAny"
  "pick_AppendFunc tSTRUCT K V = Ok AppendStruct"
  by (auto simp: pick_AppendFunc_def simpleTypes_def)

lemma ttype_of_struct: "ty_T ty = T_struct \<Longrightarrow> ttype_of ty = tSTRUCT"
  by (cases ty) auto

text \<open>The memory of the type.\<close>

lemma supT_memOK:
  assumes "supT bv env (Type tg k v s)" "tg \<noteq> T_pointer"
  shows "memOK (ttype_of (Type tg k v s)) False (abi_of s) V"
  using supT_abi [OF assms(1)] assms(2)
  by (auto simp: memOK_def basicTag_def typeToSize_def)

lemma supT_memOK_ptr:
  assumes "supT bv env (Type tg k v s)" "tg = T_pointer" "wfT bv' env y" "tT y = T"
  shows "memOK T True (abi_of s) (Some y)"
  using supT_abi [OF assms(1)] assms wfT_abi [OF assms(3)] by (auto simp: memOK_def basicTag_def)

lemma elemOK_value:
  "Type_IsValueType ty = Ok True \<Longrightarrow> built bv env ty t \<Longrightarrow> elemOK t"
  by (cases ty) (auto simp: Type_IsValueType_def elemOK_def built_def ty_deref_def ttype_of_struct
      split: option.splits)

lemma keyOK_key:
  "Type_IsKeyType ty = Ok True \<Longrightarrow> built bv env ty t \<Longrightarrow> keyOK t"
  by (cases ty) (auto simp: Type_IsKeyType_def keyOK_def built_def ty_deref_def ttype_of_struct
      simpleTypes_def split: option.splits if_splits)

lemma newTType_built:
  "supT bv env ty \<Longrightarrow> \<exists>t. newTType lay ty = Ok t \<and> built bv env ty t"
proof (induction bv env ty rule: supT.induct)
  case (1 bv env tg k v s)
  note sup = \<open>supT bv env (Type tg k v s)\<close>
  consider (b) "basicTag tg \<or> tg = T_binary" | (s) "tg = T_struct" | (m) "tg = T_map" |
    (l) "tg = T_set \<or> tg = T_list" | (p) "tg = T_pointer"
    using sup by (auto split: if_splits)
  then show ?case
  proof cases
    case b
    then have kv: "k = None" "v = None" and np: "tg \<noteq> T_pointer" and st: "simpleTypes (ttype_of (Type tg k v s))"
      using sup by (auto simp: basicTag_def simpleTypes_def)
    define T where "T = ttype_of (Type tg k v s)"
    have T: "simpleTypes T" using st by (simp add: T_def)
    from newTType_eq [OF sup, of None lay None, folded T_def, OF _ _ pick_other(1) [OF T]] kv np T
    obtain sz al where "newTType lay (Type tg k v s) =
        Ok (TType T None None (if T = tENUM then tI32 else T) tg s sz al (abi_of s) False True
            (typeToSize T) AppendAny)"
      by auto
    moreover have "tg = T_binary \<Longrightarrow> T = tSTRING" by (simp add: T_def)
    moreover have "memOK T False (abi_of s) None" using supT_memOK [OF sup np] by (simp add: T_def)
    ultimately show ?thesis
      using T np by (auto simp: built_def T_def [symmetric] simp del: ttype_of.simps)
  next
    case s
    then have kv: "k = None" "v = None" and T: "ttype_of (Type tg k v s) = tSTRUCT"
      and id: "bv" "case struct_id s of Some i \<Rightarrow> env i \<noteq> None | None \<Rightarrow> False"
      using sup by (auto simp: basicTag_def)
    from newTType_eq [OF sup, of None lay None, unfolded T, OF _ _ pick_other(2)] kv s
    obtain sz al where "newTType lay (Type tg k v s) =
        Ok (TType tSTRUCT None None tSTRUCT tg s sz al (abi_of s) False False 0 AppendStruct)"
      by (auto simp: simpleTypes_def typeToSize_def)
    moreover have "memOK tSTRUCT False (abi_of s) None" using supT_memOK [OF sup] s by simp
    ultimately show ?thesis using s id T by (auto simp: built_def simpleTypes_def typeToSize_def)
  next
    case l
    then obtain v' where v: "k = None" "v = Some v'" "supT bv env v'" "Type_IsValueType v' = Ok True"
      using sup by (auto simp: basicTag_def split: option.splits)
    from l have T: "ttype_of (Type tg k v s) = tg" and tg: "\<not> basicTag tg" by (auto simp: basicTag_def)
    from "1.IH"(3) l v tg obtain t' where t': "newTType lay v' = Ok t'" "built bv env v' t'"
      by auto
    have "tg = tLIST \<or> tg = tSET" using l by auto
    from newTType_eq [OF sup, of None lay "Some t'", unfolded T, OF _ _ pick_list [OF this]] v t' l
    obtain sz al where "newTType lay (Type tg k v s) =
        Ok (TType tg None (Some t') tg tg s sz al (abi_of s) False False 0 (listFn_of (tT t')))"
      by (auto simp: simpleTypes_def typeToSize_def)
    moreover have "memOK tg False (abi_of s) (Some t')" using supT_memOK [OF sup, of "Some t'"] T l by auto
    ultimately show ?thesis using l t'(2) elemOK_value [OF v(4) t'(2)] T
      by (auto simp: built_def simpleTypes_def typeToSize_def)
  next
    case m
    then obtain k' v' where kv: "k = Some k'" "v = Some v'" "supT bv env k'" "supT bv env v'"
      "Type_IsKeyType k' = Ok True" "Type_IsValueType v' = Ok True"
      "ty_T v' = T_binary \<longrightarrow> ty_T k' = T_pointer"
      using sup by (auto simp: basicTag_def split: option.splits)
    have tg: "\<not> basicTag tg" using m by (auto simp: basicTag_def)
    have "\<exists>t. newTType lay k' = Ok t \<and> built bv env k' t"
      "\<exists>t. newTType lay v' = Ok t \<and> built bv env v' t"
      using "1.IH"(1,2) m kv tg by auto
    then obtain x y where xy: "newTType lay k' = Ok x" "built bv env k' x"
      "newTType lay v' = Ok y" "built bv env v' y" by blast
    have T: "ttype_of (Type tg k v s) = tMAP" using m by simp
    have vt: "tT x \<in> set valueTypes" "tT y \<in> set valueTypes"
      using wfT_valueTypes [of bv env x] wfT_valueTypes [of bv env y] xy unfolding built_def by blast+

    from newTType_eq [OF sup, of "Some x" lay "Some y", unfolded T, OF _ _ pick_map [OF vt]] kv xy m
    obtain sz al where "newTType lay (Type tg k v s) =
        Ok (TType tMAP (Some x) (Some y) tMAP tg s sz al (abi_of s) False False 0
            (AppendMap (mkind_of (tT x)) (mkind_of (tT y))))"
      by (auto simp: simpleTypes_def typeToSize_def)
    moreover have "tTag y = T_binary \<longrightarrow> tT x = tSTRUCT"
      using kv(5,7) xy by (cases k') (auto simp: built_def Type_IsKeyType_def ty_deref_def
        ttype_of_struct split: option.splits)
    moreover have "memOK tMAP False (abi_of s) (Some y)" using supT_memOK [OF sup, of "Some y"] T m by auto
    ultimately show ?thesis
      using m T xy(2,4) elemOK_value [OF kv(6) xy(4)] keyOK_key [OF kv(5) xy(2)]
      by (auto simp: built_def simpleTypes_def typeToSize_def)
  next
    case p
    then obtain v' where v: "k = None" "v = Some v'" "supT True env v'"
      "basicTag (ty_T v') \<or> ty_T v' = T_struct \<and> struct_id (ty_S v') = struct_id s"
      using sup by (auto simp: basicTag_def split: option.splits)
    define T where "T = ttype_of v'"
    have T: "ttype_of (Type tg k v s) = T" using p v by (simp add: T_def)
    have tg: "\<not> basicTag tg" using p by (auto simp: basicTag_def)
    from "1.IH"(4) p v tg obtain y where y: "newTType lay v' = Ok y" "built True env v' y" by auto
    have np: "\<not> tIsPointer y" using v(4) y(2) by (auto simp: built_def basicTag_def)
    have "simpleTypes T \<or> T = tSTRUCT"
      using v(4) y(2) by (cases v') (auto simp: built_def T_def basicTag_def simpleTypes_def)
    then show ?thesis
    proof
      assume st: "simpleTypes T"
      from newTType_eq [OF sup, of None lay "Some y", unfolded T, OF _ _ pick_other(1) [OF st]] v y p np st
      obtain sz al where "newTType lay (Type tg k v s) =
          Ok (TType T None (Some y) (if T = tENUM then tI32 else T) tg s sz al (abi_of s) True True
              (typeToSize T) AppendAny)"
        by auto
      moreover have "tTag y \<noteq> T_binary" "tT y = T"
        using v(4) y(2) st by (auto simp: built_def T_def basicTag_def)
      moreover have "memOK T True (abi_of s) (Some y)"
        using supT_memOK_ptr [OF sup p, of True y T] y(2) by (auto simp: built_def T_def)
      ultimately show ?thesis using p T np st by (auto simp: built_def)
    next
      assume st: "T = tSTRUCT"
      from newTType_eq [OF sup, of None lay "Some y", unfolded T st, OF _ _ pick_other(2)] v y p np
      obtain sz al where "newTType lay (Type tg k v s) =
          Ok (TType tSTRUCT None (Some y) tSTRUCT tg s sz al (abi_of s) True False 0 AppendStruct)"
        by (auto simp: simpleTypes_def typeToSize_def)
      moreover from st v(4) have "ty_T v' = T_struct" "struct_id (ty_S v') = struct_id s"
        by (cases v'; auto simp: T_def basicTag_def)+
      moreover from this v(3) have "case struct_id s of Some i \<Rightarrow> env i \<noteq> None | None \<Rightarrow> False"
        by (cases v') (auto simp: basicTag_def)
      moreover from y(2) st have "tT y = tSTRUCT" "struct_id (tRT y) = struct_id (ty_S v')"
        by (auto simp: built_def T_def)
      moreover have "memOK tSTRUCT True (abi_of s) (Some y)"
        using supT_memOK_ptr [OF sup p, of True y tSTRUCT] y(2) st by (auto simp: built_def T_def)
      ultimately show ?thesis using p T st np
        by (auto simp: built_def simpleTypes_def typeToSize_def)
    qed
  qed
qed

subsection \<open>Fields\<close>

text \<open>
  A resolved field the codec supports: a pointer to a scalar only when optional, \<^verbatim>\<open>nocopy\<close>
  only on strings and binaries (\<^verbatim>\<open>defs\<close> checks it), a default value of the field's type.
\<close>

definition rep_type :: "Type \<Rightarrow> tType" where
  "rep_type ty = TType (ttype_of ty) None None 0 (ty_T ty) (ty_S ty) 0 0 None False False 0 AppendAny"

definition supField :: "bool \<Rightarrow> env \<Rightarrow> Field \<Rightarrow> bool" where
  "supField bv env f \<longleftrightarrow>
     supT bv env (F_Type f) \<and>
     (ty_T (F_Type f) = T_pointer \<and> ttype_of (F_Type f) \<noteq> tSTRUCT \<longrightarrow> F_Spec f = Optional) \<and>
     (F_NoCopy f \<longrightarrow> ttype_of (F_Type f) = tSTRING) \<and>
     (case deref_default (F_Default f) of
        None \<Rightarrow> True
      | Some d \<Rightarrow> simpleTypes (ttype_of (F_Type f)) \<longrightarrow> confSimple True (rep_type (F_Type f)) d)"

lemma confSimple_same: "tT t = tT t' \<Longrightarrow> tTag t = tTag t' \<Longrightarrow> confSimple s t v = confSimple s t' v"
  by (simp add: confSimple_def)

lemma containerTypes_not_simple: "containerTypes t \<Longrightarrow> \<not> simpleTypes t"
  by (auto simp: containerTypes_def simpleTypes_def)

definition describes :: "bool \<Rightarrow> env \<Rightarrow> Field \<Rightarrow> tField \<Rightarrow> bool" where
  "describes bv env f x \<longleftrightarrow>
     wfField bv env x \<and> built bv env (F_Type f) (fType x) \<and> fID x = F_ID f \<and>
     fOffset x = F_off f \<and> fSpec x = F_Spec f \<and> fNoCopy x = F_NoCopy f"

lemma fromDefsField_describes:
  assumes "supField bv env f"
  shows "\<exists>x. fromDefsField lay f = Ok x \<and> describes bv env f x"
proof -
  from assms newTType_built obtain t where t: "newTType lay (F_Type f) = Ok t" "built bv env (F_Type f) t"
    unfolding supField_def by blast
  then have WT: "F_NoCopy f \<Longrightarrow> tWT t = tSTRING"
    using assms wfT_WT_sel by (auto simp: supField_def built_def)
  define x where "x = (let skipnil = (F_Spec f = Optional \<and>
             (tTag t = T_pointer \<or> tTag t = T_binary \<or> containerTypes (tT t)));
           v = deref_default (F_Default f)
       in \<lparr>fID = F_ID f, fOffset = F_off f, fType = t, fSpec = F_Spec f, fDefault = v,
              fNoCopy = F_NoCopy f, fCanSkipEncodeIfNil = skipnil,
              fCanSkipIfDefault = (F_Spec f = Optional \<and> tTag t \<noteq> T_pointer \<and> v \<noteq> None)\<rparr>)"
  have x: "fromDefsField lay f = Ok x"
    using t(1) WT by (auto simp: fromDefsField_def x_def Let_def)
  have same: "confSimple True t d = confSimple True (rep_type (F_Type f)) d" for d
    using t(2) by (intro confSimple_same) (auto simp: built_def rep_type_def)
  have "wfField bv env x"
    using assms t(2)
    by (auto simp: wfField_def x_def Let_def supField_def built_def same split: option.splits)
  then show ?thesis using x t(2) by (auto simp: describes_def x_def Let_def)
qed

subsection \<open>Structs\<close>

lemma maxFieldID_upper:
  fixes m :: "16 word"
  shows "m \<le> fold (\<lambda>f m. if F_ID f > m then F_ID f else m) ff m \<and>
    (\<forall>f\<in>set ff. F_ID f \<le> fold (\<lambda>f m. if F_ID f > m then F_ID f else m) ff m) \<and>
    (fold (\<lambda>f m. if F_ID f > m then F_ID f else m) ff m = m \<or>
     fold (\<lambda>f m. if F_ID f > m then F_ID f else m) ff m \<in> F_ID ` set ff)"
proof (induction ff arbitrary: m)
  case (Cons f ff)
  show ?case using Cons.IH [of "F_ID f"] Cons.IH [of m] by auto
qed simp

lemma maxFieldID_ge: "f \<in> set ff \<Longrightarrow> F_ID f \<le> maxFieldID ff"
  using maxFieldID_upper [of 0 ff] by (simp add: maxFieldID_def)

lemma maxFieldID_in: "maxFieldID ff = 0 \<or> maxFieldID ff \<in> F_ID ` set ff"
  using maxFieldID_upper [of 0 ff] by (simp add: maxFieldID_def)

lemma unat_Suc_max: "(m :: 16 word) \<noteq> 0xffff \<Longrightarrow> unat (m + 1) = Suc (unat m)"
proof -
  assume "m \<noteq> 0xffff"
  moreover have "m = 0xffff" if "1 + m = 0" using that by (simp add: add_eq_0_iff)
  ultimately have "1 + m \<noteq> 0" by blast
  then show ?thesis by (simp add: unatSuc add.commute)
qed

lemma fill_fields_total:
  assumes "\<And>f. f \<in> set ff \<Longrightarrow> supField bv env f" "\<And>f. f \<in> set ff \<Longrightarrow> unat (F_ID f) < length idx"
  shows "\<exists>idx' xs. fill_fields lay ff i idx fs = Ok (idx', fs @ xs) \<and>
    list_all2 (describes bv env) ff xs"
  using assms
proof (induction ff arbitrary: i idx fs)
  case (Cons f ff)
  from fromDefsField_describes [of bv env f lay] Cons.prems(1) [of f]
  obtain x where x: "fromDefsField lay f = Ok x" "describes bv env f x" by auto
  from Cons.IH [of "idx[unat (F_ID f) := int i]" "Suc i" "fs @ [x]"] Cons.prems
  obtain idx' xs where "fill_fields lay ff (Suc i) (idx[unat (F_ID f) := int i]) (fs @ [x]) =
      Ok (idx', (fs @ [x]) @ xs)" "list_all2 (describes bv env) ff xs" by auto
  then show ?case using x Cons.prems(2) [of f]
    by (intro exI [of _ idx'] exI [of _ "x # xs"]) (simp add: fill_fields_Cons_Ok)
qed simp

lemma find_index_SomeI:
  assumes "distinct (map g xs)" "j < length xs" "g (xs ! j) = k"
  shows "find (\<lambda>j. g (xs ! j) = k) [0..<length xs] = Some j"
proof -
  have "find (\<lambda>j. g (xs ! j) = k) [0..<length xs] \<noteq> None"
    using assms(2,3) by (auto simp: find_None_iff)
  then obtain i where i: "find (\<lambda>j. g (xs ! j) = k) [0..<length xs] = Some i" by blast
  then have "i < length xs" "g (xs ! i) = k" by (auto simp: find_Some_iff)
  with assms have "i = j" by (auto simp: distinct_conv_nth)
  with i show ?thesis by simp
qed

text \<open>The index table \<^verbatim>\<open>fromDefsFields\<close> fills is the inverse of the ids.\<close>

lemma fill_fields_table:
  assumes ff: "fill_fields lay ff 0 (replicate n (-1)) [] = Ok (idx, xs)"
    and ids: "map fID xs = map F_ID ff" and dist: "distinct (map F_ID ff)" and k: "k < n"
  shows "idx ! k = (case find (\<lambda>j. unat (fID (xs ! j)) = k) [0..<length xs] of
    None \<Rightarrow> -1 | Some j \<Rightarrow> int j)"
proof -
  have len: "length xs = length ff" using ids by (metis length_map)
  have nth: "fID (xs ! j) = F_ID (ff ! j)" if "j < length ff" for j
    using ids that len by (metis nth_map)
  have dist': "distinct (map (\<lambda>x. unat (fID x)) xs)"
  proof -
    have "map (\<lambda>x. unat (fID x)) xs = map unat (map F_ID ff)" by (simp flip: ids)
    moreover have "inj_on unat (set (map F_ID ff))" by (auto intro: inj_onI simp flip: word_unat_eq_iff)
    ultimately show ?thesis using dist by (simp only: distinct_map [of unat]) 
  qed
  show ?thesis
  proof (cases "\<exists>j<length ff. unat (F_ID (ff ! j)) = k")
    case True
    then obtain j where j: "j < length ff" "unat (F_ID (ff ! j)) = k" by blast
    from fill_fields_idx [OF ff dist j(1)] j(2) have "idx ! k = int j" by simp
    moreover have "find (\<lambda>j. unat (fID (xs ! j)) = k) [0..<length xs] = Some j"
      using find_index_SomeI [OF dist'] j len nth by simp
    ultimately show ?thesis by simp
  next
    case False
    then have "k \<notin> (\<lambda>f. unat (F_ID f)) ` set ff" by (auto simp: in_set_conv_nth)
    with fill_fields_idx_other [OF ff] k have "idx ! k = -1" by simp
    moreover have "find (\<lambda>j. unat (fID (xs ! j)) = k) [0..<length xs] = None"
      using False len nth by (auto simp: find_None_iff)
    ultimately show ?thesis by simp
  qed
qed

definition supStruct :: "bool \<Rightarrow> env \<Rightarrow> goStruct \<Rightarrow> Field list \<Rightarrow> bool" where
  "supStruct bv env g ff \<longleftrightarrow>
     (\<forall>f\<in>set ff. supField bv env f \<and> F_ID f \<noteq> 0xffff) \<and> distinct (map F_ID ff) \<and>
     distinct (map F_off ff) \<and>
     (case gs_unknown g of None \<Rightarrow> True | Some (r, off) \<Rightarrow> off \<notin> F_off ` set ff)"

lemma fromDefsFields_wf:
  assumes sup: "\<forall>f\<in>set ff. supField bv env f \<and> F_ID f \<noteq> 0xffff"
    and dist: "distinct (map F_ID ff)"
  shows "\<exists>sd. fromDefsFields lay ff d = Ok sd \<and> list_all2 (describes bv env) ff (sd_fields sd) \<and>
    wfIdx sd \<and> wfSizes sd \<and> hasUnknownFields sd = hasUnknownFields d \<and> sd_zero sd = sd_zero d \<and>
    sd_rt sd = sd_rt d"
proof -
  define m where "m = maxFieldID ff"
  have m: "m \<noteq> 0xffff" using maxFieldID_in [of ff] sup by (auto simp: m_def)
  have lt: "unat (F_ID f) < unat (m + 1)" if "f \<in> set ff" for f
    using maxFieldID_ge [OF that] unat_Suc_max [OF m] by (simp add: m_def word_le_nat_alt)
  from fill_fields_total [of ff bv env "replicate (unat (m + 1)) (-1)" lay 0 "[]"] sup lt
  obtain idx xs where f: "fill_fields lay ff 0 (replicate (unat (m + 1)) (-1)) [] = Ok (idx, xs)"
    "list_all2 (describes bv env) ff xs" by auto
  have ids: "map fID xs = map F_ID ff"
    using f(2) by (intro nth_equalityI) (auto simp: list_all2_conv_all_nth describes_def)
  obtain n vs rs where s: "sum_fields xs 0 (0, [], []) = (n, vs, rs)" by (metis prod.exhaust)
  define sd where "sd = d\<lparr>maxID := m, fieldIdx := idx, sd_fields := xs, fixedLenFieldSize := n,
    varLenFields := vs, requiredFieldIDs := rs\<rparr>"
  have "fromDefsFields lay ff d = Ok sd"
    by (simp add: fromDefsFields_def m_def [symmetric] f(1) s sd_def)
  moreover have "wfSizes sd" by (simp add: wfSizes_def sd_def s)
  moreover have "wfIdx sd"
  proof -
    have len: "length idx = Suc (unat m)"
      using fill_fields_Ok(1) [OF f(1)] unat_Suc_max [OF m] by simp
    have "fID (xs ! j) \<le> m" if "j < length xs" for j
    proof -
      have "fID (xs ! j) \<in> set (map fID xs)" using that by auto
      then show ?thesis unfolding ids m_def using maxFieldID_ge by auto
    qed
    moreover have "distinct (map fID xs)" using ids dist by simp
    moreover have "unat (m + 1) = length idx" using len unat_Suc_max [OF m] by simp
    ultimately show ?thesis
      using fill_fields_table [OF f(1) ids dist] len by (simp add: wfIdx_def sd_def)
  qed
  ultimately show ?thesis using f(2) by (auto simp: sd_def)
qed

lemma newStructDesc_wf:
  assumes "supStruct bv env g ff"
  shows "\<exists>sd. newStructDesc lay g ff = Ok sd \<and> wfSd bv env sd \<and>
    list_all2 (describes bv env) ff (sd_fields sd) \<and> sd_zero sd = gs_zero g \<and> sd_rt sd = gs_rt g"
proof -
  note a = assms [unfolded supStruct_def]
  define d where "d = \<lparr>sd_rt = gs_rt g, sd_zero = gs_zero g, maxID = 0, fieldIdx = [], sd_fields = [],
        hasInitFunc = False, initFunc = id, hasUnknownFields = False, unknownFieldsOffset = 0,
        fixedLenFieldSize = 0, varLenFields = [], requiredFieldIDs = []\<rparr>"
  from fromDefsFields_wf [of ff bv env lay d] a obtain sd where
    sd: "fromDefsFields lay ff d = Ok sd" "list_all2 (describes bv env) ff (sd_fields sd)"
      "wfIdx sd" "wfSizes sd" "hasUnknownFields sd = hasUnknownFields d" "sd_zero sd = sd_zero d"
      "sd_rt sd = sd_rt d"
    by blast
  have off: "map fOffset (sd_fields sd) = map F_off ff"
    using sd(2) by (intro nth_equalityI) (auto simp: list_all2_conv_all_nth describes_def)
  have offs: "fOffset ` set (sd_fields sd) = F_off ` set ff"
    using arg_cong [OF off, of set] by simp
  have fields: "\<forall>x\<in>set (sd_fields sd). wfField bv env x"
    using sd(2) by (auto simp: list_all2_conv_all_nth describes_def in_set_conv_nth)
  have dist: "distinct (map fOffset (sd_fields sd))" unfolding off using a by blast
  define d1 where "d1 = (case gs_init g of None \<Rightarrow> sd | Some f \<Rightarrow> sd\<lparr>hasInitFunc := True, initFunc := f\<rparr>)"
  define d2 where "d2 = (case gs_unknown g of Some (r, off) \<Rightarrow>
      if is_byte_slice r then d1\<lparr>hasUnknownFields := True, unknownFieldsOffset := off\<rparr> else d1
    | None \<Rightarrow> d1)"
  have d2: "newStructDesc lay g ff = Ok d2"
    unfolding d2_def d1_def by (simp add: newStructDesc_def d_def [symmetric] sd(1) Let_def)
  have same: "sd_fields d2 = sd_fields sd" "maxID d2 = maxID sd" "fieldIdx d2 = fieldIdx sd"
    "fixedLenFieldSize d2 = fixedLenFieldSize sd" "varLenFields d2 = varLenFields sd"
    "requiredFieldIDs d2 = requiredFieldIDs sd" "sd_zero d2 = gs_zero g" "sd_rt d2 = gs_rt g"
    using sd(6,7) by (auto simp: d2_def d1_def d_def split: option.splits prod.splits)
  have "hasUnknownFields d2 \<longrightarrow> unknownFieldsOffset d2 \<notin> F_off ` set ff"
    using a sd(5) by (auto simp: d2_def d1_def d_def split: option.splits if_splits)
  then have "wfSd bv env d2"
    using sd(3,4) fields dist by (simp add: wfSd_def wfIdx_def wfSizes_def same offs)
  with d2 same sd(2) show ?thesis by auto
qed

text \<open>\<^verbatim>\<open>GetField\<close> finds the field with the id.\<close>

lemma GetField_find:
  assumes "wfIdx d"
  shows "GetField d fid = Ok (find (\<lambda>f. fID f = fid) (sd_fields d))"
proof -
  let ?xs = "sd_fields d" and ?P = "\<lambda>f. fID f = fid"
  note a = assms [unfolded wfIdx_def]
  have none: "find ?P ?xs = None" if "\<And>j. j < length ?xs \<Longrightarrow> fID (?xs ! j) \<noteq> fid"
    using that by (auto simp: find_None_iff in_set_conv_nth)
  show ?thesis
  proof (cases "fid > maxID d")
    case True
    have "find ?P ?xs = None" using a True by (intro none) auto
    with True show ?thesis by (simp add: GetField_def)
  next
    case False
    then have lt: "unat fid < length (fieldIdx d)" using a by (simp add: not_less word_le_nat_alt)
    let ?f = "find (\<lambda>j. unat (fID (?xs ! j)) = unat fid) [0..<length ?xs]"
    have i: "fieldIdx d ! unat fid = (case ?f of None \<Rightarrow> -1 | Some j \<Rightarrow> int j)" using a lt by blast
    show ?thesis
    proof (cases ?f)
      case None
      then have "find ?P ?xs = None" by (intro none) (auto simp: find_None_iff)
      with None i lt False show ?thesis by (simp add: GetField_def)
    next
      case (Some j)
      then have j: "j < length ?xs" "fID (?xs ! j) = fid"
        by (auto simp: find_Some_iff simp flip: word_unat_eq_iff)
      have "find ?P ?xs = Some (?xs ! j)"
        using a j by (auto simp: find_Some_iff distinct_conv_nth intro!: exI [of _ j])
      with Some i lt False j show ?thesis by (simp add: GetField_def)
    qed
  qed
qed

end
