(* ===== verification/Example.thy ===== *)
theory Example
  imports DescCorrect
begin

text \<open>
  A concrete program type to evaluate the model on: what \<^verbatim>\<open>thriftgo\<close> generates for

    struct Node {
      1: required i32 id
      2: optional string name = "n"
      3: list<i64> xs
      4: map<string, Color> m
      5: optional Node next
      6: binary blob
    }

  with \<^verbatim>\<open>-keep-unknown-fields\<close>. Its descriptor is the one \<^verbatim>\<open>newStructDesc\<close> builds.
\<close>

definition go_string :: rtype where "go_string = RBasic K_String [] ''string''"
definition go_int32 :: rtype where "go_int32 = RBasic K_Int32 [] ''int32''"
definition go_Color :: rtype where "go_Color = RBasic K_Int64 ''demo'' ''Color''"
definition go_Node :: rtype where "go_Node = RStruct 0 ''Node''"

definition ty_i32 :: Type where "ty_i32 = Type T_i32 None None go_int32"
definition ty_string :: Type where "ty_string = Type T_string None None go_string"
definition ty_Color :: Type where "ty_Color = Type T_enum None None go_Color"
definition ty_xs :: Type where
  "ty_xs = Type T_list None (Some (Type T_i64 None None i64type)) (RSlice [] i64type)"
definition ty_m :: Type where
  "ty_m = Type T_map (Some ty_string) (Some ty_Color) (RMap [] go_string go_Color)"
definition ty_next :: Type where
  "ty_next = Type T_pointer None (Some (Type T_struct None None go_Node)) (RPtr go_Node)"
definition ty_blob :: Type where "ty_blob = Type T_binary None None (RSlice [] bytetype)"

lemmas ty_defs = ty_i32_def ty_string_def ty_Color_def ty_xs_def ty_m_def ty_next_def ty_blob_def
  go_string_def go_int32_def go_Color_def go_Node_def i64type_def bytetype_def

definition mkField :: "nat \<Rightarrow> nat \<Rightarrow> Type \<Rightarrow> Requiredness \<Rightarrow> gval option \<Rightarrow> Field" where
  "mkField off i ty sp d = \<lparr>F_off = off, F_ID = of_nat i, F_Type = ty, F_NoCopy = False,
     F_Spec = sp, F_Default = d\<rparr>"

definition ex_ff :: "Field list" where
  "ex_ff =
     [mkField 0 1 ty_i32 Required (Some (VI32 0)), mkField 8 2 ty_string Optional (Some (VString [110])),
      mkField 24 3 ty_xs Default (Some (VSlice None)), mkField 48 4 ty_m Default (Some (VMap None)),
      mkField 56 5 ty_next Optional (Some (VPtr None)), mkField 64 6 ty_blob Default (Some (VBytes None))]"

definition node :: "32 word \<Rightarrow> bytes \<Rightarrow> gval list option \<Rightarrow> (gval \<times> gval) list \<Rightarrow> gval option \<Rightarrow> gval" where
  "node i nm xs m nx = VStruct [(0, VI32 i), (8, VString nm), (24, VSlice xs),
     (48, VMap (if m = [] then None else Some (length m, m))), (56, VPtr nx), (64, VBytes None),
     (88, VBytes None)]"

text \<open>Its \<^verbatim>\<open>InitDefault\<close>, from which the resolver takes the default of the name.\<close>

definition node_init :: "gval \<Rightarrow> gval" where
  "node_init v = (case v of VStruct cs \<Rightarrow> VStruct (updField 8 (VString [110]) cs) | _ \<Rightarrow> v)"

definition ex_lay :: "nat \<Rightarrow> nat \<times> nat" where "ex_lay i = (112, 8)"

definition ex_g :: goStruct where
  "ex_g = \<lparr>gs_rt = go_Node, gs_zero = node 0 [] None [] None, gs_init = Some node_init,
     gs_unknown = Some (RSlice [] bytetype, 88)\<rparr>"

definition ex_sd :: structDesc where
  "ex_sd = (case newStructDesc ex_lay ex_g ex_ff of Ok d \<Rightarrow> d | Panic p \<Rightarrow>
     \<lparr>sd_rt = go_Node, sd_zero = VUndef, maxID = 0, fieldIdx = [], sd_fields = [],
      hasInitFunc = False, initFunc = id, hasUnknownFields = False, unknownFieldsOffset = 0,
      fixedLenFieldSize = 0, varLenFields = [], requiredFieldIDs = []\<rparr>)"

definition ex_env :: env where "ex_env i = (if i = 0 then Some ex_sd else None)"

definition ex_t :: tType where
  "ex_t = (case newTType ex_lay ty_next of Ok t \<Rightarrow> t | Panic p \<Rightarrow>
     TType 0 None None 0 0 go_Node 0 0 None False False 0 AppendAny)"

lemma ex_supStruct: "supStruct False ex_env ex_g ex_ff"
  by (simp add: supStruct_def ex_ff_def ex_g_def mkField_def ty_defs supField_def basicTag_def
      Type_IsKeyType_def Type_IsValueType_def ex_env_def confSimple_def rep_type_def ty_deref_def
      abi_kinds_def simpleTypes_def)

lemma ex_newStructDesc: "newStructDesc ex_lay ex_g ex_ff = Ok ex_sd \<and> wfSd False ex_env ex_sd"
  using newStructDesc_wf [OF ex_supStruct, of ex_lay] by (auto simp: ex_sd_def)

lemma ex_wfEnv: "wfEnv False ex_env"
  using ex_newStructDesc by (auto simp: wfEnv_def ex_env_def)

lemma ex_wfT: "wfT False ex_env ex_t"
proof -
  have "supT False ex_env ty_next"
    by (simp add: ty_defs basicTag_def ex_env_def abi_kinds_def)
  from newTType_built [OF this, of ex_lay] show ?thesis by (auto simp: ex_t_def built_def)
qed

text \<open>The descriptors in full, for evaluation.\<close>

definition tt :: "ttype \<Rightarrow> Type \<Rightarrow> nat \<Rightarrow> nat \<Rightarrow> rtype option \<Rightarrow> tType" where
  "tt T ty sz al abi = TType T None None (if T = tENUM then tI32 else T) (ty_T ty) (ty_S ty) sz al abi
     False (simpleTypes T) (typeToSize T) (if T = tSTRUCT then AppendStruct else AppendAny)"

definition tt_i32 :: tType where "tt_i32 = tt tI32 ty_i32 4 4 None"
definition tt_i64 :: tType where "tt_i64 = tt tI64 (Type T_i64 None None i64type) 8 8 None"
definition tt_string :: tType where "tt_string = tt tSTRING ty_string 16 8 (Some go_string)"
definition tt_Color :: tType where "tt_Color = tt tENUM ty_Color 8 8 None"
definition tt_blob :: tType where "tt_blob = tt tSTRING ty_blob 24 8 (Some (RSlice [] bytetype))"
definition tt_xs :: tType where
  "tt_xs = TType tLIST None (Some tt_i64) tLIST T_list (RSlice [] i64type) 24 8
     (Some (RSlice [] i64type)) False False 0 AppendList_I64"
definition tt_m :: tType where
  "tt_m = TType tMAP (Some tt_string) (Some tt_Color) tMAP T_map (RMap [] go_string go_Color) 8 8
     (Some (RMap [] go_string go_Color)) False False 0 (AppendMap mSTRING mENUM)"
definition tt_Node :: tType where
  "tt_Node = tt tSTRUCT (Type T_struct None None go_Node) 112 8 (Some go_Node)"
definition tt_next :: tType where
  "tt_next = TType tSTRUCT None (Some tt_Node) tSTRUCT T_pointer (RPtr go_Node) 8 8
     (Some (RPtr go_Node)) True False 0 AppendStruct"

lemmas tt_defs = tt_def tt_i32_def tt_i64_def tt_string_def tt_Color_def tt_blob_def tt_xs_def
  tt_m_def tt_Node_def tt_next_def

lemma newTType_ex:
  "newTType ex_lay ty_i32 = Ok tt_i32" "newTType ex_lay ty_string = Ok tt_string"
  "newTType ex_lay ty_Color = Ok tt_Color" "newTType ex_lay ty_blob = Ok tt_blob"
  "newTType ex_lay ty_xs = Ok tt_xs" "newTType ex_lay ty_next = Ok tt_next"
  "newTType ex_lay ty_m = Ok tt_m"
  by (simp_all add: newTType.simps ty_defs tt_defs abi_kinds_def pick_AppendFunc_def
      simpleTypes_def typeToSize_def updateListAppendFunc_def updateMapAppendFunc_def ex_lay_def
      listAppendFuncs_def list_registrations_def registerListAppendFunc_def mapAppendFuncs_eq
      mkind_of_def valueTypes_def)

text \<open>Their selectors.\<close>

lemma tt_sels [simp]:
  "tT tt_i32 = tI32" "tTag tt_i32 = T_i32" "tWT tt_i32 = tI32" "tFixedSize tt_i32 = 4"
  "\<not> tIsPointer tt_i32" "tSimpleType tt_i32" "tK tt_i32 = None" "tV tt_i32 = None"
  "tT tt_i64 = tI64" "tTag tt_i64 = T_i64" "tWT tt_i64 = tI64" "tFixedSize tt_i64 = 8"
  "\<not> tIsPointer tt_i64" "tSimpleType tt_i64" "tK tt_i64 = None" "tV tt_i64 = None"
  "tT tt_string = tSTRING" "tTag tt_string = T_string" "tWT tt_string = tSTRING" "tFixedSize tt_string = 0"
  "\<not> tIsPointer tt_string" "tSimpleType tt_string" "tK tt_string = None" "tV tt_string = None"
  "tT tt_Color = tENUM" "tTag tt_Color = T_enum" "tWT tt_Color = tI32" "tFixedSize tt_Color = 4"
  "\<not> tIsPointer tt_Color" "tSimpleType tt_Color" "tK tt_Color = None" "tV tt_Color = None"
  "tT tt_blob = tSTRING" "tTag tt_blob = T_binary" "tWT tt_blob = tSTRING" "tFixedSize tt_blob = 0"
  "\<not> tIsPointer tt_blob" "tSimpleType tt_blob" "tK tt_blob = None" "tV tt_blob = None"
  "tT tt_xs = tLIST" "tTag tt_xs = T_list" "tWT tt_xs = tLIST" "tFixedSize tt_xs = 0"
  "\<not> tIsPointer tt_xs" "\<not> tSimpleType tt_xs" "tK tt_xs = None" "tV tt_xs = Some tt_i64"
  "tT tt_m = tMAP" "tTag tt_m = T_map" "tWT tt_m = tMAP" "tFixedSize tt_m = 0"
  "\<not> tIsPointer tt_m" "\<not> tSimpleType tt_m" "tK tt_m = Some tt_string" "tV tt_m = Some tt_Color"
  "tT tt_Node = tSTRUCT" "tTag tt_Node = T_struct" "tWT tt_Node = tSTRUCT" "tFixedSize tt_Node = 0"
  "\<not> tIsPointer tt_Node" "\<not> tSimpleType tt_Node" "tK tt_Node = None" "tV tt_Node = None"
  "tT tt_next = tSTRUCT" "tTag tt_next = T_pointer" "tWT tt_next = tSTRUCT" "tFixedSize tt_next = 0"
  "tIsPointer tt_next" "\<not> tSimpleType tt_next" "tK tt_next = None" "tV tt_next = Some tt_Node"
  "struct_id (tRT tt_Node) = Some 0" "struct_id (tRT tt_next) = Some 0"
  by (simp_all add: tt_defs ty_defs simpleTypes_def typeToSize_def)

definition mkF :: "nat \<Rightarrow> nat \<Rightarrow> tType \<Rightarrow> Requiredness \<Rightarrow> gval option \<Rightarrow> tField" where
  "mkF off i t sp d = \<lparr>fID = of_nat i, fOffset = off, fType = t, fSpec = sp, fDefault = d,
     fNoCopy = False, fCanSkipEncodeIfNil = (sp = Optional \<and> tTag t = T_pointer),
     fCanSkipIfDefault = (sp = Optional \<and> d \<noteq> None)\<rparr>"

lemma upd_list: "(replicate 7 (-1 :: int))[Suc 0 := 0, 2 := 1, 3 := 2, 4 := 3, 5 := 4, 6 := 5] =
    [-1, 0, 1, 2, 3, 4, 5]"
  by (simp add: eval_nat_numeral)

lemma ex_sd_eq:
  "ex_sd = \<lparr>sd_rt = go_Node, sd_zero = node 0 [] None [] None, maxID = 6,
     fieldIdx = [-1, 0, 1, 2, 3, 4, 5],
     sd_fields = [mkF 0 1 tt_i32 Required (Some (VI32 0)), mkF 8 2 tt_string Optional (Some (VString [110])),
       mkF 24 3 tt_xs Default (Some (VSlice None)), mkF 48 4 tt_m Default (Some (VMap None)),
       mkF 56 5 tt_next Optional None, mkF 64 6 tt_blob Default (Some (VBytes None))],
     hasInitFunc = True, initFunc = node_init, hasUnknownFields = True, unknownFieldsOffset = 88,
     fixedLenFieldSize = 7, varLenFields = [1, 2, 3, 4, 5], requiredFieldIDs = [1]\<rparr>"
  by (simp add: ex_sd_def newStructDesc_def fromDefsFields_def ex_ff_def maxFieldID_def mkField_def
      ex_g_def fill_fields.simps(2) fromDefsField_def newTType_ex mkF_def containerTypes_def
      is_byte_slice_def bytetype_def tField_EncodedSize_def fieldHeaderLen_def upd_list)

lemma ex_t_eq: "ex_t = tt_next"
  by (simp add: ex_t_def newTType_ex)

text \<open>A node with a name, a list, a map and a successor.\<close>

definition ex_v :: gval where
  "ex_v = VPtr (Some (node 7 [97, 98] (Some [VI64 1, VI64 2]) [(VString [107], VI64 3)]
     (Some (node 8 [110] None [] None))))"

lemma four: "4 = Suc (Suc (Suc (Suc 0)))" by simp

lemma ex_conf: "conf True ex_env 4 ex_t ex_v"
  unfolding four
  by (simp add: ex_t_eq ex_v_def node_def Sd_def ex_env_def ex_sd_eq simpleTypes_def
      confFields_def mkF_def confSimple_def)

end
