(* ===== verification/EncodeProps.thy ===== *)
theory EncodeProps
  imports SizeCorrect Frugal Example
begin

text \<open>
  The properties of the encoder: its refinement of the Thrift binary specification and the
  agreement of the size with it, at the entry points and for any value, with witnesses on the
  descriptor of \<open>Example\<close>.
\<close>

definition confObject :: "env \<Rightarrow> nat \<Rightarrow> iface \<Rightarrow> bool" where
  "confObject env n v =
     (case v of
        IfNil \<Rightarrow> False
      | Iface rt c \<Rightarrow>
          (case createStructDesc env rt of
             Inl e \<Rightarrow> False
           | Inr sd \<Rightarrow>
               (case objPtr rt c of
                  Panic p \<Rightarrow> False
                | Ok None \<Rightarrow> True
                | Ok (Some (VStruct cs)) \<Rightarrow> confFields (conf True env n) sd cs
                | Ok (Some w) \<Rightarrow> False)))"

definition specObject :: "env \<Rightarrow> nat \<Rightarrow> iface \<Rightarrow> bytes option" where
  "specObject env n v =
     (case v of
        IfNil \<Rightarrow> None
      | Iface rt c \<Rightarrow>
          (case createStructDesc env rt of
             Inl e \<Rightarrow> None
           | Inr sd \<Rightarrow>
               (case objPtr rt c of
                  Panic p \<Rightarrow> None
                | Ok None \<Rightarrow> Some [tSTOP]
                | Ok (Some (VStruct cs)) \<Rightarrow> specStruct (specV env n) sd cs
                | Ok (Some w) \<Rightarrow> None)))"

lemma confObject_cases:
  assumes "confObject env n v"
  obtains rt c sd p where "v = Iface rt c" "createStructDesc env rt = Inr sd" "objPtr rt c = Ok p"
    "p = None \<or> (\<exists>cs. p = Some (VStruct cs) \<and> confFields (conf True env n) sd cs)"
  using assms
  by (auto simp: confObject_def split: iface.splits sum.splits go.splits option.splits gval.splits)

lemma createStructDesc_wf:
  assumes "wfEnv bv env" "createStructDesc env rt = Inr sd"
  shows "wfSd bv env sd"
  using assms
  by (auto simp: createStructDesc_def find_desc_def wfEnv_def
      split: if_splits go.splits option.splits)

lemma Append_object:
  assumes env: "wfEnv bv env" and c: "confObject env n v"
  shows "\<exists>bs. specObject env n v = Some bs \<and> (\<forall>k\<ge>n. \<forall>b. Append k env b v = FOk (b @ bs))"
  using c
proof (cases rule: confObject_cases)
  case (1 rt cl sd p)
  from 1(4) show ?thesis
  proof
    assume "p = None"
    with 1 show ?thesis by (auto simp: specObject_def Append_def appendStruct_def)
  next
    assume "\<exists>cs. p = Some (VStruct cs) \<and> confFields (conf True env n) sd cs"
    then obtain cs where cs: "p = Some (VStruct cs)" "confFields (conf True env n) sd cs" by blast
    from enc_fields [OF createStructDesc_wf [OF env 1(2)] cs(2)] enc_all [OF env]
    obtain bs where "specStruct (specV env n) sd cs = Some bs"
      "\<forall>k\<ge>n. \<forall>b. appendStruct (runAppend k env) (Ok sd) b (Some (VStruct cs)) = AOk (b @ bs)" by blast
    with 1 cs show ?thesis by (simp add: specObject_def Append_def)
  qed
qed

lemma EncodedSize_object:
  assumes env: "wfEnv False env" and c: "confObject env n v" and sp: "specObject env n v = Some bs"
    and k: "n \<le> k"
  shows "EncodedSize k env v = Ok (length bs)"
  using c
proof (cases rule: confObject_cases)
  case (1 rt cl sd p)
  from 1(4) show ?thesis
  proof
    assume "p = None"
    with 1 sp show ?thesis by (auto simp: specObject_def EncodedSize_def tType_EncodedSize_def)
  next
    assume "\<exists>cs. p = Some (VStruct cs) \<and> confFields (conf True env n) sd cs"
    then obtain cs where cs: "p = Some (VStruct cs)" "confFields (conf True env n) sd cs" by blast
    have sd: "wfSd False env sd" by (rule createStructDesc_wf [OF env 1(2)])
    have fs: "specStruct (specV env n) sd cs = Some bs" using sp 1 cs by (simp add: specObject_def)
    have "size_ok env n (fType f) v" if "f \<in> set (sd_fields sd)" "conf True env n (fType f) v" for f v
      using sd that by (intro size_all [OF env]) (auto simp: wfSd_def wfField_def)
    from size_fields [OF sd cs(2) this fs k] 1 cs show ?thesis by (simp add: EncodedSize_def)
  qed
qed

lemma EncodeObject_fits:
  assumes "Append k env [] v = FOk bs" "length bs \<le> length buf"
  shows "EncodeObject k env buf v = EObj (length bs) None (Some (bs @ drop (length bs) buf))"
  using assms by (simp add: EncodeObject_def Let_def)

text \<open>
  C1. The contract of the API: on a conforming object, \<^verbatim>\<open>EncodedSize\<close> returns the length of
  the object's Thrift binary encoding, and \<^verbatim>\<open>EncodeObject\<close> into a buffer of at least that
  size writes exactly that encoding, returns its length and no error.
\<close>

theorem EncodeObject_correct:
  assumes "wfEnv False env" "confObject env n v" "n \<le> k"
  shows "\<exists>bs. specObject env n v = Some bs \<and> EncodedSize k env v = Ok (length bs) \<and>
    (\<forall>buf. length bs \<le> length buf \<longrightarrow>
       EncodeObject k env buf v = EObj (length bs) None (Some (bs @ drop (length bs) buf)))"
  using Append_object [OF assms(1,2)] EncodedSize_object [OF assms(1,2) _ assms(3)]
    EncodeObject_fits assms(3) by fastforce

lemma ex_confObject: "confObject ex_env 4 (Iface (RPtr go_Node) ex_v)"
  unfolding four
  by (simp add: confObject_def createStructDesc_def find_desc_def go_Node_def objPtr_def ex_v_def
      ex_env_def ex_sd_eq node_def confFields_def mkF_def confSimple_def simpleTypes_def Sd_def)

theorem EncodeObject_correct_witness:
  "\<exists>bs. specObject ex_env 4 (Iface (RPtr go_Node) ex_v) = Some bs \<and>
     EncodedSize 4 ex_env (Iface (RPtr go_Node) ex_v) = Ok (length bs) \<and>
     (\<forall>buf. length bs \<le> length buf \<longrightarrow>
        EncodeObject 4 ex_env buf (Iface (RPtr go_Node) ex_v) =
          EObj (length bs) None (Some (bs @ drop (length bs) buf)))"
  by (rule EncodeObject_correct [OF ex_wfEnv ex_confObject order_refl])

end
