(* ===== verification/MapTypes.thy ===== *)
theory MapTypes
  imports DescCorrect
begin

text \<open>
  The map types \<^verbatim>\<open>newTType\<close> builds for any type the tag parser returns (\<open>valid_Type\<close>), those
  left out of \<open>supT\<close> included, and what becomes of a pointer to a list or a map.
\<close>

subsection \<open>What newTType sets\<close>

lemma valid_tag: "valid_Type ty \<Longrightarrow> Type_IsEnum ty = Ok (ttype_of ty = tENUM) \<and>
    Type_Tag ty = Ok (if ttype_of ty = tENUM then tI32 else ttype_of ty)"
  by (induction ty rule: valid_Type.induct) (auto split: option.splits if_splits)

lemma valid_ttype: "valid_Type ty \<Longrightarrow> ttype_of ty \<in> set valueTypes"
  by (induction ty rule: valid_Type.induct) (auto simp: valueTypes_def split: option.splits if_splits)

lemma newTType_sel:
  assumes "valid_Type ty" "newTType lay ty = Ok t"
  shows "tT t = ttype_of ty" "tTag t = ty_T ty" "tIsPointer t \<longleftrightarrow> ty_T ty = T_pointer"
    "tSimpleType t = simpleTypes (tT t)" "tRT t = ty_S ty"
  using assms valid_tag [OF assms(1)]
  by (cases ty; force simp: newTType.simps Let_def simp del: ttype_of.simps split: if_splits)+

lemma newTType_keyOK:
  assumes "valid_Type ty" "Type_IsKeyType ty = Ok True" "newTType lay ty = Ok t"
  shows "keyOK t"
  using assms(2) newTType_sel [OF assms(1,3)]
  by (cases ty) (auto simp: Type_IsKeyType_def keyOK_def ty_deref_def ttype_of_struct simpleTypes_def
      split: option.splits if_splits)

lemma newTType_elemOK:
  assumes "valid_Type ty" "Type_IsValueType ty = Ok True" "newTType lay ty = Ok t"
  shows "elemOK t"
  using assms(2) newTType_sel [OF assms(1,3)]
  by (cases ty) (auto simp: Type_IsValueType_def elemOK_def ty_deref_def ttype_of_struct
      split: option.splits)

lemma newTType_mapType:
  assumes "valid_Type ty" "ty_T ty = T_map" "newTType lay ty = Ok t"
  obtains kt vt where "mapType t kt vt" "tT t = tMAP"
proof -
  from assms(1,2) obtain k v s where ty: "ty = Type T_map (Some k) (Some v) s"
    "valid_Type k" "valid_Type v" "Type_IsKeyType k = Ok True" "Type_IsValueType v = Ok True"
    by (cases ty) (auto split: option.splits)
  from assms(3) obtain kt vt where kv: "newTType lay k = Ok kt" "newTType lay v = Ok vt"
    "tK t = Some kt" "tV t = Some vt" "pick_AppendFunc tMAP (Some kt) (Some vt) = Ok (tAppendFunc t)"
    unfolding ty(1) by (auto simp: newTType.simps Let_def)
  have sk: "tT kt \<in> set valueTypes" "tT vt \<in> set valueTypes"
    using valid_ttype ty(2,3) newTType_sel(1) kv(1,2) by simp_all
  have "tTag vt = T_binary \<longrightarrow> tT vt = tSTRING"
    using newTType_sel(1,2) [OF ty(3) kv(2)] by (cases v) simp
  then have "mapType t kt vt"
    using kv pick_map [OF sk] sk(2) newTType_keyOK [OF ty(2,4) kv(1)] newTType_elemOK [OF ty(3,5) kv(2)]
      newTType_sel(4) [OF ty(2) kv(1)] newTType_sel(4) [OF ty(3) kv(2)]
    by (simp add: mapType_def)
  moreover have "tT t = tMAP" using newTType_sel(1) [OF assms(1,3)] by (simp add: ty(1))
  ultimately show thesis by (rule that)
qed

subsection \<open>A pointer to a list or a map\<close>

text \<open>
  A finding. The parser accepts a pointer to a list as the type of a field. \<^verbatim>\<open>newTType\<close> gives
  the pointer the wire type of the list, but takes \<^verbatim>\<open>t.V\<close>, the list type, for the type of the
  elements: the function it installs writes lists of lists. An empty list gets a header with
  the element type \<^verbatim>\<open>list\<close>, and the scalars of any other are read as slice headers.
\<close>

lemma pointer_to_list_type:
  assumes "valid_Type v" "ty_T v = T_list" "newTType lay (Type T_pointer None (Some v) s) = Ok t"
  shows "\<exists>l. newTType lay v = Ok l \<and> tT l = tLIST \<and> \<not> tIsPointer l \<and> tWT l = tLIST \<and>
    tV t = Some l \<and> tIsPointer t \<and> tT t = tLIST \<and> tAppendFunc t = AppendList_Other"
proof -
  have T: "ttype_of v = tLIST" using assms(2) by (cases v) simp
  from assms(3) obtain l where l: "newTType lay v = Ok l" by (auto simp: newTType.simps Let_def)
  note sel = newTType_sel [OF assms(1) l]
  have "tWT l = tLIST" using l valid_tag [OF assms(1)] T
    by (cases v) (auto simp: newTType.simps Let_def simp del: ttype_of.simps split: if_splits)
  moreover have "pick_AppendFunc tLIST K (Some l) = Ok AppendList_Other" for K
    using pick_list [of tLIST K l] sel(1) T by (simp add: listFn_of_def)
  ultimately show ?thesis
    using assms(3) l sel T assms(2) valid_tag [OF assms(1)]
    by (auto simp: newTType.simps Let_def split: if_splits)
qed

lemma list_type_fn:
  assumes "valid_Type v" "ty_T v = T_list" "newTType lay v = Ok l"
  obtains et where "tV l = Some et" "tAppendFunc l = listFn_of (tT et)"
proof -
  from assms(1,2) obtain k w s where w: "v = Type T_list k (Some w) s"
    by (cases v) (auto split: option.splits)
  from assms(3) obtain et K where et: "tV l = Some et" "pick_AppendFunc tLIST K (Some et) = Ok (tAppendFunc l)"
    unfolding w by (auto simp: newTType.simps Let_def)
  then have "tAppendFunc l = listFn_of (tT et)" using pick_list [of tLIST _ et] by auto
  with et(1) show thesis by (rule that)
qed

lemma listFn_not_slice:
  "tV l = Some et \<Longrightarrow> ldIsNil p = Panic e \<Longrightarrow> listFn f call l b p = APanic e"
  by (cases f) (simp_all add: appendList_defs appendList_with_def appendListHeader_def)

lemma pointer_to_list_misread:
  assumes "valid_Type v" "ty_T v = T_list" "newTType lay (Type T_pointer None (Some v) s) = Ok t"
  shows "runAppend (Suc n) env t b (Some (VSlice (Some []))) = AOk (b @ [tLIST, 0, 0, 0, 0])"
    and "ldIsNil (Some x) = Panic BadMemory \<Longrightarrow> Suc (length xs) < 2 ^ 32 \<Longrightarrow>
      runAppend (Suc (Suc n)) env t b (Some (VSlice (Some (x # xs)))) = APanic BadMemory"
proof -
  from pointer_to_list_type [OF assms] obtain l where l: "newTType lay v = Ok l" "\<not> tIsPointer l"
    "tWT l = tLIST" "tV t = Some l" "tAppendFunc t = AppendList_Other" by blast
  show "runAppend (Suc n) env t b (Some (VSlice (Some []))) = AOk (b @ [tLIST, 0, 0, 0, 0])"
    using l by (simp add: appendList_Other_def appendList_with_def appendListHeader_def Let_def)
  assume x: "ldIsNil (Some x) = Panic BadMemory" and len: "Suc (length xs) < 2 ^ 32"
  obtain et where et: "tV l = Some et" "tAppendFunc l = listFn_of (tT et)"
    by (rule list_type_fn [OF assms(1,2) l(1)])
  have "runAppend (Suc n) env l b' (Some x) = APanic BadMemory" for b'
    unfolding listFn_run [OF et(2)] by (rule listFn_not_slice [OF et(1) x])
  moreover have "unat (of_nat (Suc (length xs)) :: 32 word) = Suc (length xs)"
    by (rule unat_of_nat_lt) (use len in simp)
  moreover from this have "(of_nat (Suc (length xs)) :: 32 word) \<noteq> 0" by (metis nat.distinct(1) unat_0)
  ultimately show "runAppend (Suc (Suc n)) env t b (Some (VSlice (Some (x # xs)))) = APanic BadMemory"
    unfolding runAppend.simps(2) [of "Suc n"] l(5) Let_def appendFn.case
    using l by (simp add: appendList_Other_def appendList_with_def appendListHeader_def Let_def
        callOther_def del: runAppend.simps of_nat_Suc)
qed

text \<open>For a pointer to a map \<^verbatim>\<open>t.K\<close> is nil, and \<^verbatim>\<open>newTType\<close> panics.\<close>

lemma pointer_to_map_panics:
  assumes "valid_Type v" "ty_T v = T_map"
  shows "\<exists>e. newTType lay (Type T_pointer None (Some v) s) = Panic e"
proof (cases "newTType lay v")
  case (Ok m)
  have T: "ttype_of v = tMAP" using assms(2) by (cases v) simp
  have "pick_AppendFunc tMAP None V = Panic NilDeref" for V
    by (simp add: pick_AppendFunc_def updateMapAppendFunc_def tt_deref_def)
  then show ?thesis using Ok T valid_tag [OF assms(1)]
    by (simp add: newTType.simps Let_def del: ttype_of.simps)
next
  case (Panic e)
  then show ?thesis using valid_tag [OF assms(1)]
    by (simp add: newTType.simps Let_def del: ttype_of.simps)
qed

end
