(* ===== verification/EncodeBehaviour.thy ===== *)
theory EncodeBehaviour
  imports EncodeProps MapTypes
begin

text \<open>
  More properties of the encoder: appending to any buffer, buffers that are too short, the
  specialised functions against the generic ones, the registration tables, a map that changes
  during encoding, and a case where size and encoder disagree.
\<close>

text \<open>
  C8. \<^verbatim>\<open>Append\<close> refines the wire specification: on a conforming object (struct values by
  value included) it extends whatever the buffer holds by exactly the object's encoding.
\<close>

theorem Append_correct:
  assumes "wfEnv bv env" "confObject env n v" "n \<le> k"
  shows "\<exists>bs. specObject env n v = Some bs \<and> Append k env b v = FOk (b @ bs)"
  using Append_object [OF assms(1,2)] assms(3) by blast

theorem Append_correct_witness:
  "\<exists>bs. specObject ex_env 4 (Iface (RPtr go_Node) ex_v) = Some bs \<and>
     Append 4 ex_env [1, 2, 3] (Iface (RPtr go_Node) ex_v) = FOk ([1, 2, 3] @ bs)"
  by (rule Append_correct [OF ex_wfEnv ex_confObject order_refl])

text \<open>
  C9. A buffer that is too short: \<^verbatim>\<open>EncodeObject\<close> reports it, with the length needed, and
  claims no byte as written.
\<close>

theorem EncodeObject_short:
  assumes "wfEnv bv env" "confObject env n v" "n \<le> k" "specObject env n v = Some bs"
    "length buf < length bs"
  shows "EncodeObject k env buf v = EObj 0 (Some (ErrBufferTooSmall (length bs) (length buf))) None"
  using Append_object [OF assms(1,2)] assms(3-5) by (auto simp: EncodeObject_def Let_def)

text \<open>The encoding of the empty example node: the fields in order and the stop byte.\<close>

definition ex_node0 :: iface where
  "ex_node0 = Iface (RPtr go_Node) (VPtr (Some (node 5 [110] None [] None)))"

lemma ex_node0_spec: "confObject ex_env 2 ex_node0 \<and> specObject ex_env 2 ex_node0 =
    Some [8, 0, 1, 0, 0, 0, 5, 15, 0, 3, 10, 0, 0, 0, 0, 13, 0, 4, 11, 8, 0, 0, 0, 0,
      11, 0, 6, 0, 0, 0, 0, 0]"
proof -
  have two: "2 = Suc (Suc 0)" by simp
  show ?thesis
    unfolding two
    by (simp add: confObject_def specObject_def ex_node0_def createStructDesc_def find_desc_def
        go_Node_def objPtr_def ex_env_def ex_sd_eq node_def confFields_def mkF_def confSimple_def
        simpleTypes_def specStruct_def specField_eq field_skipped_def tType_Equal_def ld_eq_def
        specSimple_eq wire32_eq appendUint32_def appendFieldHeader_def specUnknown_def)
qed

theorem EncodeObject_short_witness:
  "EncodeObject 2 ex_env [0, 0, 0] ex_node0 = EObj 0 (Some (ErrBufferTooSmall 32 3)) None"
  using EncodeObject_short [OF ex_wfEnv ex_node0_spec [THEN conjunct1] order_refl
      ex_node0_spec [THEN conjunct2], of "[0, 0, 0]"] by simp

subsection \<open>Specialised and generic functions\<close>

text \<open>
  C10. The specialised map encoders are equivalent to the generic one, but for binaries. For
  every map type the tag parser accepts, on a map whose scalars have their types, the function
  \<^verbatim>\<open>newTType\<close> installs out of the 64 gives the same buffer, error or panic as
  \<^verbatim>\<open>appendMapAnyAny\<close>, also when the map changes under the encoder; except that a map from a
  scalar or a string to \<^verbatim>\<open>binary\<close> with an entry to write is ranged over as a map to \<^verbatim>\<open>string\<close>,
  whose slots are smaller, so that the encoder reads memory that is not a string.
\<close>

theorem appendMap_fast_equiv:
  assumes "valid_Type ty" "ty_T ty = T_map" "newTType lay ty = Ok t"
    "tK t = Some kt" "tV t = Some vt"
    "\<And>cnt kvs k v. simpleTypes (tT kt) \<Longrightarrow> simpleTypes (tT vt) \<Longrightarrow>
      ldMap p = Ok (cnt, kvs) \<Longrightarrow> (k, v) \<in> set kvs \<Longrightarrow>
      confSimple True kt k \<and> confSimple True vt v"
  shows "runAppend (Suc n) env t b p =
    (if simpleTypes (tT kt) \<and> tTag vt = T_binary \<and> visible p then APanic BadMemory
     else appendMapAnyAny (runAppend n env) t b p)"
proof -
  obtain kt' vt' where "mapType t kt' vt'" by (rule newTType_mapType [OF assms(1-3)])
  with assms(4,5) have t: "mapType t kt vt" by (simp add: mapType_def)
  show ?thesis
  proof (cases "simpleTypes (tT kt) \<and> tTag vt = T_binary")
    case True
    then have "simpleTypes (tT vt)" using t by (simp add: mapType_def simpleTypes_def)
    with mapType_binary [OF t] assms(6) True show ?thesis by simp
  next
    case False
    with mapType_generic [OF t] assms(6) show ?thesis by auto
  qed
qed

lemma ex_wfT_m: "wfT False ex_env tt_m"
proof -
  have "supT False ex_env ty_m"
    by (simp add: ty_defs basicTag_def abi_kinds_def Type_IsKeyType_def Type_IsValueType_def)
  from newTType_built [OF this, of ex_lay] show ?thesis by (auto simp: newTType_ex built_def)
qed

lemma ex_wfT_xs: "wfT False ex_env tt_xs"
proof -
  have "supT False ex_env ty_xs"
    by (simp add: ty_defs basicTag_def abi_kinds_def Type_IsValueType_def)
  from newTType_built [OF this, of ex_lay] show ?thesis by (auto simp: newTType_ex built_def)
qed

text \<open>The type \<^verbatim>\<open>map[string][]byte\<close>.\<close>

definition ty_sb :: Type where
  "ty_sb = Type T_map (Some ty_string) (Some ty_blob) (RMap [] go_string (RSlice [] bytetype))"

definition tt_sb :: tType where
  "tt_sb = TType tMAP (Some tt_string) (Some tt_blob) tMAP T_map (RMap [] go_string (RSlice [] bytetype))
     8 8 (Some (RMap [] go_string (RSlice [] bytetype))) False False 0 (AppendMap mSTRING mSTRING)"

lemma ex_newTType_sb: "newTType ex_lay ty_sb = Ok tt_sb"
  by (simp add: newTType.simps ty_sb_def tt_sb_def ty_defs tt_defs abi_kinds_def pick_AppendFunc_def
      simpleTypes_def typeToSize_def updateMapAppendFunc_def mapAppendFuncs_eq valueTypes_def mkind_of_def)

theorem appendMap_fast_equiv_witness:
  "runAppend (Suc 0) ex_env tt_m [] (Some (VMap (Some (2, [(VString [107], VI64 3)])))) =
     appendMapAnyAny (runAppend 0 ex_env) tt_m [] (Some (VMap (Some (2, [(VString [107], VI64 3)])))) \<and>
   runAppend (Suc 0) ex_env tt_sb [] (Some (VMap (Some (1, [(VString [107], VBytes (Some [7]))])))) =
     APanic BadMemory"
proof
  let ?p = "Some (VMap (Some (2, [(VString [107], VI64 3)])))"
  have m: "valid_Type ty_m" "ty_T ty_m = T_map" "tK tt_m = Some tt_string" "tV tt_m = Some tt_Color"
    by (simp_all add: ty_defs Type_IsKeyType_def Type_IsValueType_def)
  have c: "confSimple True tt_string k \<and> confSimple True tt_Color v"
    if "ldMap ?p = Ok (cnt, kvs)" "(k, v) \<in> set kvs" for cnt kvs k v
    using that by (auto simp: confSimple_def)
  have "runAppend (Suc 0) ex_env tt_m [] ?p =
    (if simpleTypes (tT tt_string) \<and> tTag tt_Color = T_binary \<and> visible ?p then APanic BadMemory
     else appendMapAnyAny (runAppend 0 ex_env) tt_m [] ?p)"
    by (rule appendMap_fast_equiv [OF m(1,2) newTType_ex(7) m(3,4)]) (rule c)
  then show "runAppend (Suc 0) ex_env tt_m [] ?p = appendMapAnyAny (runAppend 0 ex_env) tt_m [] ?p"
    by (simp del: runAppend.simps)
next
  let ?p = "Some (VMap (Some (1, [(VString [107], VBytes (Some [7]))])))"
  have m: "valid_Type ty_sb" "ty_T ty_sb = T_map" "tK tt_sb = Some tt_string" "tV tt_sb = Some tt_blob"
    by (simp_all add: ty_sb_def tt_sb_def ty_defs Type_IsKeyType_def Type_IsValueType_def)
  have c: "confSimple True tt_string k \<and> confSimple True tt_blob v"
    if "ldMap ?p = Ok (cnt, kvs)" "(k, v) \<in> set kvs" for cnt kvs k v
    using that by (auto simp: confSimple_def)
  have "runAppend (Suc 0) ex_env tt_sb [] ?p =
    (if simpleTypes (tT tt_string) \<and> tTag tt_blob = T_binary \<and> visible ?p then APanic BadMemory
     else appendMapAnyAny (runAppend 0 ex_env) tt_sb [] ?p)"
    by (rule appendMap_fast_equiv [OF m(1,2) ex_newTType_sb m(3,4)]) (rule c)
  then show "runAppend (Suc 0) ex_env tt_sb [] ?p = APanic BadMemory"
    by (simp add: visible_def simpleTypes_def del: runAppend.simps)
qed

text \<open>
  C11. The specialised list and set encoders are equivalent to the generic loop over
  \<^verbatim>\<open>appendAny\<close>, for every list or set type and whatever the pointer points to.
\<close>

theorem appendList_fast_equiv:
  assumes "wfT bv env t" "tT t = tLIST \<or> tT t = tSET"
  shows "runAppend (Suc n) env t b p = appendListAny (runAppend n env) t b p"
  by (rule listRun_generic [OF assms])

theorem appendList_fast_equiv_witness:
  "\<forall>p. runAppend (Suc 0) ex_env tt_xs [9] p = appendListAny (runAppend 0 ex_env) tt_xs [9] p"
  using appendList_fast_equiv [OF ex_wfT_xs, of 0 "[9]"] by simp

text \<open>
  C13. The registration tables are complete and right: for each pair of value types the map
  table holds the function of the two types' kinds and nothing for any other pair, so the
  generic map encoder is never needed; for lists, only \<^verbatim>\<open>bool\<close> elements fall back to the
  generic loop.
\<close>

theorem registration_tables:
  "mapAppendFuncs (k, v) =
     (if k \<in> set valueTypes \<and> v \<in> set valueTypes
      then Some (AppendMap (mkind_of k) (mkind_of v)) else None) \<and>
   (case listAppendFuncs t of Some f \<Rightarrow> f | None \<Rightarrow> AppendListAny) = listFn_of t"
  using mapAppendFuncs_eq listAppendFuncs_eq by blast

subsection \<open>A map that changes\<close>

lemma map_loop_count:
  assumes env: "wfEnv bv env" and wf: "wfT bv env t" and T: "tT t = tMAP"
    and kv: "tK t = Some kt" "tV t = Some vt"
    and c: "\<And>kv. kv \<in> set kvs \<Longrightarrow> conf True env n kt (fst kv) \<and> conf True env n vt (snd kv)"
    and n: "n \<le> m"
  shows "\<exists>b'. iterLoop (pairBody (appendAny (runAppend m env)) (appendAny (runAppend m env)) t) kvs w b =
    (if w = of_nat (length kvs) then AOk b' else AErr b' MapSizeChanged)"
proof (rule iterLoop_count)
  fix k v b assume "(k, v) \<in> set kvs"
  from c [OF this] have k: "conf True env n kt k" "conf True env n vt v" by simp_all
  obtain kt' vt' where "tK t = Some kt'" "tV t = Some vt'" "wfT bv env kt'" "wfT bv env vt'"
    using wfT_map [OF wf T] by metis
  with kv have "wfT bv env kt" "wfT bv env vt" by simp_all
  with k enc_all [OF env] have "enc_ok env n kt k" "enc_ok env n vt v" by blast+
  from enc_pair [OF kv this] n
  show "\<exists>b'. pairBody (appendAny (runAppend m env)) (appendAny (runAppend m env)) t b (Some k) (Some v) = AOk b'"
    by blast
qed

text \<open>
  C12. A map that changes while it is encoded, for the well-formed map types (those of C10
  without the binaries). When the count read for the header is 0 modulo \<^verbatim>\<open>2^32\<close>, the width of
  the counter, the encoder writes the header and does not look at the entries: a change is not
  noticed. Otherwise it returns the error \<^verbatim>\<open>errMapSizeChanged\<close> exactly when the count is not the
  number of entries the iteration then visits, again modulo \<^verbatim>\<open>2^32\<close>.
\<close>

theorem map_changed_error:
  assumes "wfEnv bv env" "wfT bv env t" "tT t = tMAP" "tK t = Some kt" "tV t = Some vt"
    "simpleTypes (tT kt) \<and> simpleTypes (tT vt) \<longrightarrow>
       (\<forall>kv\<in>set kvs. confSimple True kt (fst kv) \<and> confSimple True vt (snd kv))"
    "\<And>kv. kv \<in> set kvs \<Longrightarrow> conf True env n kt (fst kv) \<and> conf True env n vt (snd kv)"
    "n \<le> m"
  shows "\<exists>b'. runAppend (Suc m) env t b (Some (VMap (Some (cnt, kvs)))) =
    (if (of_nat cnt :: 32 word) = 0 then AOk (b @ [tWT kt, tWT vt, 0, 0, 0, 0])
     else if (of_nat cnt :: 32 word) = of_nat (length kvs) then AOk b' else AErr b' MapSizeChanged)"
proof -
  have run: "runAppend (Suc m) env t b (Some (VMap (Some (cnt, kvs)))) =
      appendMapAnyAny (runAppend m env) t b (Some (VMap (Some (cnt, kvs))))"
    using assms(4-6) by (intro mapFast_generic [OF assms(2,3)]) fastforce
  show ?thesis
  proof (cases "(of_nat cnt :: 32 word) = 0")
    case True
    then show ?thesis
      using assms(4,5) unfolding run
      by (simp add: appendMapAnyAny_def iterMap_def appendMapHeader_def Let_def)
  next
    case False
    have "appendMapAnyAny (runAppend m env) t b (Some (VMap (Some (cnt, kvs)))) =
      iterLoop (pairBody (appendAny (runAppend m env)) (appendAny (runAppend m env)) t) kvs
      (of_nat cnt) (b @ [tWT kt, tWT vt, ucast (drop_bit 24 (of_nat cnt :: 32 word)),
        ucast (drop_bit 16 (of_nat cnt :: 32 word)), ucast (drop_bit 8 (of_nat cnt :: 32 word)),
        ucast (of_nat cnt :: 32 word)])"
      using assms(4,5) False
      by (simp add: appendMapAnyAny_def iterMap_def appendMapHeader_def Let_def)
    then show ?thesis unfolding run using map_loop_count [OF assms(1-5) assms(7,8)] False by simp
  qed
qed

theorem map_changed_error_witness:
  "\<exists>b'. runAppend 2 ex_env tt_m [] (Some (VMap (Some (2, [(VString [107], VI64 3)])))) =
     AErr b' MapSizeChanged"
proof -
  let ?kvs = "[(VString [107], VI64 3)]"
  have two: "2 = Suc (Suc 0)" by simp
  have tm: "tT tt_m = tMAP" "tK tt_m = Some tt_string" "tV tt_m = Some tt_Color" by simp_all
  have c: "conf True ex_env (Suc 0) tt_string (VString [107])" "conf True ex_env (Suc 0) tt_Color (VI64 3)"
    by (simp_all add: confSimple_def simpleTypes_def)
  have s: "\<forall>kv\<in>set ?kvs. confSimple True tt_string (fst kv) \<and> confSimple True tt_Color (snd kv)"
    by (simp add: confSimple_def)
  have w: "(of_nat 2 :: 32 word) \<noteq> of_nat (length ?kvs)" "(of_nat 2 :: 32 word) \<noteq> 0" by simp_all
  have "\<exists>b'. runAppend (Suc (Suc 0)) ex_env tt_m [] (Some (VMap (Some (2, ?kvs)))) =
    (if (of_nat 2 :: 32 word) = 0 then AOk ([] @ [tWT tt_string, tWT tt_Color, 0, 0, 0, 0])
     else if (of_nat 2 :: 32 word) = of_nat (length ?kvs) then AOk b' else AErr b' MapSizeChanged)"
    by (rule map_changed_error [OF ex_wfEnv ex_wfT_m tm, where n = "Suc 0"])
       (use c s w in simp_all)
  with w show ?thesis unfolding two by simp
qed

subsection \<open>Structs by value\<close>

text \<open>
  C14. A finding. A list of structs by value is accepted by the resolver and encoded, but
  \<^verbatim>\<open>EncodedSize\<close> takes the first word of each struct for a pointer and reads through it,
  though the type is not a pointer.
\<close>

theorem size_of_struct_by_value:
  assumes "wfEnv True env" "wfT True env t" "tT t = tLIST" "tV t = Some et" "tT et = tSTRUCT"
    "\<not> tIsPointer et" "conf True env n t (VSlice (Some (VStruct cs # vs)))" "n \<le> k"
  shows "(\<exists>bs. appendAny (runAppend k env) t b (Some (VSlice (Some (VStruct cs # vs)))) = AOk (b @ bs)) \<and>
    runSize (Suc (Suc m)) env t (Some (VSlice (Some (VStruct cs # vs)))) = SPanic BadMemory"
proof -
  have "enc_ok env n t (VSlice (Some (VStruct cs # vs)))"
    using enc_all [OF assms(1)] assms(2,7) by blast
  with assms(8) have enc: "\<exists>bs. appendAny (runAppend k env) t b (Some (VSlice (Some (VStruct cs # vs)))) =
      AOk (b @ bs)"
    unfolding enc_ok_def by blast
  have "wfT True env et" using wfT_list [OF assms(2)] assms(3,4) by (metis option.inject)
  then have "tFixedSize et = 0"
    using assms(5) by (simp add: wfT_fixed_sel typeToSize_def)
  with assms(3-6) have "runSize (Suc (Suc m)) env t (Some (VSlice (Some (VStruct cs # vs)))) =
      SPanic BadMemory"
    by (simp add: encodedListSize_def sizeElem_def tType_EncodedSize_def)
  with enc show ?thesis by blast
qed

text \<open>The type \<^verbatim>\<open>[]Node\<close>.\<close>

definition ty_nodes :: Type where
  "ty_nodes = Type T_list None (Some (Type T_struct None None go_Node)) (RSlice [] go_Node)"

definition tt_nodes :: tType where
  "tt_nodes = TType tLIST None (Some tt_Node) tLIST T_list (RSlice [] go_Node) 24 8
     (Some (RSlice [] go_Node)) False False 0 AppendList_Other"

lemma ex_wfT_nodes: "wfT True ex_env tt_nodes"
proof -
  have "supT True ex_env ty_nodes"
    by (simp add: ty_nodes_def ty_defs basicTag_def abi_kinds_def Type_IsValueType_def ex_env_def)
  moreover have "newTType ex_lay ty_nodes = Ok tt_nodes"
    by (simp add: newTType.simps ty_nodes_def tt_nodes_def ty_defs tt_defs abi_kinds_def
        pick_AppendFunc_def simpleTypes_def typeToSize_def updateListAppendFunc_def ex_lay_def
        listAppendFuncs_def list_registrations_def registerListAppendFunc_def)
  ultimately show ?thesis using newTType_built [of True ex_env ty_nodes ex_lay] by (auto simp: built_def)
qed

lemma ex_wfEnv_bv: "wfEnv True ex_env"
proof -
  have "supStruct True ex_env ex_g ex_ff"
    by (simp add: supStruct_def ex_ff_def ex_g_def mkField_def ty_defs supField_def basicTag_def
        Type_IsKeyType_def Type_IsValueType_def ex_env_def confSimple_def rep_type_def ty_deref_def
        abi_kinds_def simpleTypes_def)
  from newStructDesc_wf [OF this, of ex_lay] ex_newStructDesc
  have "wfSd True ex_env ex_sd" by auto
  then show ?thesis by (simp add: wfEnv_def ex_env_def)
qed

theorem size_of_struct_by_value_witness:
  "\<exists>v bs. appendAny (runAppend 3 ex_env) tt_nodes [] (Some v) = AOk ([] @ bs) \<and>
     runSize 3 ex_env tt_nodes (Some v) = SPanic BadMemory"
proof -
  obtain cs where cs: "node 5 [110] None [] None = VStruct cs" by (simp add: node_def)
  have three: "3 = Suc (Suc 1)" by simp
  have c: "conf True ex_env (Suc (Suc 1)) tt_nodes (VSlice (Some (VStruct cs # [])))"
    unfolding cs [symmetric]
    by (simp add: tt_nodes_def simpleTypes_def Sd_def ex_env_def node_def confFields_def ex_sd_eq
        mkF_def confSimple_def)
  have "(\<exists>bs. appendAny (runAppend (Suc (Suc 1)) ex_env) tt_nodes [] (Some (VSlice (Some (VStruct cs # [])))) =
      AOk ([] @ bs)) \<and>
    runSize (Suc (Suc 1)) ex_env tt_nodes (Some (VSlice (Some (VStruct cs # [])))) = SPanic BadMemory"
    by (rule size_of_struct_by_value [OF ex_wfEnv_bv ex_wfT_nodes _ _ _ _ c, of tt_Node])
       (simp_all add: tt_nodes_def)
  then show ?thesis unfolding three by blast
qed

end
