(* ===== verification/Bitset.thy ===== *)
theory Bitset
  imports Prelude
begin

text \<open>
  \<^verbatim>\<open>internal/reflect/bitset.go\<close>: the set of field ids the decoder ticks off, 1024 words of 64
  bits. The locale \<open>field_set\<close> is the contract the decoder relies on; it is interpreted on
  the code's model below.
\<close>

unbundle bit_operations_syntax

subsection \<open>The contract\<close>

locale field_set =
  fixes inv :: "'s \<Rightarrow> bool"
    and fset :: "'i \<Rightarrow> 's \<Rightarrow> 's"
    and funset :: "'i \<Rightarrow> 's \<Rightarrow> 's"
    and ftest :: "'i \<Rightarrow> 's \<Rightarrow> bool"
  assumes inv_set: "inv s \<Longrightarrow> inv (fset i s)"
    and inv_unset: "inv s \<Longrightarrow> inv (funset i s)"
    and test_set: "inv s \<Longrightarrow> ftest j (fset i s) \<longleftrightarrow> j = i \<or> ftest j s"
    and test_unset: "inv s \<Longrightarrow> ftest j (funset i s) \<longleftrightarrow> j \<noteq> i \<and> ftest j s"
begin

definition members :: "'s \<Rightarrow> 'i set" where
  "members s = {i. ftest i s}"

lemma members_set: "inv s \<Longrightarrow> members (fset i s) = insert i (members s)"
  by (auto simp: members_def test_set)

lemma members_unset: "inv s \<Longrightarrow> members (funset i s) = members s - {i}"
  by (auto simp: members_def test_unset)

lemma inv_fold_set: "inv s \<Longrightarrow> inv (fold fset is s)"
  by (induction "is" arbitrary: s) (auto simp: inv_set)

lemma inv_fold_unset: "inv s \<Longrightarrow> inv (fold funset is s)"
  by (induction "is" arbitrary: s) (auto simp: inv_unset)

lemma test_fold_set: "inv s \<Longrightarrow> ftest j (fold fset is s) \<longleftrightarrow> j \<in> set is \<or> ftest j s"
  by (induction "is" arbitrary: s) (auto simp: inv_set test_set)

lemma test_fold_unset: "inv s \<Longrightarrow> ftest j (fold funset is s) \<longleftrightarrow> j \<notin> set is \<and> ftest j s"
  by (induction "is" arbitrary: s) (auto simp: inv_unset test_unset)

text \<open>
  Clearing the required ids, ticking off the ids seen and testing the required ones decides
  whether all were seen, whatever the set held before: a set from the pool needs no clearing.
\<close>

lemma required_seen:
  assumes "inv s"
  shows "(\<forall>r\<in>set rs. ftest r (fold fset seen (fold funset rs s))) \<longleftrightarrow> set rs \<subseteq> set seen"
  using assms by (auto simp: test_fold_set test_fold_unset inv_fold_unset)

lemma first_missing:
  assumes "inv s"
  shows "find (\<lambda>r. \<not> ftest r (fold fset seen (fold funset rs s))) rs = find (\<lambda>r. r \<notin> set seen) rs"
  using assms by (intro find_cong) (auto simp: test_fold_set test_fold_unset inv_fold_unset)

end

subsection \<open>The code\<close>

type_synonym bitset = "64 word list"

definition newBitset :: bitset where "newBitset = replicate 1024 0"

text \<open>\<^verbatim>\<open>x, y := i>>6, i&63\<close>.\<close>

definition bsX :: "16 word \<Rightarrow> nat" where "bsX i = unat (drop_bit 6 i)"
definition bsY :: "16 word \<Rightarrow> nat" where "bsY i = unat (i AND 63)"

definition bitset_set :: "16 word \<Rightarrow> bitset \<Rightarrow> bitset" where
  "bitset_set i s = s[bsX i := (s ! bsX i) OR push_bit (bsY i) 1]"

definition bitset_unset :: "16 word \<Rightarrow> bitset \<Rightarrow> bitset" where
  "bitset_unset i s = s[bsX i := (s ! bsX i) AND NOT (push_bit (bsY i) 1)]"

definition bitset_test :: "16 word \<Rightarrow> bitset \<Rightarrow> bool" where
  "bitset_test i s \<longleftrightarrow> (s ! bsX i) AND push_bit (bsY i) 1 \<noteq> 0"

definition bitset_ok :: "bitset \<Rightarrow> bool" where
  "bitset_ok s \<longleftrightarrow> length s = 1024"

subsection \<open>The code meets the contract\<close>

lemma bsX_div: "bsX i = unat i div 64"
  by (simp add: bsX_def drop_bit_eq_div unat_div)

lemma bsY_mod: "bsY i = unat i mod 64"
proof -
  have "i AND 63 = take_bit 6 i" by (simp add: take_bit_eq_mask mask_eq_exp_minus_1)
  then show ?thesis by (simp add: bsY_def take_bit_eq_mod unat_mod)
qed

text \<open>No index is out of the array's range.\<close>

lemma bsX_lt: "bsX i < 1024"
proof -
  have "unat i < 2 ^ LENGTH(16)" by (rule unsigned_less)
  then show ?thesis unfolding bsX_div by simp
qed

lemma bsY_lt: "bsY i < 64"
  by (simp add: bsY_mod)

lemma bs_inj: "bsX i = bsX j \<Longrightarrow> bsY i = bsY j \<Longrightarrow> i = j"
proof -
  assume "bsX i = bsX j" "bsY i = bsY j"
  then have "unat i div 64 = unat j div 64" "unat i mod 64 = unat j mod 64"
    by (simp_all add: bsX_div bsY_mod)
  then have "unat i = unat j" by (metis div_mult_mod_eq)
  then show ?thesis by (simp add: word_unat_eq_iff)
qed

lemma bitset_test_bit: "bitset_test i s \<longleftrightarrow> bit (s ! bsX i) (bsY i)"
proof -
  have "(w AND push_bit n 1 \<noteq> 0) \<longleftrightarrow> bit w n" for w :: "64 word" and n
    by (simp add: push_bit_eq_mult and_exp_eq_0_iff_not_bit)
  then show ?thesis by (simp add: bitset_test_def)
qed

lemma bitset_laws: "field_set bitset_ok bitset_set bitset_unset bitset_test"
proof
  fix s :: bitset and i j
  assume s: "bitset_ok s"
  then have len: "bsX k < length s" for k using bsX_lt by (simp add: bitset_ok_def)
  have bs: "bsX i = bsX j \<and> bsY i = bsY j \<longleftrightarrow> i = j" using bs_inj by blast
  show "bitset_test j (bitset_set i s) \<longleftrightarrow> j = i \<or> bitset_test j s"
    using len [of i] bs bsY_lt [of i] bsY_lt [of j]
    by (auto simp: bitset_test_bit bitset_set_def nth_list_update bit_simps)
  show "bitset_test j (bitset_unset i s) \<longleftrightarrow> j \<noteq> i \<and> bitset_test j s"
    using len [of i] bs bsY_lt [of i] bsY_lt [of j]
    by (auto simp: bitset_test_bit bitset_unset_def nth_list_update bit_simps)
qed (auto simp: bitset_ok_def bitset_set_def bitset_unset_def)

interpretation bs: field_set bitset_ok bitset_set bitset_unset bitset_test
  by (rule bitset_laws)

lemma newBitset_ok: "bitset_ok newBitset"
  by (simp add: bitset_ok_def newBitset_def)

end
