(* ===== verification/UnknownFields.thy ===== *)
theory UnknownFields
  imports Prelude
begin

text \<open>
  \<^verbatim>\<open>internal/reflect/unknownfields.go\<close>: the ranges of the input that hold fields the struct
  does not know, collected while decoding and copied out at the end.
\<close>

record unknownFields =
  uf_sz :: nat
  uf_offs :: "(nat \<times> nat) list" \<comment> \<open>\<^verbatim>\<open>unknownFieldIdx\<close>: \<^verbatim>\<open>off\<close> and \<^verbatim>\<open>sz\<close>\<close>

definition uf_Reset :: "unknownFields \<Rightarrow> unknownFields" where
  "uf_Reset p = p\<lparr>uf_sz := 0, uf_offs := []\<rparr>"

definition uf_Add :: "nat \<Rightarrow> nat \<Rightarrow> unknownFields \<Rightarrow> unknownFields" where
  "uf_Add off sz p = p\<lparr>uf_sz := uf_sz p + sz, uf_offs := uf_offs p @ [(off, sz)]\<rparr>"

definition uf_Size :: "unknownFields \<Rightarrow> nat" where
  "uf_Size p = uf_sz p"

text \<open>Go's \<^verbatim>\<open>copy(dst[off:], src)\<close>: as many elements as both have.\<close>

definition copyAt :: "bytes \<Rightarrow> nat \<Rightarrow> bytes \<Rightarrow> bytes" where
  "copyAt dst off src =
     (let n = min (length dst - off) (length src)
      in take off dst @ take n src @ drop (off + n) dst)"

fun copyLoop :: "bytes \<Rightarrow> (nat \<times> nat) list \<Rightarrow> nat \<Rightarrow> bytes \<Rightarrow> bytes go" where
  "copyLoop b [] off ret = Ok ret"
| "copyLoop b ((o', s) # xs) off ret =
     gobind (sliceFrom ret off) (\<lambda>_.
     gobind (sliceRange b o' (o' + s)) (\<lambda>src.
       copyLoop b xs (off + s) (copyAt ret off src)))"

text \<open>
  \<^verbatim>\<open>Copy(b)\<close>; \<open>junk\<close> is what the memory of the result held, which \<^verbatim>\<open>mallocgc\<close> does not
  clear here.
\<close>

definition uf_Copy :: "(nat \<Rightarrow> bytes) \<Rightarrow> bytes \<Rightarrow> unknownFields \<Rightarrow> bytes go" where
  "uf_Copy junk b p = copyLoop b (uf_offs p) 0 (take (uf_Size p) (junk (uf_Size p)))"

subsection \<open>What is kept\<close>

text \<open>The size is the sum of the ranges, and the ranges lie in the input.\<close>

definition uf_ok :: "bytes \<Rightarrow> unknownFields \<Rightarrow> bool" where
  "uf_ok b p \<longleftrightarrow> uf_sz p = sum_list (map snd (uf_offs p)) \<and>
     (\<forall>(o', s)\<in>set (uf_offs p). o' + s \<le> length b)"

definition uf_bytes :: "bytes \<Rightarrow> unknownFields \<Rightarrow> bytes" where
  "uf_bytes b p = concat (map (\<lambda>(o', s). take s (drop o' b)) (uf_offs p))"

lemma uf_ok_Reset: "uf_ok b (uf_Reset p)"
  by (simp add: uf_ok_def uf_Reset_def)

lemma uf_ok_Add: "uf_ok b p \<Longrightarrow> off + sz \<le> length b \<Longrightarrow> uf_ok b (uf_Add off sz p)"
  by (auto simp: uf_ok_def uf_Add_def)

lemma uf_bytes_Reset: "uf_bytes b (uf_Reset p) = []"
  by (simp add: uf_bytes_def uf_Reset_def)

lemma uf_bytes_Add: "uf_bytes b (uf_Add off sz p) = uf_bytes b p @ take sz (drop off b)"
  by (simp add: uf_bytes_def uf_Add_def)

lemma copyLoop_fills:
  assumes "length ret = off + sum_list (map snd xs)"
    "\<forall>(o', s)\<in>set xs. o' + s \<le> length b"
  shows "copyLoop b xs off ret =
    Ok (take off ret @ concat (map (\<lambda>(o', s). take s (drop o' b)) xs))"
  using assms
proof (induction xs arbitrary: off ret)
  case (Cons x xs)
  obtain o' s where x: "x = (o', s)" by (cases x)
  define src where "src = take s (drop o' b)"
  have src: "length src = s" "sliceRange b o' (o' + s) = Ok src"
    using Cons.prems x by (auto simp: src_def)
  have ret: "length ret = off + (s + sum_list (map snd xs))" using Cons.prems x by simp
  have "copyAt ret off src = take off ret @ src @ drop (off + s) ret"
    using src ret by (simp add: copyAt_def min_def)
  moreover have "take (off + s) (take off ret @ src @ drop (off + s) ret) = take off ret @ src"
    using src ret by simp
  moreover have "copyLoop b xs (off + s) (take off ret @ src @ drop (off + s) ret) =
      Ok (take (off + s) (take off ret @ src @ drop (off + s) ret) @
          concat (map (\<lambda>(o', s). take s (drop o' b)) xs))"
    using Cons.prems src ret x by (intro Cons.IH) auto
  ultimately show ?case
    using ret src(2) by (simp add: x src_def [symmetric])
qed simp

lemma uf_Copy_bytes:
  assumes "uf_ok b p" "length (junk (uf_Size p)) = uf_Size p"
  shows "uf_Copy junk b p = Ok (uf_bytes b p)"
  using copyLoop_fills [of "take (uf_Size p) (junk (uf_Size p))" 0 "uf_offs p" b] assms
  by (simp add: uf_ok_def uf_Copy_def uf_bytes_def uf_Size_def)

lemma uf_bytes_length: "uf_ok b p \<Longrightarrow> length (uf_bytes b p) = uf_sz p"
proof -
  have "length (concat (map (\<lambda>(o', s). take s (drop o' b)) xs)) = sum_list (map snd xs)"
    if "\<forall>(o', s)\<in>set xs. o' + s \<le> length b" for xs
    using that by (induction xs) auto
  then show "uf_ok b p \<Longrightarrow> length (uf_bytes b p) = uf_sz p"
    by (simp add: uf_ok_def uf_bytes_def)
qed

end
