(* ===== verification/Span.thy ===== *)
theory Span
  imports Prelude
begin

text \<open>
  \<^verbatim>\<open>internal/reflect/span.go\<close>: the bump allocator of the decoder. A pointer is its address,
  a 64-bit word. \<open>mg\<close> stands for \<^verbatim>\<open>runtime.mallocgc\<close>: the address of a fresh block of a given
  size.
\<close>

unbundle bit_operations_syntax

definition defaultDecoderMemSize :: nat where "defaultDecoderMemSize = 2048"

record span =
  s_p :: nat
  s_b :: "64 word"
  s_n :: nat

definition span_init :: "(nat \<Rightarrow> 64 word) \<Rightarrow> span" where
  "span_init mg = \<lparr>s_p = 0, s_b = mg defaultDecoderMemSize, s_n = defaultDecoderMemSize\<rparr>"

text \<open>
  \<^verbatim>\<open>(uintptr(ret)+uintptr(mask)) & ^uintptr(mask) - uintptr(ret)\<close>; in Go \<^verbatim>\<open>&\<close> binds tighter
  than \<^verbatim>\<open>-\<close>.
\<close>

definition align_off :: "64 word \<Rightarrow> 64 word \<Rightarrow> 64 word" where
  "align_off ret msk = ((ret + msk) AND (NOT msk)) - ret"

definition span_Malloc :: "(nat \<Rightarrow> 64 word) \<Rightarrow> span \<Rightarrow> nat \<Rightarrow> nat \<Rightarrow> span \<times> 64 word" where
  "span_Malloc mg s n align =
     (let msk = align - 1;
          s1 = (if s_p s + n + msk > s_n s
                then let sz = max defaultDecoderMemSize (n + msk)
                     in \<lparr>s_p = 0, s_b = mg sz, s_n = sz\<rparr>
                else s);
          ret = s_b s1 + of_nat (s_p s1);
          off = align_off ret (of_nat msk)
      in (s1\<lparr>s_p := s_p s1 + (n + unat off)\<rparr>, ret + off))"

subsection \<open>Alignment\<close>

lemma unat_exp: "k < 64 \<Longrightarrow> unat (2 ^ k :: 64 word) = 2 ^ k"
proof -
  assume "k < 64"
  then have "2 ^ k < (2 :: nat) ^ LENGTH(64)" by (intro power_strict_increasing) auto
  then show ?thesis using unat_of_nat_lt [of "2 ^ k", where 'a = 64] by simp
qed

lemma and_not_mask_div:
  "(a :: 64 word) AND NOT (2 ^ k - 1) = push_bit k (drop_bit k a)"
proof (rule bit_word_eqI)
  fix n assume "n < LENGTH(64)"
  then show "bit (a AND NOT (2 ^ k - 1)) n \<longleftrightarrow> bit (push_bit k (drop_bit k a)) n"
    unfolding mask_eq_exp_minus_1 [symmetric]
    by (auto simp: bit_simps)
qed

lemma unat_round_down:
  assumes "k < 64"
  shows "unat (push_bit k (drop_bit k (a :: 64 word))) = (unat a div 2 ^ k) * 2 ^ k"
proof -
  have "unat (drop_bit k a) = unat a div 2 ^ k" by (simp only: unat_drop_bit_eq) (simp add: drop_bit_eq_div)
  moreover have "unat a div 2 ^ k * 2 ^ k < 2 ^ 64"
    using unsigned_less [of a] by (auto intro: le_less_trans [OF div_times_less_eq_dividend])
  ultimately have "unat (drop_bit k a) * unat (2 ^ k :: 64 word) < 2 ^ LENGTH(64)"
    by (simp add: unat_exp [OF assms])
  then show ?thesis
    unfolding push_bit_eq_mult unat_mult_lem
    by (simp add: unat_exp [OF assms] unat_drop_bit_eq) (simp add: drop_bit_eq_div)
qed

text \<open>The distance to the next multiple of a power of two.\<close>

lemma align_off_spec:
  assumes k: "k < 64" and fits: "unat ret + (2 ^ k - 1) < 2 ^ 64"
  defines "off \<equiv> align_off ret (of_nat (2 ^ k - 1))"
  shows "unat off \<le> 2 ^ k - 1" "unat (ret + off) = unat ret + unat off"
    "unat (ret + off) mod 2 ^ k = 0"
proof -
  let ?m = "2 ^ k - 1 :: nat" and ?a = "unat ret"
  have m: "(of_nat ?m :: 64 word) = 2 ^ k - 1" by (simp add: of_nat_diff)
  have um: "unat (2 ^ k - 1 :: 64 word) = ?m"
    using k by (subst unat_sub) (auto simp: word_le_nat_alt unat_exp)
  define x where "x = (?a + ?m) div 2 ^ k * 2 ^ k"
  have "unat (ret + (2 ^ k - 1)) = ?a + ?m"
    using fits um by (simp add: unat_add_lem [THEN iffD1])
  then have x: "unat (push_bit k (drop_bit k (ret + (2 ^ k - 1)))) = x"
    by (simp add: unat_round_down [OF k] x_def)
  have ax: "?a \<le> x" "x \<le> ?a + ?m"
  proof -
    have "?a + ?m = x + (?a + ?m) mod 2 ^ k"
      unfolding x_def by (rule div_mult_mod_eq [symmetric])
    moreover have "(?a + ?m) mod 2 ^ k < 2 ^ k" by simp
    ultimately show "?a \<le> x" by linarith
    show "x \<le> ?a + ?m" unfolding x_def by simp
  qed
  have off: "off = push_bit k (drop_bit k (ret + (2 ^ k - 1))) - ret"
    by (simp add: off_def align_off_def m and_not_mask_div)
  have uo: "unat off = x - ?a"
    using ax(1) unfolding off by (simp add: unat_sub word_le_nat_alt x)
  then show "unat off \<le> ?m" using ax by simp
  have "ret + off = push_bit k (drop_bit k (ret + (2 ^ k - 1)))" by (simp add: off)
  with x have rx: "unat (ret + off) = x" by simp
  with uo ax show "unat (ret + off) = unat ret + unat off" by simp
  show "unat (ret + off) mod 2 ^ k = 0" unfolding rx x_def by simp
qed

subsection \<open>The allocator\<close>

definition span_ok :: "span \<Rightarrow> bool" where
  "span_ok s \<longleftrightarrow> s_p s \<le> s_n s \<and> unat (s_b s) + s_n s < 2 ^ 64"

text \<open>What the runtime promises: a block lies in the address space.\<close>

definition mallocgc_ok :: "(nat \<Rightarrow> 64 word) \<Rightarrow> bool" where
  "mallocgc_ok mg \<longleftrightarrow> (\<forall>sz < 2 ^ 62. unat (mg sz) + sz < 2 ^ 64)"

definition in_span :: "span \<Rightarrow> nat \<Rightarrow> nat \<Rightarrow> bool" where
  "in_span s a n \<longleftrightarrow> unat (s_b s) \<le> a \<and> a + n \<le> unat (s_b s) + s_p s"

lemma span_Malloc_spec:
  assumes ok: "span_ok s" and mg: "mallocgc_ok mg" and n: "n + 2 ^ k < 2 ^ 62" "k < 62"
    and r: "span_Malloc mg s n (2 ^ k) = (s', a)"
  shows "span_ok s'" "unat a mod 2 ^ k = 0" "in_span s' (unat a) n"
    "s_b s' = s_b s \<and> s_n s' = s_n s \<and> unat (s_b s) + s_p s \<le> unat a \<or>
     s_b s' = mg (s_n s') \<and> s_p s + n + (2 ^ k - 1) > s_n s"
proof -
  define msk where "msk = (2 ^ k - 1 :: nat)"
  define s1 where "s1 = (if s_p s + n + msk > s_n s
                then let sz = max defaultDecoderMemSize (n + msk)
                     in \<lparr>s_p = 0, s_b = mg sz, s_n = sz\<rparr>
                else s)"
  define ret where "ret = s_b s1 + of_nat (s_p s1)"
  define off where "off = align_off ret (of_nat msk)"
  have s': "s' = s1\<lparr>s_p := s_p s1 + (n + unat off)\<rparr>" and a: "a = ret + off"
  proof -
    have "span_Malloc mg s n (2 ^ k) = (s1\<lparr>s_p := s_p s1 + (n + unat off)\<rparr>, ret + off)"
      unfolding span_Malloc_def Let_def s1_def ret_def off_def msk_def by (rule refl)
    with r show "s' = s1\<lparr>s_p := s_p s1 + (n + unat off)\<rparr>" "a = ret + off" by simp_all
  qed
  have s1: "s_p s1 + n + msk \<le> s_n s1" "unat (s_b s1) + s_n s1 < 2 ^ 64"
    using ok mg n by (auto simp: s1_def Let_def span_ok_def mallocgc_ok_def defaultDecoderMemSize_def
        msk_def)
  have ret: "unat ret = unat (s_b s1) + s_p s1"
  proof -
    have "unat (of_nat (s_p s1) :: 64 word) = s_p s1"
      using s1 by (intro unat_of_nat_lt) simp
    with s1 show ?thesis unfolding ret_def by (simp add: unat_add_lem [THEN iffD1])
  qed
  have fits: "unat ret + (2 ^ k - 1) < 2 ^ 64" using ret s1 by (simp add: msk_def)
  have k: "k < 64" using n by simp
  note al = align_off_spec [OF k fits, folded msk_def off_def]
  show "unat a mod 2 ^ k = 0" using al(3) a by simp
  show "span_ok s'" using s1 al(1) by (simp add: span_ok_def s')
  show "in_span s' (unat a) n" using al(2) ret a by (simp add: in_span_def s')
  show "s_b s' = s_b s \<and> s_n s' = s_n s \<and> unat (s_b s) + s_p s \<le> unat a \<or>
     s_b s' = mg (s_n s') \<and> s_p s + n + (2 ^ k - 1) > s_n s"
    using al(2) ret a by (auto simp: s' s1_def Let_def msk_def)
qed

end
