(* ===== verification/Decoder.thy ===== *)
theory Decoder
  imports StructDesc WireInt Bitset UnknownFields Span
begin

text \<open>
  \<^verbatim>\<open>internal/reflect/decoder.go\<close>. A decode function gets the input, the cell to decode into
  and the decoder's state, and returns the consumed length, the new cell and the new state; an
  error keeps the cell too, since what was decoded before it stays in the caller's object.

  \<open>dctx\<close> holds what is outside of the code: the descriptors, \<^verbatim>\<open>thrift.Binary.Skip\<close> of the
  thrift library, and the runtime's allocator. The state holds the span and the pools:
  \<^verbatim>\<open>sync.Pool\<close> is a stack, and what it holds at the start is arbitrary.
\<close>

datatype derr =
    ErrDepthLimit | ErrShortBuffer | ErrNegativeSize
  | ErrSizeExceeds int nat
  | ErrMismatch ttype ttype
  | ErrMismatchKV ttype ttype ttype ttype
  | ErrUnknownType ttype
  | ErrSkipLib nat \<comment> \<open>an error of \<^verbatim>\<open>thrift.Binary.Skip\<close>\<close>
  | ErrSkipField "16 word" rtype derr
  | ErrDecodeField "16 word" rtype derr
  | ErrRequired rtype nat \<comment> \<open>the field of the type at the offset is not set\<close>

record dctx =
  cx_env :: env
  cx_skip :: "bytes \<Rightarrow> ttype \<Rightarrow> derr + nat"
  cx_mg :: "nat \<Rightarrow> 64 word"
  cx_junk :: "nat \<Rightarrow> bytes" \<comment> \<open>what memory that is not cleared holds\<close>

record dstate =
  d_s :: span
  d_bitsets :: "bitset list" \<comment> \<open>\<^verbatim>\<open>bitsetPool\<close>\<close>
  d_ufs :: "unknownFields list" \<comment> \<open>\<^verbatim>\<open>unknownFieldsPool\<close>\<close>
  d_tmp :: "tType \<Rightarrow> (gval \<times> gval) list" \<comment> \<open>\<^verbatim>\<open>t.MapTmpVarsPool\<close>: the cells of \<^verbatim>\<open>k\<close>, \<^verbatim>\<open>v\<close>\<close>

datatype dres = DOk nat gval dstate | DErr nat derr gval dstate | DPanic panic

subsection \<open>Memory\<close>

text \<open>Cleared memory of a type.\<close>

definition zeroV :: "env \<Rightarrow> tType \<Rightarrow> gval" where
  "zeroV env t =
     (if tIsPointer t then VPtr None
      else if tT t = tBOOL \<or> tT t = tBYTE then VByte 0
      else if tT t = tI16 then VI16 0
      else if tT t = tI32 then VI32 0
      else if tT t = tI64 \<or> tT t = tDOUBLE \<or> tT t = tENUM then VI64 0
      else if tT t = tSTRING then (if tTag t = T_binary then VBytes None else VString [])
      else if tT t = tLIST \<or> tT t = tSET then VSlice None
      else if tT t = tMAP then VMap None
      else if tT t = tSTRUCT then (case Sd env t of Ok sd \<Rightarrow> sd_zero sd | Panic p \<Rightarrow> VUndef)
      else VUndef)"

text \<open>\<^verbatim>\<open>(d *tDecoder) Malloc(n, align, abiType)\<close>: its effect on the span.\<close>

definition d_Malloc :: "dctx \<Rightarrow> nat \<Rightarrow> nat \<Rightarrow> rtype option \<Rightarrow> dstate \<Rightarrow> dstate" where
  "d_Malloc cx n align abiType d =
     (if n > defaultDecoderMemSize div 8 \<or> abiType \<noteq> None then d
      else d\<lparr>d_s := fst (span_Malloc (cx_mg cx) (d_s d) n align)\<rparr>)"

text \<open>
  What a cell of type \<open>t\<close> holds when it was just allocated: \<^verbatim>\<open>mallocgc\<close> clears the memory
  of a type the garbage collector scans, the span does not.
\<close>

definition newMem :: "dctx \<Rightarrow> tType \<Rightarrow> gval" where
  "newMem cx t = (if tMallocAbiType t = None then VUndef else zeroV (cx_env cx) t)"

subsection \<open>Scalars and strings\<close>

text \<open>\<^verbatim>\<open>decodeFixedSizeTypes\<close>: the value stored and the length.\<close>

definition decodeFixedSizeTypes :: "ttype \<Rightarrow> bytes \<Rightarrow> (gval \<times> nat) go" where
  "decodeFixedSizeTypes t b =
     (if t = tBOOL \<or> t = tBYTE then gobind (beByte b) (\<lambda>w. Ok (VByte w, 1))
      else if t = tDOUBLE \<or> t = tI64 then gobind (beUint64 b) (\<lambda>w. Ok (VI64 w, 8))
      else if t = tI16 then gobind (beUint16 b) (\<lambda>w. Ok (VI16 w, 2))
      else if t = tI32 then gobind (beUint32 b) (\<lambda>w. Ok (VI32 w, 4))
      else if t = tENUM then gobind (beUint32 b) (\<lambda>w. Ok (VI64 (scast w), 4))
      else Panic (ExplicitPanic ''bug''))"

text \<open>\<^verbatim>\<open>int(int32(binary.BigEndian.Uint32(b)))\<close>.\<close>

definition beLen :: "bytes \<Rightarrow> int go" where
  "beLen b = gobind (beUint32 b) (\<lambda>w. Ok (sint w))"

definition storeString :: "tType \<Rightarrow> bytes \<Rightarrow> gval" where
  "storeString t s = (if tTag t = T_binary then VBytes (Some s) else VString s)"

definition dgo :: "'a go \<Rightarrow> ('a \<Rightarrow> dres) \<Rightarrow> dres" where
  "dgo m k = (case m of Ok x \<Rightarrow> k x | Panic p \<Rightarrow> DPanic p)"

definition decodeStringNoCopy :: "tType \<Rightarrow> bytes \<Rightarrow> gval \<Rightarrow> dstate \<Rightarrow> dres" where
  "decodeStringNoCopy t b c d =
     (if length b < strHeaderLen then DErr 0 ErrShortBuffer c d
      else dgo (beLen b) (\<lambda>l.
        if l < 0 then DErr 0 ErrNegativeSize c d
        else if l = 0 then DOk 4 (storeString t []) d
        else if l > int (length b - 4) then DErr 4 (ErrSizeExceeds l (length b - 4)) c d
        else DOk (4 + nat l) (storeString t (take (nat l) (drop 4 b))) d))"

definition decodeString :: "dctx \<Rightarrow> tType \<Rightarrow> bytes \<Rightarrow> gval \<Rightarrow> dstate \<Rightarrow> dres" where
  "decodeString cx t b c d =
     (if length b < strHeaderLen then DErr 0 ErrShortBuffer c d
      else dgo (beLen b) (\<lambda>l.
        if l < 0 then DErr 0 ErrNegativeSize c d
        else if l = 0 then DOk 4 (storeString t []) d
        else if l > int (length b - 4) then DErr 4 (ErrSizeExceeds l (length b - 4)) c d
        else DOk (4 + nat l) (storeString t (take (nat l) (drop 4 b))) (d_Malloc cx (nat l) 1 None d)))"

subsection \<open>Elements\<close>

type_synonym dfun = "tType \<Rightarrow> bytes \<Rightarrow> gval \<Rightarrow> dstate \<Rightarrow> dres"

text \<open>
  One element, key or value from \<^verbatim>\<open>b[i:]\<close> into the cell \<open>c\<close>: the fixed-size fast path or
  \<^verbatim>\<open>decodeType\<close>.
\<close>

definition decodeAt :: "dfun \<Rightarrow> tType \<Rightarrow> bytes \<Rightarrow> nat \<Rightarrow> gval \<Rightarrow> dstate \<Rightarrow> dres" where
  "decodeAt dt t b i c d =
     dgo (sliceFrom b i) (\<lambda>b'.
       if tFixedSize t > 0 then dgo (decodeFixedSizeTypes (tT t) b') (\<lambda>(v, n). DOk n v d)
       else dt t b' c d)"

text \<open>
  The cell an element is decoded into: the element's own, or the one its new pointer points to
  (\<^verbatim>\<open>&sliceData[j]\<close>); and the element after that.
\<close>

definition elemCell :: "dctx \<Rightarrow> tType \<Rightarrow> gval \<Rightarrow> gval go" where
  "elemCell cx t c =
     (if tIsPointer t then gobind (tt_deref (tV t)) (\<lambda>v. Ok (newMem cx v)) else Ok c)"

definition wrapElem :: "tType \<Rightarrow> gval \<Rightarrow> gval" where
  "wrapElem t c = (if tIsPointer t then VPtr (Some c) else c)"

text \<open>\<^verbatim>\<open>d.Malloc(l*t.V.Size, t.V.Align, t.V.MallocAbiType)\<close> when \<open>t\<close> is a pointer.\<close>

definition mallocElems :: "dctx \<Rightarrow> tType \<Rightarrow> nat \<Rightarrow> dstate \<Rightarrow> dstate go" where
  "mallocElems cx t l d =
     (if tIsPointer t \<and> l > 0
      then gobind (tt_deref (tV t)) (\<lambda>v.
             Ok (d_Malloc cx (l * tSize v) (tAlign v) (tMallocAbiType v) d))
      else Ok d)"

subsection \<open>Lists and sets\<close>

datatype lres = LOk nat "gval list" dstate | LErr nat derr "gval list" dstate | LPanic panic

fun decodeElems :: "dctx \<Rightarrow> dfun \<Rightarrow> tType \<Rightarrow> bytes \<Rightarrow> nat \<Rightarrow> nat \<Rightarrow> dstate \<Rightarrow> lres" where
  "decodeElems cx dt et b 0 i d = LOk i [] d"
| "decodeElems cx dt et b (Suc l) i d =
     (case elemCell cx et (newMem cx et) of
        Panic p \<Rightarrow> LPanic p
      | Ok c \<Rightarrow>
          (case decodeAt dt et b i c d of
             DPanic p \<Rightarrow> LPanic p
           | DErr n e c d \<Rightarrow> LErr i e (wrapElem et c # replicate l (newMem cx et)) d
           | DOk n c d \<Rightarrow>
               (case decodeElems cx dt et b l (i + n) d of
                  LPanic p \<Rightarrow> LPanic p
                | LErr i e cs d \<Rightarrow> LErr i e (wrapElem et c # cs) d
                | LOk i cs d \<Rightarrow> LOk i (wrapElem et c # cs) d)))"

definition decodeList :: "dctx \<Rightarrow> dfun \<Rightarrow> tType \<Rightarrow> bytes \<Rightarrow> gval \<Rightarrow> dstate \<Rightarrow> dres" where
  "decodeList cx dt t b c d =
     (if length b < listHeaderLen then DErr 0 ErrShortBuffer c d
      else dgo (index b 0) (\<lambda>tp. dgo (gobind (sliceFrom b 1) beLen) (\<lambda>l.
        if l < 0 then DErr 0 ErrNegativeSize c d
        else dgo (tt_deref (tV t)) (\<lambda>et.
          if tWT et \<noteq> tp then DErr 0 (ErrMismatch (tWT et) tp) c d
          else if l \<le> 0 then DOk 5 (VSlice (Some [])) d
          else if minWireSize (tWT et) = 0 then DPanic DivideByZero
          else if l > int ((length b - 5) div minWireSize (tWT et))
               then DErr 5 (ErrSizeExceeds l (length b - 5)) c d
          else
            let d = d_Malloc cx (nat l * tSize et) (tAlign et) (tMallocAbiType et) d
            in dgo (mallocElems cx et (nat l) d) (\<lambda>d.
                 case decodeElems cx dt et b (nat l) 5 d of
                   LPanic p \<Rightarrow> DPanic p
                 | LErr i e cs d \<Rightarrow> DErr i e (VSlice (Some cs)) d
                 | LOk i cs d \<Rightarrow> DOk i (VSlice (Some cs)) d)))))"

subsection \<open>Maps\<close>

text \<open>
  Go's equality of map keys: of doubles by IEEE 754; a pointer key is freshly allocated and
  equals no other. \<^verbatim>\<open>SetMapIndex\<close> replaces the entry of an equal key or adds one.
\<close>

definition goKeyEq :: "tType \<Rightarrow> gval \<Rightarrow> gval \<Rightarrow> bool" where
  "goKeyEq kt a b =
     (if tIsPointer kt then False
      else case (a, b) of
             (VI64 x, VI64 y) \<Rightarrow> if tT kt = tDOUBLE then f64_eq x y else x = y
           | _ \<Rightarrow> a = b)"

fun setMapIndex :: "tType \<Rightarrow> (gval \<times> gval) list \<Rightarrow> gval \<Rightarrow> gval \<Rightarrow> (gval \<times> gval) list" where
  "setMapIndex kt [] k v = [(k, v)]"
| "setMapIndex kt ((k', v') # m) k v =
     (if goKeyEq kt k' k then (k, v) # m else (k', v') # setMapIndex kt m k v)"

text \<open>
  The loop over the entries. The temporaries \<open>kc\<close> and \<open>vc\<close> are the same cells in every turn,
  so a value is decoded over the one before it.
\<close>

datatype mres =
    MOk nat gval gval "(gval \<times> gval) list" dstate
  | MErr nat derr gval gval dstate
  | MPanic panic

fun decodeEntries ::
  "dctx \<Rightarrow> dfun \<Rightarrow> tType \<Rightarrow> tType \<Rightarrow> bytes \<Rightarrow> nat \<Rightarrow> nat \<Rightarrow> gval \<Rightarrow> gval \<Rightarrow> (gval \<times> gval) list \<Rightarrow>
     dstate \<Rightarrow> mres" where
  "decodeEntries cx dt kt vt b 0 i kc vc m d = MOk i kc vc m d"
| "decodeEntries cx dt kt vt b (Suc l) i kc vc m d =
     (case elemCell cx kt kc of
        Panic p \<Rightarrow> MPanic p
      | Ok c \<Rightarrow>
          (case decodeAt dt kt b i c d of
             DPanic p \<Rightarrow> MPanic p
           | DErr n e c d \<Rightarrow> MErr i e (wrapElem kt c) vc d
           | DOk n c d \<Rightarrow>
               let i = i + n; kc = wrapElem kt c
               in case elemCell cx vt vc of
                    Panic p \<Rightarrow> MPanic p
                  | Ok c \<Rightarrow>
                      (case decodeAt dt vt b i c d of
                         DPanic p \<Rightarrow> MPanic p
                       | DErr n e c d \<Rightarrow> MErr i e kc (wrapElem vt c) d
                       | DOk n c d \<Rightarrow>
                           let vc = wrapElem vt c
                           in decodeEntries cx dt kt vt b l (i + n) kc vc (setMapIndex kt m kc vc) d)))"

text \<open>\<^verbatim>\<open>t.MapTmpVarsPool.Get()\<close>: two cells used before, or two new ones.\<close>

definition getTmp :: "dctx \<Rightarrow> tType \<Rightarrow> tType \<Rightarrow> tType \<Rightarrow> dstate \<Rightarrow> (gval \<times> gval) \<times> dstate" where
  "getTmp cx t kt vt d =
     (case d_tmp d t of
        [] \<Rightarrow> ((zeroV (cx_env cx) kt, zeroV (cx_env cx) vt), d)
      | x # xs \<Rightarrow> (x, d\<lparr>d_tmp := (d_tmp d)(t := xs)\<rparr>))"

definition putTmp :: "tType \<Rightarrow> gval \<times> gval \<Rightarrow> dstate \<Rightarrow> dstate" where
  "putTmp t x d = d\<lparr>d_tmp := (d_tmp d)(t := x # d_tmp d t)\<rparr>"

definition decodeMap :: "dctx \<Rightarrow> dfun \<Rightarrow> tType \<Rightarrow> bytes \<Rightarrow> gval \<Rightarrow> dstate \<Rightarrow> dres" where
  "decodeMap cx dt t b c d =
     (if length b < mapHeaderLen then DErr 0 ErrShortBuffer c d
      else dgo (index b 0) (\<lambda>t0. dgo (index b 1) (\<lambda>t1. dgo (gobind (sliceFrom b 2) beLen) (\<lambda>l.
        if l < 0 then DErr 0 ErrNegativeSize c d
        else dgo (tt_deref (tK t)) (\<lambda>kt. dgo (tt_deref (tV t)) (\<lambda>vt.
          if t0 \<noteq> tWT kt \<or> t1 \<noteq> tWT vt then DErr 0 (ErrMismatchKV (tWT kt) (tWT vt) t0 t1) c d
          else if minWireSize (tWT kt) + minWireSize (tWT vt) = 0 then DPanic DivideByZero
          else if l > int ((length b - mapHeaderLen) div (minWireSize (tWT kt) + minWireSize (tWT vt)))
               then DErr mapHeaderLen (ErrSizeExceeds l (length b - mapHeaderLen)) c d
          else
            case getTmp cx t kt vt d of
              ((kc, vc), d) \<Rightarrow>
                dgo (mallocElems cx kt (nat l) d) (\<lambda>d.
                dgo (mallocElems cx vt (nat l) d) (\<lambda>d.
                  case decodeEntries cx dt kt vt b (nat l) 6 kc vc [] d of
                    MPanic p \<Rightarrow> DPanic p
                  | MErr i e kc vc d \<Rightarrow> DErr i e c (putTmp t (kc, vc) d)
                  | MOk i kc vc m d \<Rightarrow> DOk i (VMap (Some (length m, m))) (putTmp t (kc, vc) d)))))))))"

subsection \<open>Structs\<close>

text \<open>
  One field from \<^verbatim>\<open>b[i:]\<close>: \<^verbatim>\<open>mallocIfPointer\<close>, then the three ways to decode. The result
  is the field's cell.
\<close>

definition decodeFieldValue :: "dctx \<Rightarrow> dfun \<Rightarrow> tField \<Rightarrow> bytes \<Rightarrow> nat \<Rightarrow> gval \<Rightarrow> dstate \<Rightarrow> dres" where
  "decodeFieldValue cx dt f b i c d =
     (let t = fType f
      in dgo (mallocElems cx t 1 d) (\<lambda>d. dgo (elemCell cx t c) (\<lambda>c.
           dgo (sliceFrom b i) (\<lambda>b'.
             if tFixedSize t > 0 then
               dgo (decodeFixedSizeTypes (tT t) b') (\<lambda>(v, n). DOk n (wrapElem t v) d)
             else
               (case (if fNoCopy f then decodeStringNoCopy t b' c d else dt t b' c d) of
                  DOk n c d \<Rightarrow> DOk n (wrapElem t c) d
                | DErr n e c d \<Rightarrow> DErr n e (wrapElem t c) d
                | DPanic p \<Rightarrow> DPanic p)))))"

record fstate =
  f_cs :: "(nat \<times> gval) list" \<comment> \<open>the struct at \<^verbatim>\<open>base\<close>\<close>
  f_bs :: "bitset option"
  f_ufs :: "unknownFields option"
  f_d :: dstate

datatype fldres = FDone nat fstate | FFail nat derr fstate | FCrash panic

text \<open>
  One turn of the field loop from offset \<open>i\<close> on: \<open>FDone\<close> at the stop byte with \<open>True\<close>, else
  the offset of the next field.
\<close>

datatype tres = TStop nat | TNext nat fstate | TErr nat derr fstate | TPanic panic

definition tgo :: "'a go \<Rightarrow> ('a \<Rightarrow> tres) \<Rightarrow> tres" where
  "tgo m k = (case m of Ok x \<Rightarrow> k x | Panic p \<Rightarrow> TPanic p)"

definition skipField :: "dctx \<Rightarrow> structDesc \<Rightarrow> bytes \<Rightarrow> nat \<Rightarrow> 16 word \<Rightarrow> ttype \<Rightarrow> fstate \<Rightarrow> tres" where
  "skipField cx sd b i fid tp s =
     tgo (sliceFrom b i) (\<lambda>b'.
       case cx_skip cx b' tp of
         Inl e \<Rightarrow> TErr i (ErrSkipField fid (sd_rt sd) e) s
       | Inr n \<Rightarrow>
           TNext (i + n)
             (case f_ufs s of
                None \<Rightarrow> s
              | Some u \<Rightarrow> s\<lparr>f_ufs := Some (uf_Add (i - fieldHeaderLen) (n + fieldHeaderLen) u)\<rparr>))"

definition decodeField :: "dctx \<Rightarrow> dfun \<Rightarrow> structDesc \<Rightarrow> bytes \<Rightarrow> nat \<Rightarrow> fstate \<Rightarrow> tres" where
  "decodeField cx dt sd b i s =
     tgo (index b i) (\<lambda>tp.
       let i = i + 1
       in if tp = tSTOP then TStop i
          else tgo (gobind (sliceFrom b i) beUint16) (\<lambda>fid.
            let i = i + 2
            in tgo (GetField sd fid) (\<lambda>fo.
                 case fo of
                   None \<Rightarrow> skipField cx sd b i fid tp s
                 | Some f \<Rightarrow>
                     if tWT (fType f) \<noteq> tp then skipField cx sd b i fid tp s
                     else
                       (case map_of (f_cs s) (fOffset f) of
                          None \<Rightarrow> TPanic BadMemory
                        | Some c \<Rightarrow>
                            (case decodeFieldValue cx dt f b i c (f_d s) of
                               DPanic p \<Rightarrow> TPanic p
                             | DErr n e c d \<Rightarrow>
                                 TErr i (ErrDecodeField fid (sd_rt sd) e)
                                   (s\<lparr>f_cs := updField (fOffset f) c (f_cs s), f_d := d\<rparr>)
                             | DOk n c d \<Rightarrow>
                                 TNext (i + n)
                                   (s\<lparr>f_cs := updField (fOffset f) c (f_cs s),
                                     f_bs := map_option (bitset_set (fID f)) (f_bs s),
                                     f_d := d\<rparr>))))))"

lemma decodeField_step:
  assumes "decodeField cx dt sd b i s = TNext i' s'"
  shows "i < length b" "i + 3 \<le> i'"
proof -
  show "i < length b"
    using assms by (auto simp: decodeField_def tgo_def index_def split: if_splits)
  show "i + 3 \<le> i'"
    using assms
    by (auto simp: decodeField_def skipField_def tgo_def Let_def
        split: if_splits go.splits option.splits sum.splits dres.splits)
qed

lemma decodeField_measure:
  "decodeField cx dt sd b i s = TNext i' s' \<Longrightarrow> length b - i' < length b - i"
  using decodeField_step [of cx dt sd b i s i' s'] by simp

function decodeFields :: "dctx \<Rightarrow> dfun \<Rightarrow> structDesc \<Rightarrow> bytes \<Rightarrow> nat \<Rightarrow> fstate \<Rightarrow> fldres" where
  "decodeFields cx dt sd b i s =
     (case decodeField cx dt sd b i s of
        TStop i' \<Rightarrow> FDone i' s
      | TErr i' e s' \<Rightarrow> FFail i' e s'
      | TPanic p \<Rightarrow> FCrash p
      | TNext i' s' \<Rightarrow> decodeFields cx dt sd b i' s')"
  by pat_completeness auto
termination
  by (relation "measure (\<lambda>(cx, dt, sd, b, i, s). length b - i)")
     (auto dest: decodeField_measure)

declare decodeFields.simps [simp del]

text \<open>The pools at entry, with the required ids cleared and the unknown fields reset.\<close>

definition enterStruct :: "structDesc \<Rightarrow> (nat \<times> gval) list \<Rightarrow> dstate \<Rightarrow> fstate" where
  "enterStruct sd cs d =
     (let (bs, d) =
            (if requiredFieldIDs sd = [] then (None, d)
             else let (x, xs) = (case d_bitsets d of [] \<Rightarrow> (newBitset, []) | x # xs \<Rightarrow> (x, xs))
                  in (Some (fold bitset_unset (requiredFieldIDs sd) x), d\<lparr>d_bitsets := xs\<rparr>));
          (ufs, d) =
            (if \<not> hasUnknownFields sd then (None, d)
             else let (x, xs) = (case d_ufs d of [] \<Rightarrow> (\<lparr>uf_sz = 0, uf_offs = []\<rparr>, []) | x # xs \<Rightarrow> (x, xs))
                  in (Some (uf_Reset x), d\<lparr>d_ufs := xs\<rparr>))
      in \<lparr>f_cs = cs, f_bs = bs, f_ufs = ufs, f_d = d\<rparr>)"

text \<open>The deferred \<^verbatim>\<open>Put\<close>s.\<close>

definition leaveStruct :: "fstate \<Rightarrow> dstate" where
  "leaveStruct s =
     (let d = (case f_bs s of None \<Rightarrow> f_d s | Some x \<Rightarrow> (f_d s)\<lparr>d_bitsets := x # d_bitsets (f_d s)\<rparr>)
      in case f_ufs s of None \<Rightarrow> d | Some x \<Rightarrow> d\<lparr>d_ufs := x # d_ufs d\<rparr>)"

text \<open>
  The loop over \<^verbatim>\<open>sd.requiredFieldIDs\<close> after the fields: the first one not seen. The id is in
  the list only when there is a bitset.
\<close>

fun checkRequired :: "structDesc \<Rightarrow> bitset option \<Rightarrow> 16 word list \<Rightarrow> derr option go" where
  "checkRequired sd bs [] = Ok None"
| "checkRequired sd bs (fid # rs) =
     (case bs of
        None \<Rightarrow> Panic NilDeref
      | Some x \<Rightarrow>
          if bitset_test fid x then checkRequired sd bs rs
          else gobind (GetField sd fid) (\<lambda>fo.
                 case fo of
                   None \<Rightarrow> Panic NilDeref
                 | Some f \<Rightarrow> Ok (Some (ErrRequired (sd_rt sd) (fOffset f)))))"

definition finishStruct :: "dctx \<Rightarrow> structDesc \<Rightarrow> bytes \<Rightarrow> nat \<Rightarrow> fstate \<Rightarrow> dres" where
  "finishStruct cx sd b i s =
     dgo (checkRequired sd (f_bs s) (requiredFieldIDs sd)) (\<lambda>e.
       case e of
         Some e \<Rightarrow> DErr i e (VStruct (f_cs s)) (leaveStruct s)
       | None \<Rightarrow>
           (case f_ufs s of
              None \<Rightarrow> DOk i (VStruct (f_cs s)) (leaveStruct s)
            | Some u \<Rightarrow>
                if uf_Size u > 0 then
                  dgo (uf_Copy (cx_junk cx) b u) (\<lambda>x.
                  dgo (storeField (VStruct (f_cs s)) (unknownFieldsOffset sd) (VBytes (Some x))) (\<lambda>c.
                    DOk i c (leaveStruct s)))
                else DOk i (VStruct (f_cs s)) (leaveStruct s)))"

definition decodeStruct :: "dctx \<Rightarrow> dfun \<Rightarrow> structDesc \<Rightarrow> bytes \<Rightarrow> gval \<Rightarrow> dstate \<Rightarrow> dres" where
  "decodeStruct cx dt sd b c d =
     (case c of
        VStruct cs \<Rightarrow>
          (case decodeFields cx dt sd b 0 (enterStruct sd cs d) of
             FCrash p \<Rightarrow> DPanic p
           | FFail i e s \<Rightarrow> DErr i e (VStruct (f_cs s)) (leaveStruct s)
           | FDone i s \<Rightarrow> finishStruct cx sd b i s)
      | _ \<Rightarrow> DPanic BadMemory)"

subsection \<open>The recursion\<close>

text \<open>
  \<^verbatim>\<open>decodeType\<close> and \<^verbatim>\<open>Decode\<close> with the depth limit: both return an error at 0 and recurse
  one below.
\<close>

definition decodeTypeBody ::
  "dctx \<Rightarrow> dfun \<Rightarrow> (structDesc \<Rightarrow> bytes \<Rightarrow> gval \<Rightarrow> dstate \<Rightarrow> dres) \<Rightarrow> dfun" where
  "decodeTypeBody cx dt ds t b c d =
     (if tFixedSize t > 0 then dgo (decodeFixedSizeTypes (tT t) b) (\<lambda>(v, n). DOk n v d)
      else if tT t = tSTRING then decodeString cx t b c d
      else if tT t = tMAP then decodeMap cx dt t b c d
      else if tT t = tLIST \<or> tT t = tSET then decodeList cx dt t b c d
      else if tT t = tSTRUCT then
        dgo (Sd (cx_env cx) t) (\<lambda>sd.
          ds sd b (if hasInitFunc sd then initFunc sd c else c) d)
      else DErr 0 (ErrUnknownType (tT t)) c d)"

fun decodeType :: "dctx \<Rightarrow> nat \<Rightarrow> dfun"
  and Decode :: "dctx \<Rightarrow> nat \<Rightarrow> structDesc \<Rightarrow> bytes \<Rightarrow> gval \<Rightarrow> dstate \<Rightarrow> dres" where
  "decodeType cx 0 t b c d = DErr 0 ErrDepthLimit c d"
| "decodeType cx (Suc m) t b c d = decodeTypeBody cx (decodeType cx m) (Decode cx m) t b c d"
| "Decode cx 0 sd b c d = DErr 0 ErrDepthLimit c d"
| "Decode cx (Suc m) sd b c d = decodeStruct cx (decodeType cx m) sd b c d"

definition maxDepthLimit :: nat where "maxDepthLimit = 1023"

end
