(* ===== verification/ConformLib.thy ===== *)
theory ConformLib
  imports WireSpec Decoder
begin

text \<open>
  Conformance without the depth bound, as the decoder proofs use it: \<open>ok env t v\<close> holds when
  \<open>v\<close> conforms to \<open>t\<close> at some depth. Introduction rules for each kind of type, and the cells
  the decoder starts from.
\<close>

subsection \<open>Introduction rules of \<open>conf\<close>\<close>

lemma wrapElem_if: "wrapElem t w = (if tIsPointer t then VPtr (Some w) else w)"
  by (simp add: wrapElem_def)

lemma conf_simpleI:
  assumes "simpleTypes (tT t)" "confSimple s t w"
  shows "conf s env (Suc n) t (wrapElem t w)"
  using assms by (simp add: wrapElem_def)

lemma conf_listI:
  assumes "tT t = tLIST \<or> tT t = tSET" "tV t = Some et" "\<not> tIsPointer t"
    "\<And>vs. q = Some vs \<Longrightarrow> (s \<longrightarrow> length vs < 2 ^ 32) \<and> (\<forall>x\<in>set vs. conf s env n et x)"
  shows "conf s env (Suc n) t (VSlice q)"
  using assms not_simple_tags [of t] by (auto split: option.split)

lemma conf_mapI:
  assumes "tT t = tMAP" "tK t = Some kt" "tV t = Some vt" "\<not> tIsPointer t"
    "\<And>c kvs. q = Some (c, kvs) \<Longrightarrow> (s \<longrightarrow> c = length kvs \<and> c < 2 ^ 32) \<and>
       (\<forall>kv\<in>set kvs. conf s env n kt (fst kv) \<and> conf s env n vt (snd kv))"
  shows "conf s env (Suc n) t (VMap q)"
  using assms not_simple_tags [of t] by (auto split: option.split)

lemma conf_structI:
  assumes "tT t = tSTRUCT" "Sd env t = Ok sd" "confFields (conf s env n) sd cs"
  shows "conf s env (Suc n) t (wrapElem t (VStruct cs))"
  using assms not_simple_tags [of t] by (simp add: wrapElem_def)

lemma conf_nilI: "tT t = tSTRUCT \<Longrightarrow> tIsPointer t \<Longrightarrow> conf s env (Suc n) t (VPtr None)"
  by simp

declare conf.simps(2) [simp del]

lemma confFields_mono:
  assumes "confFields c sd cs" "\<And>f v. f \<in> set (sd_fields sd) \<Longrightarrow> c (fType f) v \<Longrightarrow> c' (fType f) v"
  shows "confFields c' sd cs"
  using assms unfolding confFields_def by (fastforce split: option.splits)

lemma conf_mono:
  assumes env: "wfEnv bv env"
  shows "wfT bv env t \<Longrightarrow> conf s env n t v \<Longrightarrow> n \<le> m \<Longrightarrow> conf s env m t v"
proof (induction n arbitrary: m t v)
  case (Suc n)
  then obtain m' where m: "m = Suc m'" "n \<le> m'" by (cases m) auto
  note wf = Suc.prems(1)
  have IH: "wfT bv env t \<Longrightarrow> conf s env n t v \<Longrightarrow> conf s env m' t v" for t v
    using Suc.IH m(2) by blast
  from Suc.prems(2,1) show ?case unfolding m(1)
  proof (cases rule: conf_cases)
    case nilStruct
    then show "conf s env (Suc m') t v" by (simp add: conf_nilI)
  next
    case (simple w)
    then show "conf s env (Suc m') t v" using conf_simpleI [of t s w env m'] by (simp add: wrapElem_def)
  next
    case (list et q)
    from wfT_list [OF wf list(1)] list(2) have "wfT bv env et" by auto
    with list IH show "conf s env (Suc m') t v" by (auto intro!: conf_listI)
  next
    case (map kt vt q)
    from wfT_map [OF wf map(1)] map(2,3) have "wfT bv env kt" "wfT bv env vt" by auto
    with map(6) IH have "(s \<longrightarrow> c = length kvs \<and> c < 2 ^ 32) \<and>
        (\<forall>kv\<in>set kvs. conf s env m' kt (fst kv) \<and> conf s env m' vt (snd kv))"
      if "q = Some (c, kvs)" for c kvs using that by blast
    with map(1-5) show "conf s env (Suc m') t v" by (simp add: conf_mapI)
  next
    case (struct sd cs)
    have "wfSd bv env sd" by (rule wfEnv_sd [OF env struct(2)])
    then have "confFields (conf s env m') sd cs"
      using struct(4) IH by (elim confFields_mono) (auto simp: wfSd_def wfField_def)
    with struct show "conf s env (Suc m') t v"
      using conf_structI [of t env sd s m' cs] by (simp add: wrapElem_def)
  qed
qed (simp add: conf.simps)

subsection \<open>Conformance at some depth\<close>

definition ok :: "env \<Rightarrow> tType \<Rightarrow> gval \<Rightarrow> bool" where
  "ok env t v \<longleftrightarrow> (\<exists>n. conf False env n t v)"

definition okFs :: "env \<Rightarrow> structDesc \<Rightarrow> (nat \<times> gval) list \<Rightarrow> bool" where
  "okFs env sd cs \<longleftrightarrow> (\<exists>n. confFields (conf False env n) sd cs)"

lemma uniform_bound:
  fixes P :: "nat \<Rightarrow> 'a \<Rightarrow> bool"
  assumes "\<And>x. x \<in> A \<Longrightarrow> \<exists>n. P n x" "\<And>x n m. x \<in> A \<Longrightarrow> P n x \<Longrightarrow> n \<le> m \<Longrightarrow> P m x" "finite A"
  shows "\<exists>n. \<forall>x\<in>A. P n x"
proof -
  from assms(1) obtain N where N: "\<And>x. x \<in> A \<Longrightarrow> P (N x) x" by metis
  have "P (Max (N ` A)) x" if "x \<in> A" for x
    using N [OF that] assms(2) [OF that] assms(3) that by (meson Max_ge finite_imageI imageI)
  then show ?thesis by blast
qed

lemma ok_simple: "simpleTypes (tT t) \<Longrightarrow> confSimple False t w \<Longrightarrow> ok env t (wrapElem t w)"
  using conf_simpleI [of t False w env 0] by (auto simp: ok_def)

lemma ok_nil: "tT t = tSTRUCT \<Longrightarrow> tIsPointer t \<Longrightarrow> ok env t (VPtr None)"
  using conf_nilI [of t False env 0] by (auto simp: ok_def)

lemma ok_list:
  assumes env: "wfEnv bv env" and
    "tT t = tLIST \<or> tT t = tSET" "tV t = Some et" "\<not> tIsPointer t" "wfT bv env et"
    "\<And>vs x. q = Some vs \<Longrightarrow> x \<in> set vs \<Longrightarrow> ok env et x"
  shows "ok env t (VSlice q)"
proof -
  define vs where "vs = (case q of Some vs \<Rightarrow> vs | None \<Rightarrow> [])"
  have "\<exists>n. conf False env n et x" if "x \<in> set vs" for x
    using assms(6) that by (auto simp: ok_def vs_def split: option.splits)
  then have "\<exists>n. \<forall>x\<in>set vs. conf False env n et x"
    by (rule uniform_bound) (use conf_mono [OF env assms(5)] in auto)
  then obtain n where "\<forall>x\<in>set vs. conf False env n et x" ..
  then have "conf False env (Suc n) t (VSlice q)"
    using assms(2-4) by (intro conf_listI) (auto simp: vs_def)
  then show ?thesis by (auto simp: ok_def)
qed

lemma ok_map:
  assumes env: "wfEnv bv env" and
    "tT t = tMAP" "tK t = Some kt" "tV t = Some vt" "\<not> tIsPointer t"
    "wfT bv env kt" "wfT bv env vt"
    "\<And>c kvs k v. q = Some (c, kvs) \<Longrightarrow> (k, v) \<in> set kvs \<Longrightarrow> ok env kt k \<and> ok env vt v"
  shows "ok env t (VMap q)"
proof -
  define kvs where "kvs = (case q of Some m \<Rightarrow> snd m | None \<Rightarrow> [])"
  have "\<exists>n. conf False env n kt (fst x) \<and> conf False env n vt (snd x)" if x: "x \<in> set kvs" for x
  proof -
    have "ok env kt (fst x) \<and> ok env vt (snd x)"
      using assms(8) [of "fst (the q)" kvs "fst x" "snd x"] x
      by (auto simp: kvs_def split: option.splits)
    then obtain n m where "conf False env n kt (fst x)" "conf False env m vt (snd x)"
      by (auto simp: ok_def)
    then have "conf False env (max n m) kt (fst x)" "conf False env (max n m) vt (snd x)"
      using conf_mono [OF env assms(6)] conf_mono [OF env assms(7)] by auto
    then show ?thesis by blast
  qed
  then have "\<exists>n. \<forall>x\<in>set kvs. conf False env n kt (fst x) \<and> conf False env n vt (snd x)"
    by (rule uniform_bound) (use conf_mono [OF env assms(6)] conf_mono [OF env assms(7)] in blast)+
  then obtain n where "\<forall>x\<in>set kvs. conf False env n kt (fst x) \<and> conf False env n vt (snd x)" ..
  then have "conf False env (Suc n) t (VMap q)"
    using assms(2-5) by (intro conf_mapI) (auto simp: kvs_def)
  then show ?thesis by (auto simp: ok_def)
qed

lemma ok_struct:
  assumes "tT t = tSTRUCT" "Sd env t = Ok sd" "okFs env sd cs"
  shows "ok env t (wrapElem t (VStruct cs))"
  using assms conf_structI [of t env sd False _ cs] by (auto simp: ok_def okFs_def)

lemma ok_structE:
  assumes "ok env t (wrapElem t c)" "wfT bv env t" "tT t = tSTRUCT" "Sd env t = Ok sd"
  obtains cs where "c = VStruct cs" "okFs env sd cs"
proof -
  from assms(1) obtain n where n: "conf False env n t (wrapElem t c)" by (auto simp: ok_def)
  then obtain m where "n = Suc m" by (cases n) (auto simp: conf.simps)
  with n have "conf False env (Suc m) t (wrapElem t c)" by simp
  from this assms(2) show thesis
    by (cases rule: conf_cases)
       (use assms(3,4) that in \<open>auto simp: wrapElem_def okFs_def simpleTypes_def split: if_splits\<close>)
qed

text \<open>A struct, field by field.\<close>

definition okField :: "env \<Rightarrow> tField \<Rightarrow> gval \<Rightarrow> bool" where
  "okField env f v \<longleftrightarrow> (fCanSkipEncodeIfNil f \<and> tIsPointer (fType f) \<and> v = VPtr None) \<or> ok env (fType f) v"

lemma okFs_iff:
  assumes env: "wfEnv bv env" and sd: "wfSd bv env sd"
  shows "okFs env sd cs \<longleftrightarrow>
    (\<forall>f\<in>set (sd_fields sd). \<exists>v. map_of cs (fOffset f) = Some v \<and> okField env f v) \<and>
    (hasUnknownFields sd \<longrightarrow> (\<exists>q. map_of cs (unknownFieldsOffset sd) = Some (VBytes q)))"
proof
  assume "okFs env sd cs"
  then show "(\<forall>f\<in>set (sd_fields sd). \<exists>v. map_of cs (fOffset f) = Some v \<and> okField env f v) \<and>
    (hasUnknownFields sd \<longrightarrow> (\<exists>q. map_of cs (unknownFieldsOffset sd) = Some (VBytes q)))"
    by (auto simp: okFs_def confFields_def okField_def ok_def split: option.splits gval.splits
        dest!: bspec)
next
  assume a: "(\<forall>f\<in>set (sd_fields sd). \<exists>v. map_of cs (fOffset f) = Some v \<and> okField env f v) \<and>
    (hasUnknownFields sd \<longrightarrow> (\<exists>q. map_of cs (unknownFieldsOffset sd) = Some (VBytes q)))"
  let ?P = "\<lambda>n f. \<exists>v. map_of cs (fOffset f) = Some v \<and>
      ((fCanSkipEncodeIfNil f \<and> tIsPointer (fType f) \<and> v = VPtr None) \<or> conf False env n (fType f) v)"
  have wf: "wfT bv env (fType f)" if "f \<in> set (sd_fields sd)" for f
    using sd that by (auto simp: wfSd_def wfField_def)
  have "\<exists>n. \<forall>f\<in>set (sd_fields sd). ?P n f"
  proof (rule uniform_bound)
    show "\<exists>n. ?P n f" if "f \<in> set (sd_fields sd)" for f
      using a that by (fastforce simp: okField_def ok_def)
    show "?P m f" if "f \<in> set (sd_fields sd)" "?P n f" "n \<le> m" for f n m
      using that conf_mono [OF env wf [OF that(1)]] by blast
  qed simp
  then show "okFs env sd cs"
    using a unfolding okFs_def confFields_def by fastforce
qed

end
