(* ===== verification/DecodeSafe.thy ===== *)
theory DecodeSafe
  imports ConformLib DescCorrect
begin

text \<open>
  The decoder is safe on any input: whatever the bytes, it neither reads nor writes memory as
  the wrong type, does not follow a nil pointer and consumes no more than the input; the only
  panic is the bounds check of a slice of the input. The object conforms to its type
  afterwards, on an error too, and so do the pooled cells.
\<close>

subsection \<open>The environment\<close>

text \<open>
  What the decoder relies on: well-formed descriptors; cleared memory of a struct type and the
  user's \<^verbatim>\<open>InitDefault\<close> give conforming structs; \<^verbatim>\<open>thrift.Binary.Skip\<close> does not report more
  than it was given; an allocation has the size asked for.
\<close>

definition sd_init_ok :: "env \<Rightarrow> structDesc \<Rightarrow> bool" where
  "sd_init_ok env sd \<longleftrightarrow>
     (\<exists>cs. sd_zero sd = VStruct cs \<and> okFs env sd cs) \<and>
     (hasInitFunc sd \<longrightarrow> (\<forall>cs. okFs env sd cs \<longrightarrow>
        (\<exists>cs'. initFunc sd (VStruct cs) = VStruct cs' \<and> okFs env sd cs')))"

definition ctx_ok :: "bool \<Rightarrow> dctx \<Rightarrow> bool" where
  "ctx_ok bv cx \<longleftrightarrow>
     wfEnv bv (cx_env cx) \<and>
     (\<forall>i sd. cx_env cx i = Some sd \<longrightarrow> sd_init_ok (cx_env cx) sd) \<and>
     (\<forall>b tp n. cx_skip cx b tp = Inr n \<longrightarrow> n \<le> length b) \<and>
     (\<forall>n. length (cx_junk cx n) = n)"

lemma ctx_env: "ctx_ok bv cx \<Longrightarrow> wfEnv bv (cx_env cx)"
  by (simp add: ctx_ok_def)

lemma Sd_env: "Sd env t = Ok sd \<Longrightarrow> \<exists>i. env i = Some sd"
  by (auto simp: Sd_def split: option.splits)

lemma ctx_zero:
  assumes "ctx_ok bv cx" "Sd (cx_env cx) t = Ok sd"
  obtains cs where "sd_zero sd = VStruct cs" "okFs (cx_env cx) sd cs"
proof -
  have "sd_init_ok (cx_env cx) sd" using assms(1) Sd_env [OF assms(2)] by (auto simp: ctx_ok_def)
  with that show thesis by (auto simp: sd_init_ok_def)
qed

lemma ctx_init:
  assumes "ctx_ok bv cx" "Sd (cx_env cx) t = Ok sd" "okFs (cx_env cx) sd cs"
  obtains cs' where "(if hasInitFunc sd then initFunc sd (VStruct cs) else VStruct cs) = VStruct cs'"
    "okFs (cx_env cx) sd cs'"
proof -
  have "sd_init_ok (cx_env cx) sd" using assms(1) Sd_env [OF assms(2)] by (auto simp: ctx_ok_def)
  with assms(3) that show thesis by (cases "hasInitFunc sd") (auto simp: sd_init_ok_def)
qed

lemma ctx_skip: "ctx_ok bv cx \<Longrightarrow> cx_skip cx b tp = Inr n \<Longrightarrow> n \<le> length b"
  by (simp add: ctx_ok_def)

text \<open>The pools hold what was put in them.\<close>

definition dok :: "bool \<Rightarrow> dctx \<Rightarrow> dstate \<Rightarrow> bool" where
  "dok bv cx d \<longleftrightarrow>
     (\<forall>s\<in>set (d_bitsets d). bitset_ok s) \<and>
     (\<forall>t kt vt. wfT bv (cx_env cx) t \<and> tT t = tMAP \<and> tK t = Some kt \<and> tV t = Some vt \<longrightarrow>
        (\<forall>x\<in>set (d_tmp d t). ok (cx_env cx) kt (fst x) \<and> ok (cx_env cx) vt (snd x)))"

lemma dok_span [simp]: "dok bv cx (d\<lparr>d_s := s\<rparr>) = dok bv cx d"
  by (simp add: dok_def)

lemma dok_Malloc [simp]: "dok bv cx (d_Malloc cx n a abi d) = dok bv cx d"
  by (simp add: d_Malloc_def)

subsection \<open>Cells\<close>

lemma zeroV_ok:
  assumes cx: "ctx_ok bv cx" and wf: "wfT bv (cx_env cx) t" and p: "tIsPointer t \<Longrightarrow> tT t = tSTRUCT"
  shows "ok (cx_env cx) t (zeroV (cx_env cx) t)"
proof (cases "tIsPointer t")
  case True
  with p show ?thesis by (simp add: zeroV_def ok_nil)
next
  case np: False
  note env = ctx_env [OF cx]
  have np': "wrapElem t w = w" for w using np by (simp add: wrapElem_def)
  consider (s) "simpleTypes (tT t)" | (l) "tT t = tLIST \<or> tT t = tSET" | (m) "tT t = tMAP" |
    (st) "tT t = tSTRUCT"
    using wfT_valueTypes [OF wf] by (auto simp: valueTypes_def simpleTypes_def)
  then show ?thesis
  proof cases
    case s
    have "confSimple False t (zeroV (cx_env cx) t)"
      using s np by (auto simp: zeroV_def confSimple_def simpleTypes_def)
    with s np' show ?thesis using ok_simple by metis
  next
    case l
    from wfT_list [OF wf l] obtain et where "tV t = Some et" "wfT bv (cx_env cx) et" by metis
    moreover have "zeroV (cx_env cx) t = VSlice None" using l np by (auto simp: zeroV_def)
    ultimately show ?thesis using ok_list [OF env l _ np, of et None] by simp
  next
    case m
    from wfT_map [OF wf m] obtain kt vt where "tK t = Some kt" "tV t = Some vt"
      "wfT bv (cx_env cx) kt" "wfT bv (cx_env cx) vt" by metis
    moreover have "zeroV (cx_env cx) t = VMap None" using m np by (auto simp: zeroV_def)
    ultimately show ?thesis using ok_map [OF env m _ _ np, of kt vt None] by simp
  next
    case st
    from wfT_Sd [OF wf st] obtain sd where sd: "Sd (cx_env cx) t = Ok sd" by metis
    from ctx_zero [OF cx sd] obtain cs where cs: "sd_zero sd = VStruct cs" "okFs (cx_env cx) sd cs"
      by metis
    have "zeroV (cx_env cx) t = VStruct cs" using st np sd cs by (simp add: zeroV_def)
    with ok_struct [OF st sd cs(2)] np' show ?thesis by simp
  qed
qed

lemma newMem_ok:
  assumes cx: "ctx_ok bv cx" and wf: "wfT bv (cx_env cx) t" and p: "tIsPointer t \<Longrightarrow> tT t = tSTRUCT"
    and m: "tIsPointer t \<or> typeToSize (tT t) = 0"
  shows "ok (cx_env cx) t (newMem cx t)"
  using zeroV_ok [OF cx wf p] wfT_abi [OF wf m] by (auto simp: newMem_def)

lemma newMem_pointee:
  assumes cx: "ctx_ok bv cx" and wf: "wfT bv (cx_env cx) t" and p: "tIsPointer t"
    and z: "typeToSize (tT t) = 0"
  obtains v where "tV t = Some v" "ok (cx_env cx) t (wrapElem t (newMem cx v))"
proof -
  obtain v where v: "tV t = Some v" "tT v = tT t" "\<not> tIsPointer v" "tTag t = T_pointer"
    "tMallocAbiType v \<noteq> None"
    "simpleTypes (tT t) \<longrightarrow> tTag v \<noteq> T_binary"
    "tT t = tSTRUCT \<longrightarrow> struct_id (tRT v) = struct_id (tRT t)"
    using wfT_pointee [OF wf p] z by blast
  have nm: "newMem cx v = zeroV (cx_env cx) v" using v(5) by (auto simp: newMem_def)
  have "ok (cx_env cx) t (wrapElem t (newMem cx v))"
  proof (cases "tT t = tSTRUCT")
    case True
    obtain sd where sd: "Sd (cx_env cx) t = Ok sd" using wfT_Sd [OF wf True] by blast
    then have "Sd (cx_env cx) v = Ok sd" using v(7) True by (simp add: Sd_def)
    moreover from ctx_zero [OF cx sd] obtain cs where "sd_zero sd = VStruct cs" "okFs (cx_env cx) sd cs"
      by metis
    ultimately show ?thesis using ok_struct [OF True sd] True v(2,3) by (simp add: nm zeroV_def)
  next
    case False
    with wfT_isp [OF wf p] have s: "simpleTypes (tT t)" by blast
    with z have "tT t = tSTRING" using typeToSize_pos [of "tT t"] by auto
    with s v show ?thesis by (auto simp: nm zeroV_def confSimple_def intro!: ok_simple)
  qed
  with v(1) that show thesis by blast
qed

text \<open>The cell a decode function gets for an element or a field.\<close>

lemma elemCell_ok:
  assumes cx: "ctx_ok bv cx" and wf: "wfT bv (cx_env cx) t"
    and c: "\<not> tIsPointer t \<Longrightarrow> typeToSize (tT t) = 0 \<Longrightarrow> ok (cx_env cx) t c"
  shows "\<exists>c'. elemCell cx t c = Ok c' \<and>
    (typeToSize (tT t) = 0 \<longrightarrow> ok (cx_env cx) t (wrapElem t c'))"
proof (cases "tIsPointer t")
  case True
  obtain v where v: "tV t = Some v" using wfT_pointee [OF wf True] by blast
  with newMem_pointee [OF cx wf True] have "typeToSize (tT t) = 0 \<Longrightarrow>
      ok (cx_env cx) t (wrapElem t (newMem cx v))" by fastforce
  with True v show ?thesis by (simp add: elemCell_def)
next
  case False
  with c show ?thesis by (simp add: elemCell_def wrapElem_def)
qed

lemma mallocElems_ok:
  assumes "wfT bv env t"
  obtains d' where "mallocElems cx t l d = Ok d'" "dok bv cx d' = dok bv cx d"
proof (cases "tIsPointer t")
  case True
  obtain v where "tV t = Some v" using wfT_pointee [OF assms True] by blast
  with that True show thesis by (cases "l > 0") (auto simp: mallocElems_def)
qed (use that in \<open>auto simp: mallocElems_def\<close>)

subsection \<open>What holds of a result\<close>

definition res_ok :: "bool \<Rightarrow> dctx \<Rightarrow> tType \<Rightarrow> nat \<Rightarrow> dres \<Rightarrow> bool" where
  "res_ok bv cx t len r \<longleftrightarrow>
     (case r of
        DOk n v d \<Rightarrow> n \<le> len \<and> ok (cx_env cx) t (wrapElem t v) \<and> dok bv cx d
      | DErr n e v d \<Rightarrow> n \<le> len \<and> ok (cx_env cx) t (wrapElem t v) \<and> dok bv cx d
      | DPanic p \<Rightarrow> p = IndexOutOfRange)"

text \<open>The induction hypothesis: what \<^verbatim>\<open>decodeType\<close> does for the types of no fixed size.\<close>

definition dfun_ok :: "bool \<Rightarrow> dctx \<Rightarrow> dfun \<Rightarrow> bool" where
  "dfun_ok bv cx dt \<longleftrightarrow>
     (\<forall>t b c d. wfT bv (cx_env cx) t \<longrightarrow> typeToSize (tT t) = 0 \<longrightarrow>
        ok (cx_env cx) t (wrapElem t c) \<longrightarrow> dok bv cx d \<longrightarrow> res_ok bv cx t (length b) (dt t b c d))"

lemma dfun_okD:
  assumes "dfun_ok bv cx dt" "wfT bv (cx_env cx) t" "typeToSize (tT t) = 0"
    "ok (cx_env cx) t (wrapElem t c)" "dok bv cx d"
  shows "res_ok bv cx t (length b) (dt t b c d)"
  using assms by (simp add: dfun_ok_def)

subsection \<open>Scalars and strings\<close>

lemma index_panic: "index b i = Panic p \<Longrightarrow> p = IndexOutOfRange"
  by (auto simp: index_def split: if_splits)

lemma sliceFrom_panic: "sliceFrom b i = Panic p \<Longrightarrow> p = IndexOutOfRange"
  by (auto simp: sliceFrom_def split: if_splits)

lemma be_panics:
  "beByte b = Panic p \<Longrightarrow> p = IndexOutOfRange" "beUint16 b = Panic p \<Longrightarrow> p = IndexOutOfRange"
  "beUint32 b = Panic p \<Longrightarrow> p = IndexOutOfRange" "beUint64 b = Panic p \<Longrightarrow> p = IndexOutOfRange"
  using be8.get_short [of b] be16.get_short [of b] be32.get_short [of b] be64.get_short [of b]
    be8.get_complete [of b] be16.get_complete [of b] be32.get_complete [of b] be64.get_complete [of b]
  by (metis go.distinct(1) go.inject(2) linorder_not_le)+

lemma decodeFixed_panic:
  assumes "decodeFixedSizeTypes t b = Panic p" "typeToSize t > 0"
  shows "p = IndexOutOfRange"
  using assms be_panics [of b]
  by (cases "beByte b"; cases "beUint16 b"; cases "beUint32 b"; cases "beUint64 b")
     (auto simp: decodeFixedSizeTypes_def typeToSize_def split: if_splits)

lemma decodeFixed_ok:
  assumes "decodeFixedSizeTypes (tT t) b = Ok (v, n)"
  shows "n \<le> length b" "typeToSize (tT t) = n" "ok env t (wrapElem t v)"
proof -
  have len: "beByte b = Ok w1 \<Longrightarrow> 1 \<le> length b" "beUint16 b = Ok w2 \<Longrightarrow> 2 \<le> length b"
    "beUint32 b = Ok w3 \<Longrightarrow> 4 \<le> length b" "beUint64 b = Ok w4 \<Longrightarrow> 8 \<le> length b" for w1 w2 w3 w4
    using be8.get_Ok_iff be16.get_Ok_iff be32.get_Ok_iff be64.get_Ok_iff by blast+
  show "n \<le> length b" "typeToSize (tT t) = n"
    using assms len
    by (cases "beByte b"; cases "beUint16 b"; cases "beUint32 b"; cases "beUint64 b";
        force simp: decodeFixedSizeTypes_def typeToSize_def split: if_splits)+
  have "simpleTypes (tT t)" "confSimple False t v"
    using assms
    by (cases "beByte b"; cases "beUint16 b"; cases "beUint32 b"; cases "beUint64 b";
        force simp: decodeFixedSizeTypes_def simpleTypes_def confSimple_def split: if_splits)+
  then show "ok env t (wrapElem t v)" by (rule ok_simple)
qed

lemma res_ok_simps [simp]:
  "res_ok bv cx t len (DOk n v d) \<longleftrightarrow> n \<le> len \<and> ok (cx_env cx) t (wrapElem t v) \<and> dok bv cx d"
  "res_ok bv cx t len (DErr n e v d) \<longleftrightarrow> n \<le> len \<and> ok (cx_env cx) t (wrapElem t v) \<and> dok bv cx d"
  "res_ok bv cx t len (DPanic p) \<longleftrightarrow> p = IndexOutOfRange"
  by (simp_all add: res_ok_def)

lemma res_ok_dgo:
  assumes "\<And>p. m = Panic p \<Longrightarrow> p = IndexOutOfRange" "\<And>x. m = Ok x \<Longrightarrow> res_ok bv cx t len (k x)"
  shows "res_ok bv cx t len (dgo m k)"
  using assms by (cases m) (auto simp: dgo_def)

lemma beLen_panic: "beLen b = Panic p \<Longrightarrow> p = IndexOutOfRange"
  using be_panics(3) [of b] by (cases "beUint32 b") (auto simp: beLen_def)

lemma storeString_ok: "tT t = tSTRING \<Longrightarrow> ok env t (wrapElem t (storeString t s))"
  by (rule ok_simple) (auto simp: simpleTypes_def storeString_def confSimple_def)

lemma decodeString_ok:
  assumes "tT t = tSTRING" "ok (cx_env cx) t (wrapElem t c)" "dok bv cx d"
  shows "res_ok bv cx t (length b) (decodeString cx t b c d)"
    and "res_ok bv cx t (length b) (decodeStringNoCopy t b c d)"
  using assms
  by (auto simp: decodeString_def decodeStringNoCopy_def strHeaderLen_def storeString_ok beLen_panic
      intro!: res_ok_dgo)

subsection \<open>Elements\<close>

text \<open>What an element, a key or a value gives at offset \<open>i\<close>; errors are not for fixed sizes.\<close>

definition at_ok :: "bool \<Rightarrow> dctx \<Rightarrow> tType \<Rightarrow> nat \<Rightarrow> nat \<Rightarrow> dres \<Rightarrow> bool" where
  "at_ok bv cx t len i r \<longleftrightarrow>
     (case r of
        DOk n v d \<Rightarrow> i + n \<le> len \<and> ok (cx_env cx) t (wrapElem t v) \<and> dok bv cx d
      | DErr n e v d \<Rightarrow> typeToSize (tT t) = 0 \<and> ok (cx_env cx) t (wrapElem t v) \<and> dok bv cx d
      | DPanic p \<Rightarrow> p = IndexOutOfRange)"

lemma at_ok_simps [simp]:
  "at_ok bv cx t len i (DOk n v d) \<longleftrightarrow>
     i + n \<le> len \<and> ok (cx_env cx) t (wrapElem t v) \<and> dok bv cx d"
  "at_ok bv cx t len i (DErr n e v d) \<longleftrightarrow>
     typeToSize (tT t) = 0 \<and> ok (cx_env cx) t (wrapElem t v) \<and> dok bv cx d"
  "at_ok bv cx t len i (DPanic p) \<longleftrightarrow> p = IndexOutOfRange"
  by (simp_all add: at_ok_def)

lemma decodeAt_ok:
  assumes dt: "dfun_ok bv cx dt" and wf: "wfT bv (cx_env cx) t" and d: "dok bv cx d"
    and c: "typeToSize (tT t) = 0 \<Longrightarrow> ok (cx_env cx) t (wrapElem t c)"
  shows "at_ok bv cx t (length b) i (decodeAt dt t b i c d)"
proof (cases "sliceFrom b i")
  case (Panic p)
  then show ?thesis using sliceFrom_panic [OF Panic] by (simp add: decodeAt_def dgo_def)
next
  case (Ok b')
  then have b': "b' = drop i b" "i \<le> length b" by (auto simp: sliceFrom_def split: if_splits)
  show ?thesis
  proof (cases "typeToSize (tT t) = 0")
    case True
    from dfun_okD [OF dt wf True c [OF True] d, of b'] True b' show ?thesis
      by (cases "dt t b' c d") (auto simp: decodeAt_def dgo_def Ok wfT_fixed_sel [OF wf])
  next
    case False
    show ?thesis
    proof (cases "decodeFixedSizeTypes (tT t) b'")
      case (Ok x)
      then obtain v n where "decodeFixedSizeTypes (tT t) b' = Ok (v, n)" by (cases x) auto
      from decodeFixed_ok [OF this] this False d b' show ?thesis
        by (simp add: decodeAt_def dgo_def \<open>sliceFrom b i = Ok b'\<close> wfT_fixed_sel [OF wf])
    next
      case (Panic p)
      from decodeFixed_panic [OF this] this False show ?thesis
        by (simp add: decodeAt_def dgo_def \<open>sliceFrom b i = Ok b'\<close> wfT_fixed_sel [OF wf])
    qed
  qed
qed

subsection \<open>Lists\<close>

definition lres_ok :: "bool \<Rightarrow> dctx \<Rightarrow> tType \<Rightarrow> nat \<Rightarrow> lres \<Rightarrow> bool" where
  "lres_ok bv cx et len r \<longleftrightarrow>
     (case r of
        LOk i cs d \<Rightarrow> i \<le> len \<and> (\<forall>c\<in>set cs. ok (cx_env cx) et c) \<and> dok bv cx d
      | LErr i e cs d \<Rightarrow> i \<le> len \<and> (\<forall>c\<in>set cs. ok (cx_env cx) et c) \<and> dok bv cx d
      | LPanic p \<Rightarrow> p = IndexOutOfRange)"

lemma decodeElems_ok:
  assumes cx: "ctx_ok bv cx" and dt: "dfun_ok bv cx dt" and wf: "wfT bv (cx_env cx) et"
    and el: "elemOK et"
  shows "dok bv cx d \<Longrightarrow> i \<le> length b \<Longrightarrow>
    lres_ok bv cx et (length b) (decodeElems cx dt et b l i d)"
proof (induction l arbitrary: i d)
  case 0
  then show ?case by (simp add: lres_ok_def)
next
  case (Suc l)
  have p: "tIsPointer et \<Longrightarrow> tT et = tSTRUCT" using el by (simp add: elemOK_def)
  have nm: "typeToSize (tT et) = 0 \<Longrightarrow> ok (cx_env cx) et (newMem cx et)"
    by (intro newMem_ok [OF cx wf]) (auto intro: p)
  obtain c where c: "elemCell cx et (newMem cx et) = Ok c"
    "typeToSize (tT et) = 0 \<longrightarrow> ok (cx_env cx) et (wrapElem et c)"
    using elemCell_ok [OF cx wf, of "newMem cx et"] nm by metis
  have A: "at_ok bv cx et (length b) i (decodeAt dt et b i c d)"
    by (rule decodeAt_ok [OF dt wf Suc.prems(1)]) (simp add: c(2))
  show ?case
  proof (cases "decodeAt dt et b i c d")
    case (DOk n v d')
    with A have n: "i + n \<le> length b" "ok (cx_env cx) et (wrapElem et v)" "dok bv cx d'" by simp_all
    from Suc.IH [OF n(3,1)] n(2) show ?thesis
      by (cases "decodeElems cx dt et b l (i + n) d'") (simp_all add: lres_ok_def c(1) DOk)
  next
    case (DErr n e v d')
    with A nm Suc.prems(2) show ?thesis by (auto simp add: lres_ok_def c(1))
  next
    case (DPanic p)
    with A show ?thesis by (simp add: lres_ok_def c(1))
  qed
qed

lemma minWireSize_valueTypes: "T \<in> set valueTypes \<Longrightarrow> minWireSize (if T = tENUM then tI32 else T) > 0"
  by (auto simp: valueTypes_def minWireSize_def)

lemma minWireSize_pos: "wfT bv env t \<Longrightarrow> minWireSize (tWT t) > 0"
  using minWireSize_valueTypes [OF wfT_valueTypes] by (simp add: wfT_WT_sel)

lemma decodeList_ok:
  assumes cx: "ctx_ok bv cx" and dt: "dfun_ok bv cx dt" and wf: "wfT bv (cx_env cx) t"
    and T: "tT t = tLIST \<or> tT t = tSET" and c: "ok (cx_env cx) t (wrapElem t c)" and d: "dok bv cx d"
  shows "res_ok bv cx t (length b) (decodeList cx dt t b c d)"
proof -
  obtain et where et: "tV t = Some et" "wfT bv (cx_env cx) et" "elemOK et" "\<not> tIsPointer t"
    using wfT_list [OF wf T] by blast
  note env = ctx_env [OF cx]
  have mw: "minWireSize (tWT et) \<noteq> 0"
    using minWireSize_pos [OF et(2)] by simp
  have np: "wrapElem t w = w" for w using et(4) by (simp add: wrapElem_def)
  have list: "ok (cx_env cx) t (VSlice (Some cs))" if "\<forall>c\<in>set cs. ok (cx_env cx) et c" for cs
    using that by (intro ok_list [OF env T et(1,4,2)]) auto
  have loop: "res_ok bv cx t (length b)
      (case decodeElems cx dt et b l 5 d of
         LPanic p \<Rightarrow> DPanic p
       | LErr i e cs d \<Rightarrow> DErr i e (VSlice (Some cs)) d
       | LOk i cs d \<Rightarrow> DOk i (VSlice (Some cs)) d)" if "dok bv cx d" "5 \<le> length b" for l d
    using decodeElems_ok [OF cx dt et(2,3) that, of l] list
    by (auto simp: lres_ok_def np split: lres.splits)
  show ?thesis
  proof (cases "length b < listHeaderLen")
    case True
    then show ?thesis using c d by (simp add: decodeList_def)
  next
    case False
    then have len: "5 \<le> length b" by (simp add: listHeaderLen_def)
    have mal: "res_ok bv cx t (length b) (dgo (mallocElems cx et l d) k)"
      if "\<And>d. dok bv cx d \<Longrightarrow> res_ok bv cx t (length b) (k d)" "dok bv cx d" for l d k
    proof -
      obtain d' where "mallocElems cx et l d = Ok d'" "dok bv cx d' = dok bv cx d"
        using et(2) by (rule mallocElems_ok)
      then show ?thesis using that by (simp add: dgo_def)
    qed
    have "sliceFrom b 1 = Ok (drop 1 b)" using len by simp
    with False show ?thesis
      unfolding decodeList_def
      using mw c d len
      by (auto intro!: res_ok_dgo mal loop simp: et(1) Let_def index_panic beLen_panic np list)
  qed
qed

subsection \<open>Maps\<close>

lemma setMapIndex_set: "x \<in> set (setMapIndex kt m k v) \<Longrightarrow> x = (k, v) \<or> x \<in> set m"
  by (induction kt m k v rule: setMapIndex.induct) (auto split: if_splits)

definition entries_ok :: "env \<Rightarrow> tType \<Rightarrow> tType \<Rightarrow> (gval \<times> gval) list \<Rightarrow> bool" where
  "entries_ok env kt vt m \<longleftrightarrow> (\<forall>x\<in>set m. ok env kt (fst x) \<and> ok env vt (snd x))"

lemma entries_ok_set:
  "entries_ok env kt vt m \<Longrightarrow> ok env kt k \<Longrightarrow> ok env vt v \<Longrightarrow>
   entries_ok env kt vt (setMapIndex kt m k v)"
  using setMapIndex_set by (fastforce simp: entries_ok_def)

definition mres_ok :: "bool \<Rightarrow> dctx \<Rightarrow> tType \<Rightarrow> tType \<Rightarrow> nat \<Rightarrow> mres \<Rightarrow> bool" where
  "mres_ok bv cx kt vt len r \<longleftrightarrow>
     (case r of
        MOk i kc vc m d \<Rightarrow> i \<le> len \<and> ok (cx_env cx) kt kc \<and> ok (cx_env cx) vt vc \<and>
          entries_ok (cx_env cx) kt vt m \<and> dok bv cx d
      | MErr i e kc vc d \<Rightarrow> i \<le> len \<and> ok (cx_env cx) kt kc \<and> ok (cx_env cx) vt vc \<and> dok bv cx d
      | MPanic p \<Rightarrow> p = IndexOutOfRange)"

lemma mres_ok_simps [simp]:
  "mres_ok bv cx kt vt len (MOk i kc vc m d) \<longleftrightarrow> i \<le> len \<and> ok (cx_env cx) kt kc \<and>
     ok (cx_env cx) vt vc \<and> entries_ok (cx_env cx) kt vt m \<and> dok bv cx d"
  "mres_ok bv cx kt vt len (MErr i e kc vc d) \<longleftrightarrow> i \<le> len \<and> ok (cx_env cx) kt kc \<and>
     ok (cx_env cx) vt vc \<and> dok bv cx d"
  "mres_ok bv cx kt vt len (MPanic p) \<longleftrightarrow> p = IndexOutOfRange"
  by (simp_all add: mres_ok_def)

text \<open>A key or a value into the cell the loop keeps for it.\<close>

lemma decodeTmp_ok:
  assumes cx: "ctx_ok bv cx" and dt: "dfun_ok bv cx dt" and wf: "wfT bv (cx_env cx) t"
    and c: "ok (cx_env cx) t c" and d: "dok bv cx d"
  shows "\<exists>c'. elemCell cx t c = Ok c' \<and> at_ok bv cx t (length b) i (decodeAt dt t b i c' d)"
proof -
  obtain c' where "elemCell cx t c = Ok c'"
    "typeToSize (tT t) = 0 \<longrightarrow> ok (cx_env cx) t (wrapElem t c')"
    using elemCell_ok [OF cx wf, of c] c by metis
  moreover from this have "at_ok bv cx t (length b) i (decodeAt dt t b i c' d)"
    by (intro decodeAt_ok [OF dt wf d]) simp
  ultimately show ?thesis by blast
qed

lemma decodeEntries_ok:
  assumes cx: "ctx_ok bv cx" and dt: "dfun_ok bv cx dt"
    and kt: "wfT bv (cx_env cx) kt" and vt: "wfT bv (cx_env cx) vt"
  shows "dok bv cx d \<Longrightarrow> i \<le> length b \<Longrightarrow> ok (cx_env cx) kt kc \<Longrightarrow> ok (cx_env cx) vt vc \<Longrightarrow>
    entries_ok (cx_env cx) kt vt m \<Longrightarrow>
    mres_ok bv cx kt vt (length b) (decodeEntries cx dt kt vt b l i kc vc m d)"
proof (induction l arbitrary: i kc vc m d)
  case (Suc l)
  obtain c where c: "elemCell cx kt kc = Ok c"
    "at_ok bv cx kt (length b) i (decodeAt dt kt b i c d)"
    using decodeTmp_ok [OF cx dt kt Suc.prems(3,1)] by blast
  show ?case
  proof (cases "decodeAt dt kt b i c d")
    case (DOk n k d1)
    with c have k: "i + n \<le> length b" "ok (cx_env cx) kt (wrapElem kt k)" "dok bv cx d1" by simp_all
    obtain c2 where c2: "elemCell cx vt vc = Ok c2"
      "at_ok bv cx vt (length b) (i + n) (decodeAt dt vt b (i + n) c2 d1)"
      using decodeTmp_ok [OF cx dt vt Suc.prems(4) k(3)] by blast
    show ?thesis
    proof (cases "decodeAt dt vt b (i + n) c2 d1")
      case D2: (DOk n2 v d2)
      with c2 have v: "i + n + n2 \<le> length b" "ok (cx_env cx) vt (wrapElem vt v)" "dok bv cx d2"
        by simp_all
      from Suc.IH [OF v(3,1) k(2) v(2) entries_ok_set [OF Suc.prems(5) k(2) v(2)]]
      show ?thesis by (simp add: c(1) DOk c2(1) D2 Let_def)
    next
      case (DErr n2 e v d2)
      with c2 k show ?thesis by (simp add: c(1) DOk c2(1) Let_def)
    next
      case (DPanic p)
      with c2 show ?thesis by (simp add: c(1) DOk c2(1) Let_def)
    qed
  next
    case (DErr n e k d1)
    with c Suc.prems show ?thesis by simp
  next
    case (DPanic p)
    with c show ?thesis by simp
  qed
qed simp

lemma getTmp_ok:
  assumes cx: "ctx_ok bv cx" and d: "dok bv cx d" and wf: "wfT bv (cx_env cx) t"
    and t: "tT t = tMAP" "tK t = Some kt" "tV t = Some vt"
    and kv: "wfT bv (cx_env cx) kt" "wfT bv (cx_env cx) vt" "keyOK kt" "elemOK vt"
    and r: "getTmp cx t kt vt d = ((kc, vc), d')"
  shows "ok (cx_env cx) kt kc" "ok (cx_env cx) vt vc" "dok bv cx d'"
proof -
  have z: "ok (cx_env cx) kt (zeroV (cx_env cx) kt)" "ok (cx_env cx) vt (zeroV (cx_env cx) vt)"
    using kv(3,4) by (intro zeroV_ok [OF cx] kv(1,2); simp add: keyOK_def elemOK_def)+
  have p: "\<forall>x\<in>set (d_tmp d t). ok (cx_env cx) kt (fst x) \<and> ok (cx_env cx) vt (snd x)"
    using d wf t by (simp add: dok_def)
  show "ok (cx_env cx) kt kc" "ok (cx_env cx) vt vc"
    using r z p by (auto simp: getTmp_def split: list.splits)
  show "dok bv cx d'"
  proof (cases "d_tmp d t")
    case Nil
    with r d show ?thesis by (simp add: getTmp_def)
  next
    case (Cons x xs)
    with r have "d' = d\<lparr>d_tmp := (d_tmp d)(t := xs)\<rparr>" by (simp add: getTmp_def)
    with d Cons show ?thesis by (auto simp: dok_def)
  qed
qed

lemma putTmp_ok:
  assumes "dok bv cx d" "tK t = Some kt" "tV t = Some vt"
    "ok (cx_env cx) kt kc" "ok (cx_env cx) vt vc"
  shows "dok bv cx (putTmp t (kc, vc) d)"
proof -
  have "ok (cx_env cx) k' (fst x) \<and> ok (cx_env cx) v' (snd x)"
    if "wfT bv (cx_env cx) t'" "tT t' = tMAP" "tK t' = Some k'" "tV t' = Some v'"
      "x \<in> set (d_tmp (putTmp t (kc, vc) d) t')" for t' k' v' x
  proof (cases "t' = t \<and> x = (kc, vc)")
    case True
    with assms that show ?thesis by simp
  next
    case False
    with that have "x \<in> set (d_tmp d t')" by (auto simp: putTmp_def split: if_splits)
    with assms(1) that show ?thesis by (simp add: dok_def)
  qed
  moreover have "d_bitsets (putTmp t (kc, vc) d) = d_bitsets d" by (simp add: putTmp_def)
  ultimately show ?thesis using assms(1) unfolding dok_def by metis
qed

lemma decodeMap_ok:
  assumes cx: "ctx_ok bv cx" and dt: "dfun_ok bv cx dt" and wf: "wfT bv (cx_env cx) t"
    and T: "tT t = tMAP" and c: "ok (cx_env cx) t (wrapElem t c)" and d: "dok bv cx d"
  shows "res_ok bv cx t (length b) (decodeMap cx dt t b c d)"
proof -
  obtain kt vt where kv: "tK t = Some kt" "tV t = Some vt" "wfT bv (cx_env cx) kt"
    "wfT bv (cx_env cx) vt" "keyOK kt" "elemOK vt" "\<not> tIsPointer t"
    using wfT_map [OF wf T] by metis
  note env = ctx_env [OF cx]
  have np: "wrapElem t w = w" for w using kv(7) by (simp add: wrapElem_def)
  have mw: "minWireSize (tWT kt) + minWireSize (tWT vt) \<noteq> 0"
    using minWireSize_pos [OF kv(3)] by simp
  have map: "ok (cx_env cx) t (VMap (Some (length m, m)))" if "entries_ok (cx_env cx) kt vt m" for m
    using that by (intro ok_map [OF env T kv(1,2,7,3,4)]) (auto simp: entries_ok_def)
  show ?thesis
  proof (cases "length b < mapHeaderLen")
    case True
    then show ?thesis using c d by (simp add: decodeMap_def)
  next
    case False
    then have len: "6 \<le> length b" by (simp add: mapHeaderLen_def)
    have mal: "res_ok bv cx t (length b) (dgo (mallocElems cx et l d) k)"
      if w: "wfT bv (cx_env cx) et" and "\<And>d. dok bv cx d \<Longrightarrow> res_ok bv cx t (length b) (k d)" "dok bv cx d"
      for et l d k
    proof -
      obtain d' where "mallocElems cx et l d = Ok d'" "dok bv cx d' = dok bv cx d"
        using w by (rule mallocElems_ok)
      then show ?thesis using that by (simp add: dgo_def)
    qed
    have loop: "res_ok bv cx t (length b)
        (case decodeEntries cx dt kt vt b l 6 kc vc [] d of
           MPanic p \<Rightarrow> DPanic p
         | MErr i e kc vc d \<Rightarrow> DErr i e c (putTmp t (kc, vc) d)
         | MOk i kc vc m d \<Rightarrow> DOk i (VMap (Some (length m, m))) (putTmp t (kc, vc) d))"
      if "ok (cx_env cx) kt kc" "ok (cx_env cx) vt vc" "dok bv cx d" for l kc vc d
      using decodeEntries_ok [OF cx dt kv(3,4) that(3) len that(1,2), of "[]" l] c map
        putTmp_ok [OF _ kv(1,2)]
      by (cases "decodeEntries cx dt kt vt b l 6 kc vc [] d") (simp_all add: entries_ok_def np)
    have all: "res_ok bv cx t (length b)
       (case getTmp cx t kt vt d of
              ((kc, vc), d) \<Rightarrow>
                dgo (mallocElems cx kt l d) (\<lambda>d.
                dgo (mallocElems cx vt l d) (\<lambda>d.
                  case decodeEntries cx dt kt vt b l 6 kc vc [] d of
                    MPanic p \<Rightarrow> DPanic p
                  | MErr i e kc vc d \<Rightarrow> DErr i e c (putTmp t (kc, vc) d)
                  | MOk i kc vc m d \<Rightarrow> DOk i (VMap (Some (length m, m))) (putTmp t (kc, vc) d))))" for l
    proof -
      obtain kc vc d' where g: "getTmp cx t kt vt d = ((kc, vc), d')" by (metis prod.exhaust)
      note r = getTmp_ok [OF cx d wf T kv(1-6) g]
      show ?thesis unfolding g prod.case
        by (intro mal [OF kv(3)] mal [OF kv(4)] loop r)
    qed
    show ?thesis
      unfolding decodeMap_def kv(1,2) tt_deref_Some
      using mw c d len False all
      by (auto intro!: res_ok_dgo simp: index_panic beLen_panic np mapHeaderLen_def
          simp del: res_ok_simps(1))
  qed
qed

end
