(* ===== verification/DecodeSafeStruct.thy ===== *)
theory DecodeSafeStruct
  imports DecodeSafe
begin

text \<open>
  Safety of the decoder, the structs: the field loop keeps the struct conforming, the pooled
  bitset and the record of unknown fields intact, and stops within the input. Then the
  recursion: \<^verbatim>\<open>decodeType\<close> and \<^verbatim>\<open>Decode\<close> are safe at every depth limit.
\<close>

subsection \<open>The state of the field loop\<close>

definition fs_ok :: "bool \<Rightarrow> dctx \<Rightarrow> structDesc \<Rightarrow> bytes \<Rightarrow> fstate \<Rightarrow> bool" where
  "fs_ok bv cx sd b s \<longleftrightarrow>
     okFs (cx_env cx) sd (f_cs s) \<and> dok bv cx (f_d s) \<and>
     (f_bs s = None \<longleftrightarrow> requiredFieldIDs sd = []) \<and> pred_option bitset_ok (f_bs s) \<and>
     (f_ufs s = None \<longleftrightarrow> \<not> hasUnknownFields sd) \<and> pred_option (uf_ok b) (f_ufs s)"

text \<open>A field replaced by a conforming value.\<close>

lemma okFs_upd:
  assumes env: "wfEnv bv env" and sd: "wfSd bv env sd" and cs: "okFs env sd cs"
    and f: "f \<in> set (sd_fields sd)" and v: "okField env f v"
  shows "okFs env sd (updField (fOffset f) v cs)"
proof -
  note iff = okFs_iff [OF env sd]
  have dom: "fOffset f \<in> fst ` set cs"
  proof -
    from cs f obtain w where "map_of cs (fOffset f) = Some w" unfolding iff by blast
    then show ?thesis by (force dest: map_of_SomeD)
  qed
  have up: "map_of (updField (fOffset f) v cs) = (map_of cs)(fOffset f \<mapsto> v)"
    by (rule map_of_updField [OF dom])
  have dist: "g = f" if "g \<in> set (sd_fields sd)" "fOffset g = fOffset f" for g
    using sd f that by (auto simp: wfSd_def distinct_map inj_on_def)
  have "\<exists>w. map_of (updField (fOffset f) v cs) (fOffset g) = Some w \<and> okField env g w"
    if "g \<in> set (sd_fields sd)" for g
    using cs that v dist [OF that] unfolding iff up by (cases "g = f") auto
  moreover have "unknownFieldsOffset sd \<noteq> fOffset f" if "hasUnknownFields sd"
    using sd f that by (metis wfSd_def imageI)
  ultimately show ?thesis using cs unfolding iff up by auto
qed

lemma okFs_unknown:
  assumes env: "wfEnv bv env" and sd: "wfSd bv env sd" and cs: "okFs env sd cs"
    and u: "hasUnknownFields sd"
  shows "okFs env sd (updField (unknownFieldsOffset sd) (VBytes q) cs)"
    and "unknownFieldsOffset sd \<in> fst ` set cs"
proof -
  note iff = okFs_iff [OF env sd]
  from cs u obtain q' where "map_of cs (unknownFieldsOffset sd) = Some (VBytes q')" unfolding iff by auto
  then show dom: "unknownFieldsOffset sd \<in> fst ` set cs" by (force dest: map_of_SomeD)
  have "fOffset f \<noteq> unknownFieldsOffset sd" if "f \<in> set (sd_fields sd)" for f
    using sd u that by (metis wfSd_def imageI)
  then show "okFs env sd (updField (unknownFieldsOffset sd) (VBytes q) cs)"
    using cs unfolding iff map_of_updField [OF dom] by auto
qed

subsection \<open>One field\<close>

lemma decodeFieldValue_ok:
  assumes cx: "ctx_ok bv cx" and dt: "dfun_ok bv cx dt" and f: "wfField bv (cx_env cx) f"
    and c: "okField (cx_env cx) f c" and d: "dok bv cx d" and i: "i \<le> length b"
  shows "case decodeFieldValue cx dt f b i c d of
      DOk n v d' \<Rightarrow> i + n \<le> length b \<and> okField (cx_env cx) f v \<and> dok bv cx d'
    | DErr n e v d' \<Rightarrow> okField (cx_env cx) f v \<and> dok bv cx d'
    | DPanic p \<Rightarrow> p = IndexOutOfRange"
proof -
  let ?t = "fType f"
  have wf: "wfT bv (cx_env cx) ?t" using f by (simp add: wfField_def)
  have nocopy: "fNoCopy f \<Longrightarrow> tT ?t = tSTRING" using f by (simp add: wfField_def)
  obtain d1 where d1: "mallocElems cx ?t 1 d = Ok d1" "dok bv cx d1"
    using mallocElems_ok [OF wf] d by metis
  have "\<not> tIsPointer ?t \<Longrightarrow> ok (cx_env cx) ?t c" using c by (simp add: okField_def)
  then obtain c1 where c1: "elemCell cx ?t c = Ok c1"
    "typeToSize (tT ?t) = 0 \<longrightarrow> ok (cx_env cx) ?t (wrapElem ?t c1)"
    using elemCell_ok [OF cx wf, of c] by metis
  have b': "sliceFrom b i = Ok (drop i b)" using i by simp
  show ?thesis
  proof (cases "typeToSize (tT ?t) = 0")
    case True
    define r where "r = (if fNoCopy f then decodeStringNoCopy ?t (drop i b) c1 d1
        else dt ?t (drop i b) c1 d1)"
    have "res_ok bv cx ?t (length (drop i b)) r"
    proof (cases "fNoCopy f")
      case T: True
      from decodeString_ok(2) [OF nocopy [OF T] c1(2) [THEN mp, OF True] d1(2), of "drop i b"]
      show ?thesis by (simp add: r_def T del: length_drop)
    next
      case F: False
      from dfun_okD [OF dt wf True c1(2) [THEN mp, OF True] d1(2), of "drop i b"]
      show ?thesis by (simp add: r_def F del: length_drop)
    qed
    moreover have "decodeFieldValue cx dt f b i c d = (case r of
                  DOk n c d \<Rightarrow> DOk n (wrapElem ?t c) d
                | DErr n e c d \<Rightarrow> DErr n e (wrapElem ?t c) d
                | DPanic p \<Rightarrow> DPanic p)"
      using True by (simp add: decodeFieldValue_def dgo_def d1(1) c1(1) b' r_def wfT_fixed_sel [OF wf] Let_def
          del: One_nat_def)
    ultimately show ?thesis using i by (cases r) (auto simp: okField_def)
  next
    case False
    show ?thesis
    proof (cases "decodeFixedSizeTypes (tT ?t) (drop i b)")
      case (Ok x)
      then obtain v n where "decodeFixedSizeTypes (tT ?t) (drop i b) = Ok (v, n)" by (cases x) auto
      from decodeFixed_ok [OF this] this False d1 c1(1) b' i show ?thesis
        by (simp add: decodeFieldValue_def dgo_def wfT_fixed_sel [OF wf] Let_def okField_def)
    next
      case (Panic p)
      from decodeFixed_panic [OF this] this False d1 c1(1) b' show ?thesis
        by (simp add: decodeFieldValue_def dgo_def wfT_fixed_sel [OF wf] Let_def)
    qed
  qed
qed

definition tres_ok :: "bool \<Rightarrow> dctx \<Rightarrow> structDesc \<Rightarrow> bytes \<Rightarrow> tres \<Rightarrow> bool" where
  "tres_ok bv cx sd b r \<longleftrightarrow>
     (case r of
        TStop i \<Rightarrow> i \<le> length b
      | TNext i s \<Rightarrow> i \<le> length b \<and> fs_ok bv cx sd b s
      | TErr i e s \<Rightarrow> i \<le> length b \<and> fs_ok bv cx sd b s
      | TPanic p \<Rightarrow> p = IndexOutOfRange)"

lemma tres_ok_tgo:
  assumes "\<And>p. m = Panic p \<Longrightarrow> p = IndexOutOfRange" "\<And>x. m = Ok x \<Longrightarrow> tres_ok bv cx sd b (k x)"
  shows "tres_ok bv cx sd b (tgo m k)"
  using assms by (cases m) (auto simp: tgo_def tres_ok_def)

lemma skipField_ok:
  assumes cx: "ctx_ok bv cx" and s: "fs_ok bv cx sd b s" and i: "i \<le> length b" "3 \<le> i"
  shows "tres_ok bv cx sd b (skipField cx sd b i fid tp s)"
proof -
  have b': "sliceFrom b i = Ok (drop i b)" using i by simp
  show ?thesis
  proof (cases "cx_skip cx (drop i b) tp")
    case (Inl e)
    then show ?thesis using s i by (simp add: skipField_def tgo_def b' tres_ok_def)
  next
    case (Inr n)
    from ctx_skip [OF cx Inr] i have n: "i + n \<le> length b" by simp
    then have "uf_ok b (uf_Add (i - fieldHeaderLen) (n + fieldHeaderLen) u)" if "uf_ok b u" for u
      using that i by (intro uf_ok_Add) (simp_all add: fieldHeaderLen_def)
    with s n show ?thesis
      by (cases "f_ufs s") (auto simp: skipField_def tgo_def b' tres_ok_def Inr fs_ok_def)
  qed
qed

lemma find_field: "find (\<lambda>f. fID f = fid) fs = Some f \<Longrightarrow> f \<in> set fs \<and> fID f = fid"
  by (auto simp: find_Some_iff)

lemma decodeField_ok:
  assumes cx: "ctx_ok bv cx" and dt: "dfun_ok bv cx dt" and sd: "wfSd bv (cx_env cx) sd"
    and s: "fs_ok bv cx sd b s"
  shows "tres_ok bv cx sd b (decodeField cx dt sd b i s)"
proof -
  note env = ctx_env [OF cx]
  have idx: "wfIdx sd" using sd by (simp add: wfSd_def)
  show ?thesis
  proof (cases "i < length b \<and> b ! i \<noteq> tSTOP \<and> i + 3 \<le> length b")
    case False
    have "beUint16 (drop (Suc i) b) = Panic IndexOutOfRange" if "i < length b" "\<not> i + 3 \<le> length b"
      using that by (intro be16.get_short) simp
    with False show ?thesis
      by (auto simp: decodeField_def tgo_def index_def tres_ok_def Let_def)
  next
    case True
    then have "2 \<le> length (drop (i + 1) b)" by (auto simp only: length_drop)
    then obtain fid where fid: "beUint16 (drop (i + 1) b) = Ok fid"
      using be16.get_complete by blast
    note step = decodeField_def tgo_def index_def Let_def GetField_find [OF idx]
    show ?thesis
    proof (cases "find (\<lambda>f. fID f = fid) (sd_fields sd)")
      case None
      with skipField_ok [OF cx s, of "i + 3" fid "b ! i"] True fid show ?thesis
        by (simp add: step numeral_3_eq_3)
    next
      case (Some f)
      then have f: "f \<in> set (sd_fields sd)" using find_field by blast
      then have wf: "wfField bv (cx_env cx) f" using sd by (simp add: wfSd_def)
      show ?thesis
      proof (cases "tWT (fType f) = b ! i")
        case F: False
        with skipField_ok [OF cx s, of "i + 3" fid "b ! i"] True fid Some show ?thesis
          by (simp add: step numeral_3_eq_3)
      next
        case T: True
        from s f obtain c where c: "map_of (f_cs s) (fOffset f) = Some c" "okField (cx_env cx) f c"
          unfolding fs_ok_def okFs_iff [OF env sd] by blast
        have d: "dok bv cx (f_d s)" using s by (simp add: fs_ok_def)
        have upd: "fs_ok bv cx sd b (s\<lparr>f_cs := updField (fOffset f) v (f_cs s), f_d := d\<rparr>)"
          "fs_ok bv cx sd b (s\<lparr>f_cs := updField (fOffset f) v (f_cs s),
             f_bs := map_option (bitset_set (fID f)) (f_bs s), f_d := d\<rparr>)"
          if "okField (cx_env cx) f v" "dok bv cx d" for v d
          using s okFs_upd [OF env sd _ f that(1)] that(2) bs.inv_set
          by (auto simp: fs_ok_def option.pred_map o_def elim: option.pred_mono_strong)
        from decodeFieldValue_ok [OF cx dt wf c(2) d, of "i + 3" b] True upd fid T show ?thesis
          by (cases "decodeFieldValue cx dt f b (i + 3) c (f_d s)")
             (simp_all add: step Some c(1) tres_ok_def numeral_3_eq_3)
      qed
    qed
  qed
qed

lemma decodeFields_ok:
  assumes cx: "ctx_ok bv cx" and dt: "dfun_ok bv cx dt" and sd: "wfSd bv (cx_env cx) sd"
  shows "fs_ok bv cx sd b s \<Longrightarrow>
    (case decodeFields cx dt sd b i s of
       FDone i s \<Rightarrow> i \<le> length b \<and> fs_ok bv cx sd b s
     | FFail i e s \<Rightarrow> i \<le> length b \<and> fs_ok bv cx sd b s
     | FCrash p \<Rightarrow> p = IndexOutOfRange)"
proof (induction "length b - i" arbitrary: i s rule: less_induct)
  case less
  have t: "tres_ok bv cx sd b (decodeField cx dt sd b i s)"
    by (rule decodeField_ok [OF cx dt sd less.prems])
  show ?case
  proof (cases "decodeField cx dt sd b i s")
    case (TNext i' s')
    with t have "fs_ok bv cx sd b s'" by (simp add: tres_ok_def)
    from less.hyps [OF decodeField_measure [OF TNext] this] show ?thesis
      by (simp add: decodeFields.simps [of cx dt sd b i s] TNext)
  qed (use t less.prems in \<open>simp_all add: decodeFields.simps [of cx dt sd b i s] tres_ok_def\<close>)
qed

subsection \<open>Entry and exit\<close>

lemma enterStruct_ok:
  assumes "okFs (cx_env cx) sd cs" "dok bv cx d"
  shows "fs_ok bv cx sd b (enterStruct sd cs d)"
proof -
  have bs: "bitset_ok (fold bitset_unset rs x)" if "bitset_ok x" for rs x
    using bs.inv_fold_unset that by blast
  show ?thesis
    using assms bs newBitset_ok
    by (auto simp: fs_ok_def enterStruct_def Let_def dok_def uf_ok_Reset split: list.splits)
qed

lemma leaveStruct_ok:
  assumes "fs_ok bv cx sd b s"
  shows "dok bv cx (leaveStruct s)"
  using assms by (auto simp: fs_ok_def leaveStruct_def Let_def dok_def split: option.splits)

text \<open>The descriptor of a required id exists.\<close>

lemma required_field:
  assumes "wfSizes sd" "fid \<in> set (requiredFieldIDs sd)"
  shows "\<exists>f\<in>set (sd_fields sd). fID f = fid \<and> fSpec f = Required"
  using assms by (auto simp: wfSizes_def sum_fields_acc)

lemma find_id_Some:
  "f \<in> set fs \<Longrightarrow> fID f = fid \<Longrightarrow> \<exists>g. find (\<lambda>f. fID f = fid) fs = Some g"
  by (cases "find (\<lambda>f. fID f = fid) fs") (auto simp: find_None_iff)

lemma checkRequired_ok:
  assumes sd: "wfSd bv env sd" and rs: "set rs \<subseteq> set (requiredFieldIDs sd)"
    and x: "rs \<noteq> [] \<Longrightarrow> bs \<noteq> None"
  shows "\<exists>e. checkRequired sd bs rs = Ok e"
  using rs x
proof (induction rs)
  case (Cons fid rs)
  from Cons.prems obtain x where x: "bs = Some x" by auto
  from required_field [of sd fid] sd Cons.prems obtain f where "f \<in> set (sd_fields sd)" "fID f = fid"
    by (auto simp: wfSd_def)
  then obtain g where "find (\<lambda>f. fID f = fid) (sd_fields sd) = Some g" using find_id_Some by blast
  then have "GetField sd fid = Ok (Some g)" using sd GetField_find [of sd fid] by (simp add: wfSd_def)
  moreover from Cons have "\<exists>e. checkRequired sd bs rs = Ok e" by (simp add: x)
  ultimately show ?case by (simp add: x)
qed simp

lemma finishStruct_ok:
  assumes cx: "ctx_ok bv cx" and sd: "wfSd bv (cx_env cx) sd" and s: "fs_ok bv cx sd b s"
    and i: "i \<le> length b"
  shows "case finishStruct cx sd b i s of
      DOk n v d \<Rightarrow> n \<le> length b \<and> (\<exists>cs. v = VStruct cs \<and> okFs (cx_env cx) sd cs) \<and> dok bv cx d
    | DErr n e v d \<Rightarrow> n \<le> length b \<and> (\<exists>cs. v = VStruct cs \<and> okFs (cx_env cx) sd cs) \<and> dok bv cx d
    | DPanic p \<Rightarrow> False"
proof -
  note env = ctx_env [OF cx]
  obtain e where e: "checkRequired sd (f_bs s) (requiredFieldIDs sd) = Ok e"
    using checkRequired_ok [OF sd, of "requiredFieldIDs sd" "f_bs s"] s by (auto simp: fs_ok_def)
  have cs: "okFs (cx_env cx) sd (f_cs s)" using s by (simp add: fs_ok_def)
  have d: "dok bv cx (leaveStruct s)" by (rule leaveStruct_ok [OF s])
  show ?thesis
  proof (cases e)
    case (Some e')
    with e cs d i show ?thesis by (simp add: finishStruct_def dgo_def)
  next
    case None
    show ?thesis
    proof (cases "f_ufs s")
      case N: None
      with None e cs d i show ?thesis by (simp add: finishStruct_def dgo_def)
    next
      case (Some u)
      with s have u: "uf_ok b u" "hasUnknownFields sd" by (auto simp: fs_ok_def)
      have "uf_Copy (cx_junk cx) b u = Ok (uf_bytes b u)"
        using cx by (intro uf_Copy_bytes [OF u(1)]) (simp add: ctx_ok_def)
      with None e cs d i Some okFs_unknown [OF env sd cs u(2)] show ?thesis
        by (simp add: finishStruct_def dgo_def)
    qed
  qed
qed

lemma decodeStruct_ok:
  assumes cx: "ctx_ok bv cx" and dt: "dfun_ok bv cx dt" and sd: "wfSd bv (cx_env cx) sd"
    and cs: "okFs (cx_env cx) sd cs" and d: "dok bv cx d"
  shows "case decodeStruct cx dt sd b (VStruct cs) d of
      DOk n v d \<Rightarrow> n \<le> length b \<and> (\<exists>cs. v = VStruct cs \<and> okFs (cx_env cx) sd cs) \<and> dok bv cx d
    | DErr n e v d \<Rightarrow> n \<le> length b \<and> (\<exists>cs. v = VStruct cs \<and> okFs (cx_env cx) sd cs) \<and> dok bv cx d
    | DPanic p \<Rightarrow> p = IndexOutOfRange"
proof -
  note F = decodeFields_ok [OF cx dt sd enterStruct_ok [OF cs d], of b 0]
  show ?thesis
  proof (cases "decodeFields cx dt sd b 0 (enterStruct sd cs d)")
    case (FDone i s)
    with F have s: "i \<le> length b" "fs_ok bv cx sd b s" by simp_all
    from finishStruct_ok [OF cx sd s(2,1)] show ?thesis
      by (cases "finishStruct cx sd b i s") (simp_all add: decodeStruct_def FDone)
  next
    case (FFail i e s)
    with F leaveStruct_ok [of bv cx sd b s] show ?thesis
      by (simp add: decodeStruct_def fs_ok_def)
  next
    case (FCrash p)
    with F show ?thesis by (simp add: decodeStruct_def)
  qed
qed

subsection \<open>The recursion\<close>

text \<open>What \<^verbatim>\<open>Decode\<close> gives for a struct.\<close>

definition sres_ok :: "bool \<Rightarrow> dctx \<Rightarrow> structDesc \<Rightarrow> nat \<Rightarrow> dres \<Rightarrow> bool" where
  "sres_ok bv cx sd len r \<longleftrightarrow>
     (case r of
        DOk n v d \<Rightarrow> n \<le> len \<and> (\<exists>cs. v = VStruct cs \<and> okFs (cx_env cx) sd cs) \<and> dok bv cx d
      | DErr n e v d \<Rightarrow> n \<le> len \<and> (\<exists>cs. v = VStruct cs \<and> okFs (cx_env cx) sd cs) \<and> dok bv cx d
      | DPanic p \<Rightarrow> p = IndexOutOfRange)"

definition sfun_ok :: "bool \<Rightarrow> dctx \<Rightarrow> (structDesc \<Rightarrow> bytes \<Rightarrow> gval \<Rightarrow> dstate \<Rightarrow> dres) \<Rightarrow> bool" where
  "sfun_ok bv cx ds \<longleftrightarrow>
     (\<forall>sd b cs d. wfSd bv (cx_env cx) sd \<longrightarrow> okFs (cx_env cx) sd cs \<longrightarrow> dok bv cx d \<longrightarrow>
        sres_ok bv cx sd (length b) (ds sd b (VStruct cs) d))"

lemma decodeTypeBody_ok:
  assumes cx: "ctx_ok bv cx" and dt: "dfun_ok bv cx dt" and ds: "sfun_ok bv cx ds"
  shows "dfun_ok bv cx (decodeTypeBody cx dt ds)"
  unfolding dfun_ok_def
proof (intro allI impI)
  fix t b c d
  assume wf: "wfT bv (cx_env cx) t" and z: "typeToSize (tT t) = 0"
    and c: "ok (cx_env cx) t (wrapElem t c)" and d: "dok bv cx d"
  have body: "decodeTypeBody cx dt ds t b c d =
     (if tT t = tSTRING then decodeString cx t b c d
      else if tT t = tMAP then decodeMap cx dt t b c d
      else if tT t = tLIST \<or> tT t = tSET then decodeList cx dt t b c d
      else if tT t = tSTRUCT then
        dgo (Sd (cx_env cx) t) (\<lambda>sd. ds sd b (if hasInitFunc sd then initFunc sd c else c) d)
      else DErr 0 (ErrUnknownType (tT t)) c d)"
    using z by (simp add: decodeTypeBody_def wfT_fixed_sel [OF wf])
  consider "tT t = tSTRING" | "tT t = tMAP" | "tT t = tLIST \<or> tT t = tSET" | (st) "tT t = tSTRUCT"
    using wfT_valueTypes [OF wf] typeToSize_pos [of "tT t"] z
    by (auto simp: valueTypes_def simpleTypes_def)
  then show "res_ok bv cx t (length b) (decodeTypeBody cx dt ds t b c d)"
  proof cases
    case 1
    with decodeString_ok(1) [OF 1 c d] show ?thesis by (simp add: body)
  next
    case 2
    with decodeMap_ok [OF cx dt wf 2 c d] show ?thesis by (simp add: body)
  next
    case 3
    with decodeList_ok [OF cx dt wf 3 c d] show ?thesis by (auto simp: body)
  next
    case st
    from wfT_Sd [OF wf st] obtain sd where sd: "Sd (cx_env cx) t = Ok sd" by metis
    from ok_structE [OF c wf st sd] obtain cs where cs: "c = VStruct cs" "okFs (cx_env cx) sd cs" .
    from ctx_init [OF cx sd cs(2)] obtain cs' where
      cs': "(if hasInitFunc sd then initFunc sd (VStruct cs) else VStruct cs) = VStruct cs'"
      "okFs (cx_env cx) sd cs'" .
    have "wfSd bv (cx_env cx) sd" by (rule wfEnv_sd [OF ctx_env [OF cx] sd])
    with ds cs'(2) d have "sres_ok bv cx sd (length b) (ds sd b (VStruct cs') d)"
      by (simp add: sfun_ok_def)
    moreover have "decodeTypeBody cx dt ds t b c d = ds sd b (VStruct cs') d"
      using st sd cs'(1) by (simp add: body [unfolded cs(1)] cs(1) dgo_def split: if_splits)
    ultimately show ?thesis
      using ok_struct [OF st sd] by (auto simp: sres_ok_def split: dres.splits)
  qed
qed

lemma decode_ok:
  assumes cx: "ctx_ok bv cx"
  shows "dfun_ok bv cx (decodeType cx m) \<and> sfun_ok bv cx (Decode cx m)"
proof (induction m)
  case 0
  show ?case by (auto simp: dfun_ok_def sfun_ok_def sres_ok_def)
next
  case (Suc m)
  have "decodeType cx (Suc m) = decodeTypeBody cx (decodeType cx m) (Decode cx m)"
    "Decode cx (Suc m) = decodeStruct cx (decodeType cx m)"
    by (auto simp: fun_eq_iff)
  moreover have "sfun_ok bv cx (decodeStruct cx (decodeType cx m))"
    using decodeStruct_ok [OF cx Suc.IH [THEN conjunct1]]
    unfolding sfun_ok_def sres_ok_def by blast
  ultimately show ?case using decodeTypeBody_ok [OF cx] Suc.IH by simp
qed

end
