(* ===== verification/Equivalence.thy ===== *)
theory Equivalence
  imports DecodeSafeStruct EncodeCorrect
begin

text \<open>
  The equivalence a round trip preserves, and the values that survive one. A Thrift encoding
  does not tell a nil slice, map or \<^verbatim>\<open>[]byte\<close> from an empty one, nor the fields that are
  skipped; \<open>eqv\<close> identifies what it does not tell apart, and \<open>eqv_spec\<close> shows that equivalent
  values have the same encoding.
\<close>

definition elems :: "gval list option \<Rightarrow> gval list" where
  "elems q = (case q of Some vs \<Rightarrow> vs | None \<Rightarrow> [])"

definition entries :: "(nat \<times> (gval \<times> gval) list) option \<Rightarrow> (gval \<times> gval) list" where
  "entries q = (case q of Some m \<Rightarrow> snd m | None \<Rightarrow> [])"

definition content :: "bytes option \<Rightarrow> bytes" where
  "content q = (case q of Some s \<Rightarrow> s | None \<Rightarrow> [])"

lemma elems_simps [simp]: "elems (Some vs) = vs" "elems None = []" by (simp_all add: elems_def)
lemma entries_simps [simp]: "entries (Some (c, kvs)) = kvs" "entries None = []" by (simp_all add: entries_def)
lemma content_simps [simp]: "content (Some s) = s" "content None = []" by (simp_all add: content_def)

text \<open>The shapes of a cell.\<close>

definition destPtr :: "gval \<Rightarrow> gval option" where
  "destPtr v = (case v of VPtr q \<Rightarrow> q | _ \<Rightarrow> None)"

definition destSlice :: "gval \<Rightarrow> gval list option" where
  "destSlice v = (case v of VSlice q \<Rightarrow> Some (elems q) | _ \<Rightarrow> None)"

definition destMap :: "gval \<Rightarrow> (gval \<times> gval) list option" where
  "destMap v = (case v of VMap q \<Rightarrow> Some (entries q) | _ \<Rightarrow> None)"

definition destStruct :: "gval \<Rightarrow> (nat \<times> gval) list option" where
  "destStruct v = (case v of VStruct cs \<Rightarrow> Some cs | _ \<Rightarrow> None)"

lemma dest_simps [simp]:
  "destPtr (VPtr p) = p" "destSlice (VSlice q) = Some (elems q)" "destMap (VMap m) = Some (entries m)"
  "destStruct (VStruct cs) = Some cs"
  by (simp_all add: destPtr_def destSlice_def destMap_def destStruct_def)

lemma dest_iff:
  "destPtr v = Some a \<longleftrightarrow> v = VPtr (Some a)"
  "destSlice v = Some vs \<longleftrightarrow> (\<exists>q. v = VSlice q \<and> vs = elems q)"
  "destMap v = Some kvs \<longleftrightarrow> (\<exists>q. v = VMap q \<and> kvs = entries q)"
  "destStruct v = Some cs \<longleftrightarrow> v = VStruct cs"
  by (cases v; auto simp: destPtr_def destSlice_def destMap_def destStruct_def)+

subsection \<open>Equivalence\<close>

definition eqvSimple :: "gval \<Rightarrow> gval \<Rightarrow> bool" where
  "eqvSimple a b = (case (a, b) of (VBytes p, VBytes q) \<Rightarrow> content p = content q | _ \<Rightarrow> a = b)"

definition eqvField :: "(tType \<Rightarrow> gval \<Rightarrow> gval \<Rightarrow> bool) \<Rightarrow> tField \<Rightarrow> gval \<Rightarrow> gval \<Rightarrow> bool" where
  "eqvField e f a b \<longleftrightarrow>
     field_skipped f (Some a) = Ok True \<and> field_skipped f (Some b) = Ok True \<or>
     field_skipped f (Some a) = Ok False \<and> field_skipped f (Some b) = Ok False \<and> e (fType f) a b"

definition eqvFields ::
  "(tType \<Rightarrow> gval \<Rightarrow> gval \<Rightarrow> bool) \<Rightarrow> structDesc \<Rightarrow> (nat \<times> gval) list \<Rightarrow> (nat \<times> gval) list \<Rightarrow> bool" where
  "eqvFields e sd cs cs' \<longleftrightarrow>
     (\<forall>f\<in>set (sd_fields sd).
        case (map_of cs (fOffset f), map_of cs' (fOffset f)) of
          (Some a, Some b) \<Rightarrow> eqvField e f a b
        | _ \<Rightarrow> False) \<and>
     specUnknown sd cs = specUnknown sd cs'"

definition eqvBody :: "(tType \<Rightarrow> gval \<Rightarrow> gval \<Rightarrow> bool) \<Rightarrow> env \<Rightarrow> tType \<Rightarrow> gval \<Rightarrow> gval \<Rightarrow> bool" where
  "eqvBody e env t a b =
     (if simpleTypes (tT t) then eqvSimple a b
      else if tT t = tLIST \<or> tT t = tSET then
        (case (tV t, destSlice a, destSlice b) of
           (Some et, Some xs, Some ys) \<Rightarrow> list_all2 (e et) xs ys
         | _ \<Rightarrow> False)
      else if tT t = tMAP then
        (case (tK t, tV t, destMap a, destMap b) of
           (Some kt, Some vt, Some xs, Some ys) \<Rightarrow>
             list_all2 (\<lambda>x y. e kt (fst x) (fst y) \<and> e vt (snd x) (snd y)) xs ys
         | _ \<Rightarrow> False)
      else if tT t = tSTRUCT then
        (case (Sd env t, destStruct a, destStruct b) of
           (Ok sd, Some cs, Some cs') \<Rightarrow> eqvFields e sd cs cs'
         | _ \<Rightarrow> False)
      else False)"

fun eqv :: "env \<Rightarrow> nat \<Rightarrow> tType \<Rightarrow> gval \<Rightarrow> gval \<Rightarrow> bool" where
  "eqv env 0 t v w = False"
| "eqv env (Suc n) t v w =
     (if tIsPointer t
      then (case (destPtr v, destPtr w) of
              (Some a, Some b) \<Rightarrow> eqvBody (\<lambda>t x y. eqv env n t x y) env t a b
            | _ \<Rightarrow> False)
      else eqvBody (\<lambda>t x y. eqv env n t x y) env t v w)"

lemma eqv_wrap:
  "eqv env (Suc n) t v w \<longleftrightarrow>
     (\<exists>a b. v = wrapElem t a \<and> w = wrapElem t b \<and> eqvBody (eqv env n) env t a b)"
  by (cases "destPtr v"; cases "destPtr w") (auto simp: wrapElem_def dest_iff)

text \<open>One level, by the kind of the type.\<close>

lemma wrapElem_inj [simp]: "wrapElem t a = wrapElem t b \<longleftrightarrow> a = b"
  by (simp add: wrapElem_def)

declare eqv.simps(2) [simp del]

lemma eqv_simple:
  "simpleTypes (tT t) \<Longrightarrow> eqv env (Suc n) t (wrapElem t a) (wrapElem t b) \<longleftrightarrow> eqvSimple a b"
  by (simp add: eqv_wrap eqvBody_def)

lemma eqv_list:
  "tT t = tLIST \<or> tT t = tSET \<Longrightarrow> tV t = Some et \<Longrightarrow>
   eqv env (Suc n) t (wrapElem t (VSlice p)) (wrapElem t (VSlice q)) \<longleftrightarrow>
     list_all2 (eqv env n et) (elems p) (elems q)"
  using not_simple_tags [of t] by (auto simp: eqv_wrap eqvBody_def)

lemma eqv_map:
  "tT t = tMAP \<Longrightarrow> tK t = Some kt \<Longrightarrow> tV t = Some vt \<Longrightarrow>
   eqv env (Suc n) t (wrapElem t (VMap p)) (wrapElem t (VMap q)) \<longleftrightarrow>
     list_all2 (\<lambda>x y. eqv env n kt (fst x) (fst y) \<and> eqv env n vt (snd x) (snd y)) (entries p) (entries q)"
  using not_simple_tags [of t] by (simp add: eqv_wrap eqvBody_def)

lemma eqv_struct:
  "tT t = tSTRUCT \<Longrightarrow> Sd env t = Ok sd \<Longrightarrow>
   eqv env (Suc n) t (wrapElem t (VStruct cs)) (wrapElem t (VStruct cs')) \<longleftrightarrow>
     eqvFields (eqv env n) sd cs cs'"
  using not_simple_tags [of t] by (simp add: eqv_wrap eqvBody_def)


subsection \<open>Equivalent values have the same encoding\<close>

lemma those_map_cong:
  "list_all2 (\<lambda>x y. f x = g y) xs ys \<Longrightarrow> those (map f xs) = those (map g ys)"
  by (induction rule: list_all2_induct) (auto split: option.split)

lemma eqvSimple_spec: "eqvSimple a b \<Longrightarrow> specSimple t a = specSimple t b"
  by (auto simp: eqvSimple_def specSimple_eq content_def split: gval.splits option.splits)

lemma eqvFields_spec:
  assumes "eqvFields e sd cs cs'" "\<And>t a b. e t a b \<Longrightarrow> sv t a = sv t b"
  shows "specStruct sv sd cs = specStruct sv sd cs'"
proof -
  have "specField sv cs f = specField sv cs' f" if "f \<in> set (sd_fields sd)" for f
    using assms that
    by (fastforce simp: eqvFields_def eqvField_def specField_eq split: option.splits)
  then have "those (map (specField sv cs) (sd_fields sd)) = those (map (specField sv cs') (sd_fields sd))"
    by (simp cong: map_cong)
  with assms(1) show ?thesis by (simp add: specStruct_def eqvFields_def)
qed

lemma eqv_cases [consumes 1]:
  assumes "eqv env (Suc n) t v w"
  obtains
    (simple) a b where "simpleTypes (tT t)" "v = wrapElem t a" "w = wrapElem t b" "eqvSimple a b" |
    (list) et p q where "tT t = tLIST \<or> tT t = tSET" "tV t = Some et" "v = wrapElem t (VSlice p)"
      "w = wrapElem t (VSlice q)" "list_all2 (eqv env n et) (elems p) (elems q)" |
    (map) kt vt p q where "tT t = tMAP" "tK t = Some kt" "tV t = Some vt" "v = wrapElem t (VMap p)"
      "w = wrapElem t (VMap q)"
      "list_all2 (\<lambda>x y. eqv env n kt (fst x) (fst y) \<and> eqv env n vt (snd x) (snd y))
         (entries p) (entries q)" |
    (struct) sd cs cs' where "tT t = tSTRUCT" "Sd env t = Ok sd" "v = wrapElem t (VStruct cs)"
      "w = wrapElem t (VStruct cs')" "eqvFields (eqv env n) sd cs cs'"
proof -
  obtain a b where ab: "v = wrapElem t a" "w = wrapElem t b" and e: "eqvBody (eqv env n) env t a b"
    using assms by (auto simp: eqv_wrap)
  note nst = not_simple_tags [of t]
  consider "simpleTypes (tT t)" | "tT t = tLIST \<or> tT t = tSET" | "tT t = tMAP" | "tT t = tSTRUCT"
    using e by (auto simp: eqvBody_def split: if_splits)
  then show thesis
  proof cases
    case 1
    with e ab simple show thesis by (simp add: eqvBody_def)
  next
    case 2
    with nst e obtain et p q where "tV t = Some et" "a = VSlice p" "b = VSlice q"
      "list_all2 (eqv env n et) (elems p) (elems q)"
      by (cases "tV t"; cases "destSlice a"; cases "destSlice b") (auto simp: eqvBody_def dest_iff)
    with ab 2 list show thesis by blast
  next
    case 3
    with nst e obtain kt vt p q where "tK t = Some kt" "tV t = Some vt" "a = VMap p" "b = VMap q"
      "list_all2 (\<lambda>x y. eqv env n kt (fst x) (fst y) \<and> eqv env n vt (snd x) (snd y))
         (entries p) (entries q)"
      by (cases "tK t"; cases "tV t"; cases "destMap a"; cases "destMap b")
         (auto simp: eqvBody_def dest_iff)
    with ab 3 map show thesis by blast
  next
    case 4
    with nst e obtain sd cs cs' where "Sd env t = Ok sd" "a = VStruct cs" "b = VStruct cs'"
      "eqvFields (eqv env n) sd cs cs'"
      by (cases "Sd env t"; cases "destStruct a"; cases "destStruct b") (auto simp: eqvBody_def dest_iff)
    with ab 4 struct show thesis by blast
  qed
qed

lemma eqv_spec: "eqv env n t v w \<Longrightarrow> specV env n t v = specV env n t w"
proof (induction n arbitrary: t v w)
  case (Suc n)
  from Suc.prems show ?case
  proof (cases rule: eqv_cases)
    case (simple a b)
    then show ?thesis using eqvSimple_spec [of a b] by (simp add: wrapElem_def)
  next
    case (list et p q)
    have "those (map (specV env n et) (elems p)) = those (map (specV env n et) (elems q))"
      using list(5) by (auto intro!: those_map_cong Suc.IH elim!: list_all2_mono)
    with list list_all2_lengthD [OF list(5)] not_simple_tags [of t] show ?thesis
      by (auto simp: wrapElem_def elems_def Let_def)
  next
    case (map kt vt p q)
    have "specPair (specV env n) kt vt x = specPair (specV env n) kt vt y"
      if "eqv env n kt (fst x) (fst y) \<and> eqv env n vt (snd x) (snd y)" for x y
      using that Suc.IH [of kt "fst x" "fst y"] Suc.IH [of vt "snd x" "snd y"]
      by (simp add: specPair_def split: option.split)
    then have "those (List.map (specPair (specV env n) kt vt) (entries p)) =
        those (List.map (specPair (specV env n) kt vt) (entries q))"
      using map(6) by (intro those_map_cong) (auto elim!: list_all2_mono)
    with map list_all2_lengthD [OF map(6)] not_simple_tags [of t] show ?thesis
      by (auto simp: wrapElem_def entries_def Let_def)
  next
    case (struct sd cs cs')
    have "specStruct (specV env n) sd cs = specStruct (specV env n) sd cs'"
      by (rule eqvFields_spec [OF struct(5)]) (rule Suc.IH)
    with struct not_simple_tags [of t] show ?thesis by (simp add: wrapElem_def)
  qed
qed simp

subsection \<open>Values that survive a round trip\<close>

text \<open>
  Lengths fit the signed 32-bit length the decoder reads, enums fit 32 bits, map keys differ,
  pointers to structs are not nil unless skipped, and there are no unknown fields.
\<close>

definition rtSimple :: "tType \<Rightarrow> gval \<Rightarrow> bool" where
  "rtSimple t w =
     (case w of
        VString s \<Rightarrow> length s < 2 ^ 31
      | VBytes q \<Rightarrow> length (content q) < 2 ^ 31
      | VI64 x \<Rightarrow> tT t = tENUM \<longrightarrow> scast (ucast x :: 32 word) = x
      | _ \<Rightarrow> True)"

definition rtFields :: "(tType \<Rightarrow> gval \<Rightarrow> bool) \<Rightarrow> structDesc \<Rightarrow> (nat \<times> gval) list \<Rightarrow> bool" where
  "rtFields r sd cs \<longleftrightarrow> specUnknown sd cs = [] \<and>
     (\<forall>f\<in>set (sd_fields sd).
        case map_of cs (fOffset f) of
          None \<Rightarrow> False
        | Some v \<Rightarrow> field_skipped f (Some v) = Ok True \<or> r (fType f) v)"

definition rtBody :: "(tType \<Rightarrow> gval \<Rightarrow> bool) \<Rightarrow> env \<Rightarrow> tType \<Rightarrow> gval \<Rightarrow> bool" where
  "rtBody r env t a =
     (if simpleTypes (tT t) then rtSimple t a
      else if tT t = tLIST \<or> tT t = tSET then
        (case (tV t, destSlice a) of
           (Some et, Some xs) \<Rightarrow> length xs < 2 ^ 31 \<and> (\<forall>x\<in>set xs. r et x)
         | _ \<Rightarrow> False)
      else if tT t = tMAP then
        (case (tK t, tV t, destMap a) of
           (Some kt, Some vt, Some xs) \<Rightarrow>
             length xs < 2 ^ 31 \<and> (\<forall>x\<in>set xs. r kt (fst x) \<and> r vt (snd x)) \<and>
             sorted_wrt (\<lambda>x y. \<not> goKeyEq kt (fst x) (fst y)) xs
         | _ \<Rightarrow> False)
      else if tT t = tSTRUCT then
        (case (Sd env t, destStruct a) of
           (Ok sd, Some cs) \<Rightarrow> rtFields r sd cs
         | _ \<Rightarrow> False)
      else False)"

fun rtOK :: "env \<Rightarrow> nat \<Rightarrow> tType \<Rightarrow> gval \<Rightarrow> bool" where
  "rtOK env 0 t v = False"
| "rtOK env (Suc n) t v =
     (if tIsPointer t
      then (case destPtr v of Some a \<Rightarrow> rtBody (\<lambda>t x. rtOK env n t x) env t a | None \<Rightarrow> False)
      else rtBody (\<lambda>t x. rtOK env n t x) env t v)"

lemma rtOK_wrap: "rtOK env (Suc n) t (wrapElem t a) \<longleftrightarrow> rtBody (rtOK env n) env t a"
  by (simp add: wrapElem_def destPtr_def)

lemma rtOK_simple:
  "simpleTypes (tT t) \<Longrightarrow> rtOK env (Suc n) t (wrapElem t a) \<longleftrightarrow> rtSimple t a"
  by (simp add: rtOK_wrap rtBody_def del: rtOK.simps)

lemma rtOK_list:
  "tT t = tLIST \<or> tT t = tSET \<Longrightarrow> tV t = Some et \<Longrightarrow>
   rtOK env (Suc n) t (wrapElem t (VSlice p)) \<longleftrightarrow>
     length (elems p) < 2 ^ 31 \<and> (\<forall>x\<in>set (elems p). rtOK env n et x)"
  using not_simple_tags [of t] by (auto simp: rtOK_wrap rtBody_def simp del: rtOK.simps)

lemma rtOK_map:
  "tT t = tMAP \<Longrightarrow> tK t = Some kt \<Longrightarrow> tV t = Some vt \<Longrightarrow>
   rtOK env (Suc n) t (wrapElem t (VMap p)) \<longleftrightarrow> length (entries p) < 2 ^ 31 \<and>
     (\<forall>x\<in>set (entries p). rtOK env n kt (fst x) \<and> rtOK env n vt (snd x)) \<and>
     sorted_wrt (\<lambda>x y. \<not> goKeyEq kt (fst x) (fst y)) (entries p)"
  using not_simple_tags [of t] by (simp add: rtOK_wrap rtBody_def del: rtOK.simps)

lemma rtOK_struct:
  "tT t = tSTRUCT \<Longrightarrow> Sd env t = Ok sd \<Longrightarrow>
   rtOK env (Suc n) t (wrapElem t (VStruct cs)) \<longleftrightarrow> rtFields (rtOK env n) sd cs"
  using not_simple_tags [of t] by (simp add: rtOK_wrap rtBody_def del: rtOK.simps)

lemma rtOK_nil: "tT t = tSTRUCT \<Longrightarrow> tIsPointer t \<Longrightarrow> \<not> rtOK env (Suc n) t (VPtr None)"
  by (simp add: destPtr_def)

declare rtOK.simps(2) [simp del]

end
