(* ===== verification/FieldLoop.thy ===== *)
theory FieldLoop
  imports DecodeSafeStruct
begin

text \<open>
  The field loop of \<^verbatim>\<open>Decode\<close> as a transition system: a step reads one field and is labelled
  with what it was, a known field with its id or a skipped one with its range of the input.
  What the struct ends with is a function of the labels: the required check of the ids, the
  unknown fields of the ranges.
\<close>

datatype event = Seen "16 word" | Skipped nat nat

definition hdrID :: "bytes \<Rightarrow> nat \<Rightarrow> 16 word" where
  "hdrID b i = (case beUint16 (drop (i + 1) b) of Ok w \<Rightarrow> w | Panic p \<Rightarrow> 0)"

text \<open>The field of the struct that is at offset \<open>i\<close> of the input, with the type it must have.\<close>

definition matchField :: "structDesc \<Rightarrow> bytes \<Rightarrow> nat \<Rightarrow> tField option" where
  "matchField sd b i =
     (case find (\<lambda>f. fID f = hdrID b i) (sd_fields sd) of
        Some f \<Rightarrow> if tWT (fType f) = b ! i then Some f else None
      | None \<Rightarrow> None)"

definition eventAt :: "structDesc \<Rightarrow> bytes \<Rightarrow> nat \<Rightarrow> nat \<Rightarrow> event" where
  "eventAt sd b i i' = (case matchField sd b i of Some f \<Rightarrow> Seen (fID f) | None \<Rightarrow> Skipped i (i' - i))"

inductive steps ::
  "dctx \<Rightarrow> dfun \<Rightarrow> structDesc \<Rightarrow> bytes \<Rightarrow> nat \<Rightarrow> fstate \<Rightarrow> event list \<Rightarrow> nat \<Rightarrow> fstate \<Rightarrow> bool"
  for cx dt sd b where
  none: "steps cx dt sd b i s [] i s"
| field: "decodeField cx dt sd b i s = TNext i' s' \<Longrightarrow> steps cx dt sd b i' s' es j u \<Longrightarrow>
    steps cx dt sd b i s (eventAt sd b i i' # es) j u"

inductive_cases steps_ConsE: "steps cx dt sd b i s (e # es) j u"

fun seen :: "event list \<Rightarrow> 16 word list" where
  "seen [] = []"
| "seen (Seen w # es) = w # seen es"
| "seen (Skipped o' n # es) = seen es"

fun skipped :: "event list \<Rightarrow> (nat \<times> nat) list" where
  "skipped [] = []"
| "skipped (Seen w # es) = skipped es"
| "skipped (Skipped o' n # es) = (o', n) # skipped es"

subsection \<open>The loop is a run of steps up to the stop byte\<close>

lemma decodeFields_run:
  "decodeFields cx dt sd b i s = FDone j u \<Longrightarrow>
     \<exists>es i'. steps cx dt sd b i s es i' u \<and> decodeField cx dt sd b i' u = TStop j"
proof (induction "length b - i" arbitrary: i s rule: less_induct)
  case less
  show ?case
  proof (cases "decodeField cx dt sd b i s")
    case (TStop j')
    with less.prems have "j' = j" "u = s" by (simp_all add: decodeFields.simps [of cx dt sd b i s])
    with TStop show ?thesis using steps.none by blast
  next
    case (TNext i' s')
    with less.prems have "decodeFields cx dt sd b i' s' = FDone j u"
      by (simp add: decodeFields.simps [of cx dt sd b i s])
    from less.hyps [OF decodeField_measure [OF TNext] this] TNext show ?thesis
      using steps.field by blast
  qed (use less.prems in \<open>simp_all add: decodeFields.simps [of cx dt sd b i s]\<close>)
qed

lemma run_decodeFields:
  "steps cx dt sd b i s es i' u \<Longrightarrow> decodeField cx dt sd b i' u = TStop j \<Longrightarrow>
     decodeFields cx dt sd b i s = FDone j u"
  by (induction rule: steps.induct) (simp_all add: decodeFields.simps)

subsection \<open>What a step does to the set and the ranges\<close>

lemma skipField_next:
  assumes "skipField cx sd b (i + 3) fid tp s = TNext i' s'"
  shows "f_bs s' = f_bs s \<and> f_ufs s' = map_option (uf_Add i (i' - i)) (f_ufs s) \<and> i + 3 \<le> i'"
  using assms
  by (auto simp: skipField_def tgo_def fieldHeaderLen_def add.commute
      split: go.splits sum.splits option.splits)

lemma decodeField_effect:
  assumes idx: "wfIdx sd" and n: "decodeField cx dt sd b i s = TNext i' s'"
  shows "case eventAt sd b i i' of
      Seen w \<Rightarrow> f_bs s' = map_option (bitset_set w) (f_bs s) \<and> f_ufs s' = f_ufs s
    | Skipped o' m \<Rightarrow> f_bs s' = f_bs s \<and> f_ufs s' = map_option (uf_Add o' m) (f_ufs s)"
proof -
  note step = decodeField_def tgo_def index_def Let_def GetField_find [OF idx]
  have three: "Suc (Suc (Suc i)) = i + 3" by simp
  from n have i: "i < length b" "b ! i \<noteq> tSTOP" by (auto simp: step split: if_splits)
  with n obtain fid where fid: "beUint16 (drop (i + 1) b) = Ok fid"
    by (cases "beUint16 (drop (i + 1) b)") (auto simp: step)
  then have h: "hdrID b i = fid" by (simp add: hdrID_def)
  show ?thesis
  proof (cases "matchField sd b i")
    case None
    with n i fid h have "skipField cx sd b (i + 3) fid (b ! i) s = TNext i' s'"
      by (auto simp: step matchField_def three split: option.splits if_splits)
    from skipField_next [OF this] None show ?thesis by (simp add: eventAt_def)
  next
    case (Some f)
    then have f: "find (\<lambda>f. fID f = fid) (sd_fields sd) = Some f" "tWT (fType f) = b ! i"
      by (auto simp: matchField_def h split: option.splits if_splits)
    with n i fid Some show ?thesis
      by (auto simp: step eventAt_def split: option.splits dres.splits)
  qed
qed

lemma steps_effect:
  "steps cx dt sd b i s es j u \<Longrightarrow> wfIdx sd \<Longrightarrow>
     f_bs u = map_option (fold bitset_set (seen es)) (f_bs s) \<and>
     f_ufs u = map_option (fold (\<lambda>(o', n). uf_Add o' n) (skipped es)) (f_ufs s)"
proof (induction rule: steps.induct)
  case (none i s)
  then show ?case by (simp add: option.map_ident)
next
  case (field i s i' s' es j u)
  from decodeField_effect [OF field.prems field.hyps(1)] field.IH [OF field.prems] show ?case
    by (cases "eventAt sd b i i'") (auto simp: option.map_comp o_def)
qed

lemma uf_bytes_fold:
  "uf_bytes b (fold (\<lambda>(o', n). uf_Add o' n) rs p) =
     uf_bytes b p @ concat (map (\<lambda>(o', n). take n (drop o' b)) rs)"
  by (induction rs arbitrary: p) (auto simp: uf_bytes_Add)

text \<open>A step writes to the cell of the field it decodes and to no other.\<close>

lemma map_of_updField_other:
  "off' \<noteq> off \<Longrightarrow> map_of (updField off v cs) off' = map_of cs off'"
  by (induction off v cs rule: updField.induct) auto

lemma decodeField_frame:
  assumes idx: "wfIdx sd" and n: "decodeField cx dt sd b i s = TNext i' s'"
    and off: "\<And>f. f \<in> set (sd_fields sd) \<Longrightarrow> eventAt sd b i i' = Seen (fID f) \<Longrightarrow> fOffset f \<noteq> off"
  shows "map_of (f_cs s') off = map_of (f_cs s) off"
proof -
  note step = decodeField_def tgo_def index_def Let_def GetField_find [OF idx]
  have three: "Suc (Suc (Suc i)) = i + 3" by simp
  from n have i: "i < length b" "b ! i \<noteq> tSTOP" by (auto simp: step split: if_splits)
  with n obtain fid where fid: "beUint16 (drop (i + 1) b) = Ok fid"
    by (cases "beUint16 (drop (i + 1) b)") (auto simp: step)
  then have h: "hdrID b i = fid" by (simp add: hdrID_def)
  show ?thesis
  proof (cases "matchField sd b i")
    case None
    with n i fid h have "skipField cx sd b (i + 3) fid (b ! i) s = TNext i' s'"
      by (auto simp: step matchField_def three split: option.splits if_splits)
    then show ?thesis by (auto simp: skipField_def tgo_def split: go.splits sum.splits option.splits)
  next
    case (Some f)
    then have f: "find (\<lambda>f. fID f = fid) (sd_fields sd) = Some f" "tWT (fType f) = b ! i"
      by (auto simp: matchField_def h split: option.splits if_splits)
    have "fOffset f \<noteq> off"
      using find_field [OF f(1)] Some by (intro off) (auto simp: eventAt_def)
    with n i fid f show ?thesis
      by (auto simp: step map_of_updField_other split: option.splits dres.splits)
  qed
qed

lemma steps_frame:
  "steps cx dt sd b i s es j u \<Longrightarrow> wfIdx sd \<Longrightarrow>
     (\<And>f. f \<in> set (sd_fields sd) \<Longrightarrow> fID f \<in> set (seen es) \<Longrightarrow> fOffset f \<noteq> off) \<Longrightarrow>
     map_of (f_cs u) off = map_of (f_cs s) off"
proof (induction rule: steps.induct)
  case (field i s i' s' es j u)
  have "set (seen es) \<subseteq> set (seen (eventAt sd b i i' # es))"
    by (cases "eventAt sd b i i'") auto
  with field have "map_of (f_cs u) off = map_of (f_cs s') off" by blast
  also have "\<dots> = map_of (f_cs s) off"
    by (rule decodeField_frame [OF field.prems(1) field.hyps(1)], rule field.prems(2)) auto
  finally show ?case .
qed simp

lemma decodeField_dom:
  assumes idx: "wfIdx sd" and n: "decodeField cx dt sd b i s = TNext i' s'"
  shows "map fst (f_cs s') = map fst (f_cs s)"
  using n
  by (auto simp: decodeField_def skipField_def tgo_def Let_def
      split: if_splits go.splits option.splits sum.splits dres.splits)

lemma steps_dom:
  "steps cx dt sd b i s es j u \<Longrightarrow> wfIdx sd \<Longrightarrow> map fst (f_cs u) = map fst (f_cs s)"
  by (induction rule: steps.induct) (simp_all add: decodeField_dom)

subsection \<open>The required check and the unknown fields\<close>

lemma checkRequired_find:
  assumes sd: "wfSd bv env sd" and rs: "set rs \<subseteq> set (requiredFieldIDs sd)"
  shows "checkRequired sd (Some x) rs =
    Ok (map_option (\<lambda>r. ErrRequired (sd_rt sd) (fOffset (the (find (\<lambda>f. fID f = r) (sd_fields sd)))))
         (find (\<lambda>r. \<not> bitset_test r x) rs))"
  using rs
proof (induction rs)
  case (Cons r rs)
  from required_field [of sd r] sd Cons.prems obtain f where "f \<in> set (sd_fields sd)" "fID f = r"
    by (auto simp: wfSd_def)
  then obtain g where "find (\<lambda>f. fID f = r) (sd_fields sd) = Some g" using find_id_Some by blast
  then show ?case using Cons sd by (simp add: GetField_find wfSd_def)
qed simp

definition bsok :: "dstate \<Rightarrow> bool" where
  "bsok d \<longleftrightarrow> (\<forall>s\<in>set (d_bitsets d). bitset_ok s)"

lemma dok_bsok: "dok bv cx d \<Longrightarrow> bsok d"
  by (simp add: dok_def bsok_def)

lemma enterStruct_bs:
  assumes "bsok d"
  shows "f_bs (enterStruct sd cs d) = None \<and> requiredFieldIDs sd = [] \<or>
    (\<exists>x. bitset_ok x \<and> f_bs (enterStruct sd cs d) = Some (fold bitset_unset (requiredFieldIDs sd) x))"
  using assms newBitset_ok
  by (auto simp: enterStruct_def Let_def bsok_def split: list.splits)

lemma enterStruct_ufs:
  "f_ufs (enterStruct sd cs d) = None \<and> \<not> hasUnknownFields sd \<or>
    hasUnknownFields sd \<and> (\<exists>p. f_ufs (enterStruct sd cs d) = Some (uf_Reset p))"
  by (auto simp: enterStruct_def Let_def split: list.splits)

lemma run_required:
  assumes sd: "wfSd bv env sd" and d: "bsok d"
    and r: "steps cx dt sd b 0 (enterStruct sd cs d) es i u"
  shows "checkRequired sd (f_bs u) (requiredFieldIDs sd) =
    Ok (map_option (\<lambda>r. ErrRequired (sd_rt sd) (fOffset (the (find (\<lambda>f. fID f = r) (sd_fields sd)))))
         (find (\<lambda>r. r \<notin> set (seen es)) (requiredFieldIDs sd)))"
proof -
  have idx: "wfIdx sd" using sd by (simp add: wfSd_def)
  from enterStruct_bs [OF d, of sd cs] show ?thesis
  proof
    assume "f_bs (enterStruct sd cs d) = None \<and> requiredFieldIDs sd = []"
    then show ?thesis by simp
  next
    assume "\<exists>x. bitset_ok x \<and> f_bs (enterStruct sd cs d) = Some (fold bitset_unset (requiredFieldIDs sd) x)"
    then obtain x where x: "bitset_ok x"
      "f_bs u = Some (fold bitset_set (seen es) (fold bitset_unset (requiredFieldIDs sd) x))"
      using steps_effect [OF r idx] by auto
    show ?thesis
      unfolding x(2) checkRequired_find [OF sd order_refl]
      by (simp add: bs.first_missing [OF x(1)])
  qed
qed

text \<open>What is written to the unknown fields at the end.\<close>

definition unknownBytes :: "bytes \<Rightarrow> event list \<Rightarrow> bytes" where
  "unknownBytes b es = concat (map (\<lambda>(o', n). take n (drop o' b)) (skipped es))"

definition storeUnknown :: "structDesc \<Rightarrow> bytes \<Rightarrow> (nat \<times> gval) list \<Rightarrow> (nat \<times> gval) list" where
  "storeUnknown sd q cs =
     (if hasUnknownFields sd \<and> q \<noteq> [] then updField (unknownFieldsOffset sd) (VBytes (Some q)) cs else cs)"

lemma run_finish:
  assumes cx: "ctx_ok bv cx" and dt: "dfun_ok bv cx dt" and sd: "wfSd bv (cx_env cx) sd"
    and cs: "okFs (cx_env cx) sd cs" and d: "dok bv cx d"
    and r: "steps cx dt sd b 0 (enterStruct sd cs d) es i u" and stop: "decodeField cx dt sd b i u = TStop j"
  shows "decodeStruct cx dt sd b (VStruct cs) d =
    (case find (\<lambda>r. r \<notin> set (seen es)) (requiredFieldIDs sd) of
       Some r \<Rightarrow> DErr j (ErrRequired (sd_rt sd) (fOffset (the (find (\<lambda>f. fID f = r) (sd_fields sd)))))
                  (VStruct (f_cs u)) (leaveStruct u)
     | None \<Rightarrow> DOk j (VStruct (storeUnknown sd (unknownBytes b es) (f_cs u))) (leaveStruct u))"
proof -
  note env = ctx_env [OF cx]
  have idx: "wfIdx sd" using sd by (simp add: wfSd_def)
  have F: "decodeFields cx dt sd b 0 (enterStruct sd cs d) = FDone j u"
    by (rule run_decodeFields [OF r stop])
  with decodeFields_ok [OF cx dt sd enterStruct_ok [OF cs d], of b 0] have u: "fs_ok bv cx sd b u" by simp
  have req: "finishStruct cx sd b j u =
     (case find (\<lambda>r. r \<notin> set (seen es)) (requiredFieldIDs sd) of
       Some r \<Rightarrow> DErr j (ErrRequired (sd_rt sd) (fOffset (the (find (\<lambda>f. fID f = r) (sd_fields sd)))))
                  (VStruct (f_cs u)) (leaveStruct u)
     | None \<Rightarrow> (case f_ufs u of
              None \<Rightarrow> DOk j (VStruct (f_cs u)) (leaveStruct u)
            | Some x \<Rightarrow>
                if uf_Size x > 0 then
                  dgo (uf_Copy (cx_junk cx) b x) (\<lambda>x.
                  dgo (storeField (VStruct (f_cs u)) (unknownFieldsOffset sd) (VBytes (Some x))) (\<lambda>c.
                    DOk j c (leaveStruct u)))
                else DOk j (VStruct (f_cs u)) (leaveStruct u)))"
    by (simp add: finishStruct_def run_required [OF sd dok_bsok [OF d] r] dgo_def split: option.split)
  show ?thesis
  proof (cases "f_ufs u")
    case None
    with u have "\<not> hasUnknownFields sd" by (auto simp: fs_ok_def)
    then show ?thesis by (simp add: decodeStruct_def F req None storeUnknown_def split: option.split)
  next
    case (Some x)
    with u have h: "hasUnknownFields sd" and x: "uf_ok b x" by (auto simp: fs_ok_def)
    with enterStruct_ufs [of sd cs d] steps_effect [OF r idx] Some
    have q: "uf_bytes b x = unknownBytes b es"
      by (auto simp: uf_bytes_fold uf_bytes_Reset unknownBytes_def)
    have c: "uf_Copy (cx_junk cx) b x = Ok (unknownBytes b es)"
      using cx uf_Copy_bytes [OF x] by (simp add: ctx_ok_def q)
    have sz: "uf_Size x > 0 \<longleftrightarrow> unknownBytes b es \<noteq> []"
      using uf_bytes_length [OF x] length_greater_0_conv [of "unknownBytes b es"]
      by (simp add: q uf_Size_def del: length_greater_0_conv)
    have "okFs (cx_env cx) sd (f_cs u)" using u by (simp add: fs_ok_def)
    note dom = okFs_unknown(2) [OF env sd this h]
    show ?thesis
      using h dom sz c
      by (simp add: decodeStruct_def F req Some storeUnknown_def dgo_def split: option.split)
  qed
qed

end
