(* ===== verification/RoundTrip.thy ===== *)
theory RoundTrip
  imports Equivalence FieldLoop
begin

text \<open>
  The decoder inverts the wire specification: decoding the encoding of a value, whatever
  follows it, consumes exactly the encoding and gives an equivalent value.
\<close>

subsection \<open>Cells to decode into\<close>

definition cellFor :: "dctx \<Rightarrow> tType \<Rightarrow> gval \<Rightarrow> bool" where
  "cellFor cx t c \<longleftrightarrow> (tT t = tSTRUCT \<longrightarrow> (\<exists>sd. Sd (cx_env cx) t = Ok sd \<and> c = sd_zero sd))"

text \<open>
  A fresh object: nil where the encoder skips nil, the default where it skips the default,
  and no unknown fields. Every descriptor's own fresh object has to be one.
\<close>

definition fresh :: "structDesc \<Rightarrow> (nat \<times> gval) list \<Rightarrow> bool" where
  "fresh sd cs \<longleftrightarrow> specUnknown sd cs = [] \<and>
     (\<forall>f\<in>set (sd_fields sd).
        case map_of cs (fOffset f) of
          None \<Rightarrow> False
        | Some w \<Rightarrow> fCanSkipEncodeIfNil f \<or> fCanSkipIfDefault f \<longrightarrow> field_skipped f (Some w) = Ok True)"

definition initial :: "structDesc \<Rightarrow> gval" where
  "initial sd = (if hasInitFunc sd then initFunc sd (sd_zero sd) else sd_zero sd)"

definition freshCtx :: "dctx \<Rightarrow> bool" where
  "freshCtx cx \<longleftrightarrow> wfEnv False (cx_env cx) \<and>
     (\<forall>i sd. cx_env cx i = Some sd \<longrightarrow> (\<exists>cs. initial sd = VStruct cs \<and> fresh sd cs))"

lemma elemCell_rt:
  assumes wf: "wfT False (cx_env cx) t"
  shows "\<exists>c'. elemCell cx t c = Ok c' \<and> cellFor cx t c'"
proof (cases "tIsPointer t")
  case True
  from wfT_pointee [OF wf True] obtain v where v: "tV t = Some v" and
    v': "tT v = tT t \<and> \<not> tIsPointer v \<and> tTag t = T_pointer \<and>
      (typeToSize (tT t) = 0 \<longrightarrow> tMallocAbiType v \<noteq> None) \<and>
      (simpleTypes (tT t) \<longrightarrow> tTag v \<noteq> T_binary) \<and>
      (tT t = tSTRUCT \<longrightarrow> struct_id (tRT v) = struct_id (tRT t))" by (elim exE conjE) metis
  have "cellFor cx t (newMem cx v)"
    unfolding cellFor_def
  proof
    assume st: "tT t = tSTRUCT"
    from wfT_Sd [OF wf st] obtain sd where sd: "Sd (cx_env cx) t = Ok sd" by metis
    then have "Sd (cx_env cx) v = Ok sd" using v' st by (simp add: Sd_def)
    with sd v' st show "\<exists>sd. Sd (cx_env cx) t = Ok sd \<and> newMem cx v = sd_zero sd"
      by (auto simp: newMem_def zeroV_def typeToSize_def)
  qed
  with True v show ?thesis by (simp add: elemCell_def)
next
  case False
  then have "tT t \<noteq> tSTRUCT" using wf by (cases t) (auto simp: simpleTypes_def)
  with False show ?thesis by (simp add: elemCell_def cellFor_def)
qed

lemma bsok_span [simp]: "bsok (d\<lparr>d_s := s\<rparr>) = bsok d"
  by (simp add: bsok_def)

lemma bsok_Malloc [simp]: "bsok (d_Malloc cx n a abi d) = bsok d"
  by (simp add: d_Malloc_def)

lemma bsok_tmp [simp]: "bsok (putTmp t x d) = bsok d" "bsok (snd (getTmp cx t kt vt d)) = bsok d"
  by (auto simp: putTmp_def getTmp_def bsok_def split: list.splits)

lemma mallocElems_rt:
  assumes "wfT bv env t"
  obtains d' where "mallocElems cx t l d = Ok d'" "bsok d' = bsok d"
proof (cases "tIsPointer t")
  case True
  obtain v where "tV t = Some v" using wfT_pointee [OF assms True] by blast
  with that True show thesis by (cases "l > 0") (auto simp: mallocElems_def)
qed (use that in \<open>auto simp: mallocElems_def\<close>)

subsection \<open>What holds of a value\<close>

definition nonnil :: "gval \<Rightarrow> bool" where
  "nonnil v \<longleftrightarrow> ldIsNil (Some v) \<noteq> Ok True"

definition rt :: "dctx \<Rightarrow> nat \<Rightarrow> tType \<Rightarrow> gval \<Rightarrow> bytes \<Rightarrow> bool" where
  "rt cx n t v bs \<longleftrightarrow>
     specV (cx_env cx) n t v = Some bs \<and> minWireSize (tWT t) \<le> length bs \<and>
     (\<forall>m rest c d. 2 * n \<le> m \<longrightarrow> bsok d \<longrightarrow> cellFor cx t c \<longrightarrow>
        (\<exists>c' d'. decodeType cx m t (bs @ rest) c d = DOk (length bs) c' d' \<and> bsok d' \<and>
           eqv (cx_env cx) n t v (wrapElem t c') \<and> nonnil (wrapElem t c')))"

lemma rt_pos: "rt cx n t v bs \<Longrightarrow> n > 0"
  by (cases n) (auto simp: rt_def)

lemma rt_decode:
  assumes "rt cx n t v bs" "2 * n \<le> m" "bsok d" "cellFor cx t c"
  shows "\<exists>c' d'. decodeType cx m t (bs @ rest) c d = DOk (length bs) c' d' \<and> bsok d' \<and>
    eqv (cx_env cx) n t v (wrapElem t c') \<and> nonnil (wrapElem t c')"
  using assms by (simp add: rt_def)

text \<open>At an offset: the fast path for fixed sizes agrees with \<^verbatim>\<open>decodeType\<close>.\<close>

lemma decodeType_fixed:
  "m > 0 \<Longrightarrow> tFixedSize t > 0 \<Longrightarrow>
   decodeType cx m t b c d = dgo (decodeFixedSizeTypes (tT t) b) (\<lambda>(v, n). DOk n v d)"
  by (cases m) (simp_all add: decodeTypeBody_def)

lemma decodeAt_rt:
  assumes r: "rt cx n t v bs" and m: "2 * n \<le> m" and d: "bsok d" and c: "cellFor cx t c"
    and b: "drop i b = bs @ rest" "i \<le> length b"
  shows "\<exists>c' d'. decodeAt (decodeType cx m) t b i c d = DOk (length bs) c' d' \<and> bsok d' \<and>
    eqv (cx_env cx) n t v (wrapElem t c') \<and> nonnil (wrapElem t c')"
proof -
  have "m > 0" using rt_pos [OF r] m by simp
  then have "decodeAt (decodeType cx m) t b i c d = decodeType cx m t (bs @ rest) c d"
    using b by (simp add: decodeAt_def dgo_def decodeType_fixed)
  with rt_decode [OF r m d c] show ?thesis by simp
qed

subsection \<open>Scalars and strings\<close>

lemma beLen_wire: "length s < 2 ^ 31 \<Longrightarrow> beLen (wire32 (length s) @ r) = Ok (int (length s))"
proof -
  assume "length s < 2 ^ 31"
  then have "sint (of_nat (length s) :: 32 word) = int (length s)"
    by (simp add: signed_of_nat signed_take_bit_int_eq_self)
  then show ?thesis by (simp add: beLen_def wire32_eq be32.get_put)
qed

text \<open>A scalar of fixed size.\<close>

lemma fixed_rt:
  assumes s: "simpleTypes (tT t)" "typeToSize (tT t) > 0" and c: "confSimple True t a" and r: "rtSimple t a"
    and bs: "specSimple t a = Some bs"
  shows "decodeFixedSizeTypes (tT t) (bs @ rest) = Ok (a, length bs) \<and> length bs = typeToSize (tT t) \<and>
    eqvSimple a a \<and> ldIsNil (Some a) \<noteq> Ok True"
proof -
  consider "tT t = tBOOL \<or> tT t = tBYTE" | "tT t = tI16" | "tT t = tI32" |
    "tT t = tI64 \<or> tT t = tDOUBLE" | "tT t = tENUM"
    using s by (auto simp: simpleTypes_def typeToSize_def)
  then show ?thesis
  proof cases
    case 1
    then show ?thesis using c bs be8.get_put
      by (auto simp: confSimple_def specSimple_eq decodeFixedSizeTypes_def typeToSize_def appendByte_def
          beByte_def index_def eqvSimple_def split: gval.splits)
  next
    case 2
    then show ?thesis using c bs be16.get_put
      by (auto simp: confSimple_def specSimple_eq decodeFixedSizeTypes_def typeToSize_def
          eqvSimple_def split: gval.splits)
  next
    case 3
    then show ?thesis using c bs be32.get_put
      by (auto simp: confSimple_def specSimple_eq decodeFixedSizeTypes_def typeToSize_def
          eqvSimple_def split: gval.splits)
  next
    case 4
    then show ?thesis using c bs be64.get_put
      by (auto simp: confSimple_def specSimple_eq decodeFixedSizeTypes_def typeToSize_def
          eqvSimple_def split: gval.splits)
  next
    case 5
    then show ?thesis using c bs r be32.get_put
      by (auto simp: confSimple_def specSimple_eq decodeFixedSizeTypes_def typeToSize_def rtSimple_def
          eqvSimple_def split: gval.splits)
  qed
qed

text \<open>A string or a binary.\<close>

lemma string_spec:
  assumes "tT t = tSTRING" "confSimple True t a" "rtSimple t a" "specSimple t a = Some bs"
  obtains s where "bs = wire32 (length s) @ s" "length s < 2 ^ 31" "eqvSimple a (storeString t s)"
  using assms
  by (auto simp: confSimple_def rtSimple_def specSimple_eq storeString_def eqvSimple_def content_def Let_def
      split: gval.splits if_splits option.splits)

lemma string_rt:
  assumes T: "tT t = tSTRING" and c: "confSimple True t a" and r: "rtSimple t a"
    and bs: "specSimple t a = Some bs" and d: "bsok d"
  shows "\<exists>a' d'. decodeString cx t (bs @ rest) c d = DOk (length bs) a' d' \<and>
      decodeStringNoCopy t (bs @ rest) c d = DOk (length bs) a' d \<and> bsok d' \<and> eqvSimple a a' \<and>
      ldIsNil (Some a') \<noteq> Ok True"
proof -
  obtain s where s: "bs = wire32 (length s) @ s" "length s < 2 ^ 31" "eqvSimple a (storeString t s)"
    by (rule string_spec [OF T c r bs])
  have "beLen (bs @ rest) = Ok (int (length s))" using s by (simp add: beLen_wire)
  then show ?thesis
    using s d
    by (cases "s = []")
       (auto simp: decodeString_def decodeStringNoCopy_def strHeaderLen_def dgo_def storeString_def)
qed

lemma simple_rt:
  assumes wf: "wfT False (cx_env cx) t" and s: "simpleTypes (tT t)" and c: "confSimple True t a"
    and r: "rtSimple t a" and bs: "specSimple t a = Some bs"
  shows "rt cx (Suc n) t (wrapElem t a) bs"
proof -
  have spec: "specV (cx_env cx) (Suc n) t (wrapElem t a) = Some bs"
    using s bs by (simp add: wrapElem_def)
  have dec: "\<exists>c' d'. decodeType cx (Suc m) t (bs @ rest) c0 d = DOk (length bs) c' d' \<and> bsok d' \<and>
      eqvSimple a c' \<and> ldIsNil (Some c') \<noteq> Ok True" if d: "bsok d" for m rest c0 d
  proof (cases "typeToSize (tT t) = 0")
    case True
    with s typeToSize_pos [of "tT t"] have T: "tT t = tSTRING" by auto
    from string_rt [OF T c r bs d, of cx rest c0] True show ?thesis
      by (auto simp: decodeTypeBody_def T wfT_fixed_sel [OF wf])
  next
    case False
    with fixed_rt [OF s _ c r bs, of rest] d show ?thesis
      by (simp add: decodeTypeBody_def dgo_def wfT_fixed_sel [OF wf])
  qed
  have min: "minWireSize (tWT t) \<le> length bs"
  proof (cases "typeToSize (tT t) = 0")
    case True
    with s typeToSize_pos [of "tT t"] have T: "tT t = tSTRING" by auto
    show ?thesis
      by (rule string_spec [OF T c r bs]) (simp add: T wfT_WT_sel [OF wf] minWireSize_def)
  next
    case False
    with fixed_rt [OF s _ c r bs] s show ?thesis
      by (auto simp: wfT_WT_sel [OF wf] minWireSize_def typeToSize_def)
  qed
  have "\<exists>c' d'. decodeType cx m t (bs @ rest) c0 d = DOk (length bs) c' d' \<and> bsok d' \<and>
      eqv (cx_env cx) (Suc n) t (wrapElem t a) (wrapElem t c') \<and> nonnil (wrapElem t c')"
    if "2 * Suc n \<le> m" "bsok d" for m rest c0 d
  proof -
    from that obtain m' where "m = Suc m'" by (cases m) auto
    with dec [OF that(2), of m' rest c0] eqv_simple [OF s] show ?thesis
      by (auto simp: nonnil_def wrapElem_def simp del: decodeType.simps)
  qed
  with spec min show ?thesis unfolding rt_def by blast
qed

subsection \<open>Lists\<close>

lemma decodeElems_rt:
  assumes wf: "wfT False (cx_env cx) et" and m: "2 * n \<le> m"
  shows "\<lbrakk>\<forall>x\<in>set vs. rt cx n et x (B x); drop i b = concat (map B vs) @ rest; i \<le> length b; bsok d\<rbrakk> \<Longrightarrow>
    \<exists>cs d'. decodeElems cx (decodeType cx m) et b (length vs) i d =
        LOk (i + length (concat (map B vs))) cs d' \<and>
      list_all2 (eqv (cx_env cx) n et) vs cs \<and> bsok d'"
proof (induction vs arbitrary: i d)
  case (Cons x vs)
  obtain c where c: "elemCell cx et (newMem cx et) = Ok c" "cellFor cx et c"
    using elemCell_rt [OF wf] by blast
  have b: "drop i b = B x @ (concat (map B vs) @ rest)" using Cons.prems by simp
  from decodeAt_rt [of cx n et x "B x" m d c i b] Cons.prems m c(2) b obtain c' d' where
    1: "decodeAt (decodeType cx m) et b i c d = DOk (length (B x)) c' d'" "bsok d'"
      "eqv (cx_env cx) n et x (wrapElem et c')" by auto
  have "length (drop i b) \<ge> length (B x)" using b by simp
  then have "i + length (B x) \<le> length b" using Cons.prems(3) by simp
  moreover have "drop (i + length (B x)) b = concat (map B vs) @ rest"
    using arg_cong [OF b, of "drop (length (B x))"] by (simp add: add.commute)
  ultimately obtain cs d'' where
    2: "decodeElems cx (decodeType cx m) et b (length vs) (i + length (B x)) d' =
        LOk (i + length (B x) + length (concat (map B vs))) cs d''"
      "list_all2 (eqv (cx_env cx) n et) vs cs" "bsok d''"
    using Cons.IH [of "i + length (B x)" d'] Cons.prems(1) 1(2) by auto
  show ?case using c 1 2 by (simp add: add.assoc)
qed simp

lemma length_concat_ge:
  "(\<And>x. x \<in> set xs \<Longrightarrow> k \<le> length (f x)) \<Longrightarrow> length xs * k \<le> length (concat (map f xs))"
proof (induction xs)
  case (Cons x xs)
  have "length xs * k \<le> length (concat (map f xs))" "k \<le> length (f x)"
    using Cons by simp_all
  then show ?case by simp
qed simp

lemma decodeList_rt:
  assumes wf: "wfT False (cx_env cx) et" and V: "tV t = Some et" and m: "2 * n \<le> m"
    and e: "\<forall>x\<in>set vs. rt cx n et x (B x)" and len: "length vs < 2 ^ 31" and d: "bsok d"
  defines "bs \<equiv> tWT et # wire32 (length vs) @ concat (map B vs)"
  shows "\<exists>cs d'. decodeList cx (decodeType cx m) t (bs @ rest) c d = DOk (length bs) (VSlice (Some cs)) d' \<and>
    list_all2 (eqv (cx_env cx) n et) vs cs \<and> bsok d'"
proof -
  have l: "beLen (wire32 (length vs) @ concat (map B vs) @ rest) = Ok (int (length vs))"
    using beLen_wire [OF len] by simp
  have hd: "index (bs @ rest) 0 = Ok (tWT et)"
    "sliceFrom (bs @ rest) 1 = Ok (wire32 (length vs) @ concat (map B vs) @ rest)"
    by (simp_all add: bs_def index_def sliceFrom_def)
  have mw: "minWireSize (tWT et) > 0" by (rule minWireSize_pos [OF wf])
  have "length vs * minWireSize (tWT et) \<le> length (concat (map B vs))"
    using e by (intro length_concat_ge) (auto simp: rt_def)
  then have "length vs * minWireSize (tWT et) \<le> length (bs @ rest) - 5" by (simp add: bs_def)
  then have guard: "length vs \<le> (length (bs @ rest) - 5) div minWireSize (tWT et)"
    using mw by (simp add: less_eq_div_iff_mult_less_eq)
  have blen: "\<not> length (bs @ rest) < listHeaderLen" by (simp add: bs_def listHeaderLen_def)
  show ?thesis
  proof (cases "vs = []")
    case True
    then show ?thesis
      using hd l d V blen by (simp add: decodeList_def dgo_def bs_def del: length_append)
  next
    case False
    obtain d1 where d1: "mallocElems cx et (length vs)
        (d_Malloc cx (length vs * tSize et) (tAlign et) (tMallocAbiType et) d) = Ok d1" "bsok d1"
      using mallocElems_rt [OF wf] d by (metis bsok_Malloc)
    have "drop 5 (bs @ rest) = concat (map B vs) @ rest" by (simp add: bs_def)
    from decodeElems_rt [OF wf m e this _ d1(2)] obtain cs d' where
      "decodeElems cx (decodeType cx m) et (bs @ rest) (length vs) 5 d1 =
        LOk (5 + length (concat (map B vs))) cs d'"
      "list_all2 (eqv (cx_env cx) n et) vs cs" "bsok d'" by (auto simp: bs_def)
    moreover have "length bs = 5 + length (concat (map B vs))" by (simp add: bs_def)
    ultimately show ?thesis
      using hd l V blen mw False guard d1(1)
      by (simp add: decodeList_def dgo_def Let_def del: length_append)
  qed
qed

subsection \<open>Maps\<close>

lemma setMapIndex_new:
  "\<forall>x\<in>set m. \<not> goKeyEq kt (fst x) k \<Longrightarrow> setMapIndex kt m k v = m @ [(k, v)]"
  by (induction kt m k v rule: setMapIndex.induct) auto

text \<open>A decoded key that is no pointer is the key that was encoded.\<close>

definition keysSame :: "env \<Rightarrow> nat \<Rightarrow> tType \<Rightarrow> gval set \<Rightarrow> bool" where
  "keysSame env n kt ks \<longleftrightarrow> tIsPointer kt \<or> (\<forall>k\<in>ks. \<forall>k'. eqv env n kt k (wrapElem kt k') \<longrightarrow> wrapElem kt k' = k)"

lemma goKeyEq_ptr: "tIsPointer kt \<Longrightarrow> \<not> goKeyEq kt a b"
  by (simp add: goKeyEq_def)

definition pairEqv :: "env \<Rightarrow> nat \<Rightarrow> tType \<Rightarrow> tType \<Rightarrow> gval \<times> gval \<Rightarrow> gval \<times> gval \<Rightarrow> bool" where
  "pairEqv env n kt vt x y \<longleftrightarrow> eqv env n kt (fst x) (fst y) \<and> eqv env n vt (snd x) (snd y)"

lemma decodeEntries_rt:
  assumes wk: "wfT False (cx_env cx) kt" and wv: "wfT False (cx_env cx) vt" and m: "2 * n \<le> m"
  shows "\<lbrakk>\<forall>x\<in>set kvs. rt cx n kt (fst x) (Bk x) \<and> rt cx n vt (snd x) (Bv x);
     drop i b = concat (map (\<lambda>x. Bk x @ Bv x) kvs) @ rest; i \<le> length b; bsok d;
     keysSame (cx_env cx) n kt (fst ` set kvs);
     \<forall>a\<in>set acc. \<forall>x\<in>set kvs. \<not> goKeyEq kt (fst a) (fst x);
     sorted_wrt (\<lambda>x y. \<not> goKeyEq kt (fst x) (fst y)) kvs\<rbrakk> \<Longrightarrow>
    \<exists>kc' vc' new d'. decodeEntries cx (decodeType cx m) kt vt b (length kvs) i kc vc acc d =
        MOk (i + length (concat (map (\<lambda>x. Bk x @ Bv x) kvs))) kc' vc' (acc @ new) d' \<and>
      list_all2 (pairEqv (cx_env cx) n kt vt) kvs new \<and> bsok d'"
proof (induction kvs arbitrary: i kc vc acc d)
  case (Cons x kvs)
  obtain c where c: "elemCell cx kt kc = Ok c" "cellFor cx kt c" using elemCell_rt [OF wk] by blast
  have rk: "rt cx n kt (fst x) (Bk x)" and rv: "rt cx n vt (snd x) (Bv x)" using Cons.prems(1) by auto
  have b: "drop i b = Bk x @ (Bv x @ concat (map (\<lambda>x. Bk x @ Bv x) kvs) @ rest)"
    using Cons.prems(2) by simp
  from decodeAt_rt [OF rk m Cons.prems(4) c(2) b Cons.prems(3)] obtain ck d1 where
    1: "decodeAt (decodeType cx m) kt b i c d = DOk (length (Bk x)) ck d1" "bsok d1"
      "eqv (cx_env cx) n kt (fst x) (wrapElem kt ck)" by blast
  obtain c2 where c2: "elemCell cx vt vc = Ok c2" "cellFor cx vt c2" using elemCell_rt [OF wv] by blast
  define j where "j = i + length (Bk x)"
  have lb: "length (Bk x) + length (Bv x) \<le> length b - i"
    using arg_cong [OF b, of length] by simp
  have bj: "drop j b = Bv x @ (concat (map (\<lambda>x. Bk x @ Bv x) kvs) @ rest)" and jl: "j \<le> length b"
    using arg_cong [OF b, of "drop (length (Bk x))"] lb Cons.prems(3) by (simp_all add: j_def add.commute)
  from decodeAt_rt [OF rv m 1(2) c2(2) bj jl] obtain cv d2 where
    2: "decodeAt (decodeType cx m) vt b j c2 d1 = DOk (length (Bv x)) cv d2" "bsok d2"
      "eqv (cx_env cx) n vt (snd x) (wrapElem vt cv)" by blast
  define i' where "i' = j + length (Bv x)"
  have bi: "drop i' b = concat (map (\<lambda>x. Bk x @ Bv x) kvs) @ rest" and il: "i' \<le> length b"
    using arg_cong [OF bj, of "drop (length (Bv x))"] lb Cons.prems(3) by (simp_all add: i'_def j_def add.commute)
  have key: "goKeyEq kt (wrapElem kt ck) y = goKeyEq kt (fst x) y"
    "goKeyEq kt y (wrapElem kt ck) = goKeyEq kt y (fst x)" for y
    using Cons.prems(5) 1(3) goKeyEq_ptr by (auto simp: keysSame_def)
  have new: "setMapIndex kt acc (wrapElem kt ck) (wrapElem vt cv) = acc @ [(wrapElem kt ck, wrapElem vt cv)]"
    using Cons.prems(6) by (intro setMapIndex_new) (auto simp: key)
  have "\<exists>kc' vc' new d'. decodeEntries cx (decodeType cx m) kt vt b (length kvs) i' (wrapElem kt ck)
        (wrapElem vt cv) (acc @ [(wrapElem kt ck, wrapElem vt cv)]) d2 =
        MOk (i' + length (concat (map (\<lambda>x. Bk x @ Bv x) kvs))) kc' vc'
          ((acc @ [(wrapElem kt ck, wrapElem vt cv)]) @ new) d' \<and>
      list_all2 (pairEqv (cx_env cx) n kt vt) kvs new \<and> bsok d'"
    using Cons.prems by (intro Cons.IH [OF _ bi il 2(2)]) (auto simp: key keysSame_def)
  then obtain kc' vc' new d' where
    3: "decodeEntries cx (decodeType cx m) kt vt b (length kvs) i' (wrapElem kt ck)
        (wrapElem vt cv) (acc @ [(wrapElem kt ck, wrapElem vt cv)]) d2 =
        MOk (i' + length (concat (map (\<lambda>x. Bk x @ Bv x) kvs))) kc' vc'
          ((acc @ [(wrapElem kt ck, wrapElem vt cv)]) @ new) d'"
      "list_all2 (pairEqv (cx_env cx) n kt vt) kvs new" "bsok d'" by blast
  have "list_all2 (pairEqv (cx_env cx) n kt vt) (x # kvs) ((wrapElem kt ck, wrapElem vt cv) # new)"
    using 1(3) 2(3) 3(2) by (simp add: pairEqv_def)
  moreover have "decodeEntries cx (decodeType cx m) kt vt b (length (x # kvs)) i kc vc acc d =
      MOk (i + length (concat (map (\<lambda>x. Bk x @ Bv x) (x # kvs)))) kc' vc'
        (acc @ (wrapElem kt ck, wrapElem vt cv) # new) d'"
    using c(1) 1(1) c2(1) 2(1) 3(1) new
    by (simp add: Let_def j_def [symmetric] i'_def [symmetric]) (simp add: i'_def j_def)
  ultimately show ?case using 3(3) by blast
qed simp

lemma decodeMap_rt:
  assumes wk: "wfT False (cx_env cx) kt" and wv: "wfT False (cx_env cx) vt"
    and K: "tK t = Some kt" and V: "tV t = Some vt" and m: "2 * n \<le> m"
    and e: "\<forall>x\<in>set kvs. rt cx n kt (fst x) (Bk x) \<and> rt cx n vt (snd x) (Bv x)"
    and len: "length kvs < 2 ^ 31" and d: "bsok d"
    and ks: "keysSame (cx_env cx) n kt (fst ` set kvs)"
    and dist: "sorted_wrt (\<lambda>x y. \<not> goKeyEq kt (fst x) (fst y)) kvs"
  defines "bs \<equiv> tWT kt # tWT vt # wire32 (length kvs) @ concat (map (\<lambda>x. Bk x @ Bv x) kvs)"
  shows "\<exists>new d'. decodeMap cx (decodeType cx m) t (bs @ rest) c d =
      DOk (length bs) (VMap (Some (length new, new))) d' \<and>
    list_all2 (pairEqv (cx_env cx) n kt vt) kvs new \<and> bsok d'"
proof -
  let ?E = "\<lambda>x. Bk x @ Bv x"
  have l: "beLen (wire32 (length kvs) @ concat (map ?E kvs) @ rest) = Ok (int (length kvs))"
    using beLen_wire [OF len] by simp
  have hd: "index (bs @ rest) 0 = Ok (tWT kt)" "index (bs @ rest) 1 = Ok (tWT vt)"
    "sliceFrom (bs @ rest) 2 = Ok (wire32 (length kvs) @ concat (map ?E kvs) @ rest)"
    by (simp_all add: bs_def index_def sliceFrom_def)
  have mk: "minWireSize (tWT kt) + minWireSize (tWT vt) > 0" using minWireSize_pos [OF wk] by simp
  have "length kvs * (minWireSize (tWT kt) + minWireSize (tWT vt)) \<le> length (concat (map ?E kvs))"
    using e by (intro length_concat_ge) (force simp: rt_def intro!: add_mono)
  then have "length kvs * (minWireSize (tWT kt) + minWireSize (tWT vt)) \<le> length (bs @ rest) - mapHeaderLen"
    by (simp add: bs_def mapHeaderLen_def)
  then have guard: "length kvs \<le>
      (length (bs @ rest) - mapHeaderLen) div (minWireSize (tWT kt) + minWireSize (tWT vt))"
    using mk by (simp add: less_eq_div_iff_mult_less_eq)
  have blen: "\<not> length (bs @ rest) < mapHeaderLen" by (simp add: bs_def mapHeaderLen_def)
  obtain kc vc d0 where tmp: "getTmp cx t kt vt d = ((kc, vc), d0)" by (metis prod.exhaust)
  have d0: "bsok d0" using d bsok_tmp(2) [of cx t kt vt d] by (simp add: tmp)
  obtain d1 where d1: "mallocElems cx kt (length kvs) d0 = Ok d1" "bsok d1"
    using mallocElems_rt [OF wk] d0 by metis
  obtain d2 where d2: "mallocElems cx vt (length kvs) d1 = Ok d2" "bsok d2"
    using mallocElems_rt [OF wv] d1(2) by metis
  have b6: "drop 6 (bs @ rest) = concat (map ?E kvs) @ rest" by (simp add: bs_def)
  have "\<exists>kc' vc' new d'. decodeEntries cx (decodeType cx m) kt vt (bs @ rest) (length kvs) 6 kc vc [] d2 =
        MOk (6 + length (concat (map ?E kvs))) kc' vc' ([] @ new) d' \<and>
      list_all2 (pairEqv (cx_env cx) n kt vt) kvs new \<and> bsok d'"
    by (rule decodeEntries_rt [OF wk wv m e b6 _ d2(2) ks _ dist]) (simp_all add: bs_def)
  then obtain kc' vc' new d' where
    r: "decodeEntries cx (decodeType cx m) kt vt (bs @ rest) (length kvs) 6 kc vc [] d2 =
        MOk (6 + length (concat (map ?E kvs))) kc' vc' new d'"
      "list_all2 (pairEqv (cx_env cx) n kt vt) kvs new" "bsok d'" by auto
  have lbs: "length bs = 6 + length (concat (map ?E kvs))" by (simp add: bs_def)
  have "decodeMap cx (decodeType cx m) t (bs @ rest) c d =
      DOk (length bs) (VMap (Some (length new, new))) (putTmp t (kc', vc') d')"
    using hd l K V blen mk guard tmp d1(1) d2(1) r(1) lbs
    by (simp add: decodeMap_def dgo_def del: length_append)
  with r show ?thesis by auto
qed

subsection \<open>Fields\<close>

lemma decodeString_nocopy:
  "decodeString cx t b c d = DOk n v d' \<Longrightarrow> decodeStringNoCopy t b c d = DOk n v d"
  by (auto simp: decodeString_def decodeStringNoCopy_def dgo_def split: go.splits if_splits)

lemma decodeFieldValue_rt:
  assumes f: "wfField False (cx_env cx) f" and r: "rt cx n (fType f) v bs" and m: "2 * n \<le> m"
    and d: "bsok d" and b: "drop i b = bs @ rest" "i \<le> length b"
  shows "\<exists>y d'. decodeFieldValue cx (decodeType cx m) f b i c d = DOk (length bs) y d' \<and> bsok d' \<and>
    eqv (cx_env cx) n (fType f) v y \<and> nonnil y"
proof -
  let ?t = "fType f"
  have wf: "wfT False (cx_env cx) ?t" using f by (simp add: wfField_def)
  obtain d1 where d1: "mallocElems cx ?t 1 d = Ok d1" "bsok d1" using mallocElems_rt [OF wf] d by metis
  obtain c1 where c1: "elemCell cx ?t c = Ok c1" "cellFor cx ?t c1" using elemCell_rt [OF wf] by blast
  obtain y d2 where y: "decodeType cx m ?t (bs @ rest) c1 d1 = DOk (length bs) y d2" "bsok d2"
    "eqv (cx_env cx) n ?t v (wrapElem ?t y)" "nonnil (wrapElem ?t y)"
    using rt_decode [OF r m d1(2) c1(2)] by blast
  have m0: "m > 0" using rt_pos [OF r] m by simp
  have sf: "sliceFrom b i = Ok (bs @ rest)" using b by (simp add: sliceFrom_def)
  show ?thesis
  proof (cases "tFixedSize ?t > 0")
    case True
    have "dgo (decodeFixedSizeTypes (tT ?t) (bs @ rest)) (\<lambda>(v, n). DOk n v d1) = DOk (length bs) y d2"
      using y(1) decodeType_fixed [OF m0 True, of cx "bs @ rest" c1 d1] by simp
    then have "decodeFixedSizeTypes (tT ?t) (bs @ rest) = Ok (y, length bs)"
      by (cases "decodeFixedSizeTypes (tT ?t) (bs @ rest)") (auto simp: dgo_def)
    with True d1 c1(1) sf y show ?thesis
      by (simp add: decodeFieldValue_def dgo_def Let_def del: One_nat_def)
  next
    case False
    show ?thesis
    proof (cases "fNoCopy f")
      case nc: True
      then have T: "tT ?t = tSTRING" using f by (simp add: wfField_def)
      with y(1) m0 False have "decodeString cx ?t (bs @ rest) c1 d1 = DOk (length bs) y d2"
        by (cases m) (simp_all add: decodeTypeBody_def)
      from decodeString_nocopy [OF this] False nc d1 c1(1) sf y show ?thesis
        by (simp add: decodeFieldValue_def dgo_def Let_def del: One_nat_def)
    next
      case nc: False
      with False d1 c1(1) sf y show ?thesis
        by (simp add: decodeFieldValue_def dgo_def Let_def del: One_nat_def)
    qed
  qed
qed

text \<open>One field: its header, then its value.\<close>

lemma appendFieldHeader_cons:
  "appendFieldHeader f [] = [tWT (fType f)] @ appendUint16 [] (fID f)"
  by (simp add: appendFieldHeader_def appendUint16_def)

lemma tWT_not_stop: "wfT bv env t \<Longrightarrow> tWT t \<noteq> tSTOP"
  using wfT_valueTypes [of bv env t] by (auto simp: wfT_WT_sel valueTypes_def)

lemma decodeField_rt:
  assumes sd: "wfSd False (cx_env cx) sd" and f: "f \<in> set (sd_fields sd)"
    and r: "rt cx n (fType f) v bs" and m: "2 * n \<le> m" and d: "bsok (f_d s)"
    and b: "drop i b = appendFieldHeader f [] @ bs @ rest"
    and c: "map_of (f_cs s) (fOffset f) = Some c"
  shows "\<exists>s' y. decodeField cx (decodeType cx m) sd b i s = TNext (i + 3 + length bs) s' \<and>
    eventAt sd b i (i + 3 + length bs) = Seen (fID f) \<and> bsok (f_d s') \<and>
    f_cs s' = updField (fOffset f) y (f_cs s) \<and> eqv (cx_env cx) n (fType f) v y \<and> nonnil y"
proof -
  have idx: "wfIdx sd" and wff: "wfField False (cx_env cx) f" using sd f by (auto simp: wfSd_def)
  then have wf: "wfT False (cx_env cx) (fType f)" by (simp add: wfField_def)
  have lb: "length (drop i b) = 3 + length bs + length rest"
    unfolding b by (simp add: appendFieldHeader_cons)
  then have il: "i + 3 \<le> length b" "i < length b" by simp_all
  have b0: "b ! i = tWT (fType f)"
    using arg_cong [OF b, of "\<lambda>x. x ! 0"] il by (simp add: appendFieldHeader_cons)
  have b1: "drop (i + 1) b = appendUint16 [] (fID f) @ bs @ rest"
    using arg_cong [OF b, of "drop 1"] by (simp add: appendFieldHeader_cons)
  have b3: "drop (i + 3) b = bs @ rest"
    using arg_cong [OF b, of "drop 3"] by (simp add: appendFieldHeader_cons add.commute)
  have id: "beUint16 (drop (i + 1) b) = Ok (fID f)" unfolding b1 by (rule be16.get_put)
  have fnd: "find (\<lambda>g. fID g = fID f) (sd_fields sd) = Some f"
  proof -
    obtain g where g: "find (\<lambda>g. fID g = fID f) (sd_fields sd) = Some g"
      using find_id_Some [OF f refl] by blast
    then have "g = f" using find_field [OF g] idx f by (auto simp: wfIdx_def distinct_map inj_on_def)
    with g show ?thesis by simp
  qed
  obtain y d' where y: "decodeFieldValue cx (decodeType cx m) f b (i + 3) c (f_d s) = DOk (length bs) y d'"
    "bsok d'" "eqv (cx_env cx) n (fType f) v y" "nonnil y"
    using decodeFieldValue_rt [OF wff r m d b3] il by blast
  have "sliceFrom b (Suc i) = Ok (drop (i + 1) b)" using il by (simp add: sliceFrom_def)
  then have "decodeField cx (decodeType cx m) sd b i s = TNext (i + 3 + length bs)
      (s\<lparr>f_cs := updField (fOffset f) y (f_cs s), f_bs := map_option (bitset_set (fID f)) (f_bs s),
        f_d := d'\<rparr>)"
    using il b0 id fnd c y(1) tWT_not_stop [OF wf] GetField_find [OF idx, of "fID f"]
    by (simp add: decodeField_def tgo_def index_def Let_def numeral_3_eq_3)
  moreover have "eventAt sd b i (i + 3 + length bs) = Seen (fID f)"
    using id fnd b0 by (simp add: eventAt_def matchField_def hdrID_def)
  ultimately show ?thesis using y by auto
qed

lemma steps_rt:
  assumes sd: "wfSd False (cx_env cx) sd" and m: "2 * n \<le> m"
  shows "\<lbrakk>set fs \<subseteq> set (sd_fields sd); distinct (map fOffset fs);
     \<forall>f\<in>set fs. sk f \<or> rt cx n (fType f) (V f) (B f);
     drop i b = concat (map (\<lambda>f. if sk f then [] else appendFieldHeader f [] @ B f) fs) @ rest;
     bsok (f_d s); \<forall>f\<in>set (sd_fields sd). \<exists>c. map_of (f_cs s) (fOffset f) = Some c\<rbrakk> \<Longrightarrow>
    \<exists>es u. steps cx (decodeType cx m) sd b i s es
        (i + length (concat (map (\<lambda>f. if sk f then [] else appendFieldHeader f [] @ B f) fs))) u \<and>
      seen es = map fID (filter (\<lambda>f. \<not> sk f) fs) \<and> skipped es = [] \<and> bsok (f_d u) \<and>
      (\<forall>f\<in>set fs. \<not> sk f \<longrightarrow> (\<exists>y. map_of (f_cs u) (fOffset f) = Some y \<and>
         eqv (cx_env cx) n (fType f) (V f) y \<and> nonnil y)) \<and>
      (\<forall>off. off \<notin> fOffset ` {f \<in> set fs. \<not> sk f} \<longrightarrow> map_of (f_cs u) off = map_of (f_cs s) off)"
proof (induction fs arbitrary: i s)
  case Nil
  then show ?case using steps.none by force
next
  case (Cons f fs)
  let ?E = "\<lambda>f. if sk f then [] else appendFieldHeader f [] @ B f"
  have off: "fOffset f \<notin> fOffset ` set fs" using Cons.prems(2) by simp
  show ?case
  proof (cases "sk f")
    case True
    then have eq: "{g \<in> set (f # fs). \<not> sk g} = {g \<in> set fs. \<not> sk g}" by auto
    show ?thesis using Cons.IH [of i s] Cons.prems True unfolding eq by simp
  next
    case False
    then have r: "rt cx n (fType f) (V f) (B f)" using Cons.prems(3) by auto
    obtain c where c: "map_of (f_cs s) (fOffset f) = Some c" using Cons.prems(1,6) by auto
    have b: "drop i b = appendFieldHeader f [] @ B f @ (concat (map ?E fs) @ rest)"
      using Cons.prems(4) False by simp
    define j where "j = i + 3 + length (B f)"
    from decodeField_rt [OF sd _ r m Cons.prems(5) b c] Cons.prems(1) obtain s' y where
      1: "decodeField cx (decodeType cx m) sd b i s = TNext j s'" "eventAt sd b i j = Seen (fID f)"
        "bsok (f_d s')" "f_cs s' = updField (fOffset f) y (f_cs s)"
        "eqv (cx_env cx) n (fType f) (V f) y" "nonnil y" by (auto simp: j_def)
    have dom: "fOffset f \<in> fst ` set (f_cs s)" using c by (force dest: map_of_SomeD)
    have bj: "drop j b = concat (map ?E fs) @ rest"
    proof -
      have "j = length (appendFieldHeader f [] @ B f) + i" by (simp add: j_def appendFieldHeader_cons)
      then have "drop j b = drop (length (appendFieldHeader f [] @ B f)) (drop i b)" by simp
      also have "\<dots> = concat (map ?E fs) @ rest"
        unfolding b append_assoc [symmetric] append_eq_conv_conj by simp
      finally show ?thesis .
    qed
    have "\<forall>g\<in>set (sd_fields sd). \<exists>c. map_of (f_cs s') (fOffset g) = Some c"
      using Cons.prems(6) by (simp add: 1(4) map_of_updField [OF dom])
    with Cons.IH [OF _ _ _ bj 1(3)] Cons.prems obtain es u where
      2: "steps cx (decodeType cx m) sd b j s' es (j + length (concat (map ?E fs))) u"
        "seen es = map fID (filter (\<lambda>f. \<not> sk f) fs)" "skipped es = []" "bsok (f_d u)"
        "\<forall>f\<in>set fs. \<not> sk f \<longrightarrow> (\<exists>y. map_of (f_cs u) (fOffset f) = Some y \<and>
           eqv (cx_env cx) n (fType f) (V f) y \<and> nonnil y)"
        "\<forall>off. off \<notin> fOffset ` {f \<in> set fs. \<not> sk f} \<longrightarrow> map_of (f_cs u) off = map_of (f_cs s') off"
      by auto
    have "map_of (f_cs u) (fOffset f) = map_of (f_cs s') (fOffset f)" using 2(6) off by blast
    then have "map_of (f_cs u) (fOffset f) = Some y" by (simp add: 1(4) map_of_updField [OF dom])
    moreover have "i + length (concat (map ?E (f # fs))) = j + length (concat (map ?E fs))"
      using False by (simp add: j_def appendFieldHeader_cons)
    moreover have "map_of (f_cs u) off = map_of (f_cs s) off"
      if "off \<notin> fOffset ` {g \<in> set (f # fs). \<not> sk g}" for off
    proof -
      have "off \<noteq> fOffset f" "off \<notin> fOffset ` {g \<in> set fs. \<not> sk g}" using that False by auto
      with 2(6) show ?thesis by (simp add: 1(4) map_of_updField [OF dom])
    qed
    moreover have "steps cx (decodeType cx m) sd b i s (Seen (fID f) # es) (j + length (concat (map ?E fs))) u"
      using steps.field [OF 1(1) 2(1)] 1(2) by simp
    ultimately show ?thesis using 1(5,6) 2(2-5) False
      by (intro exI [of _ "Seen (fID f) # es"] exI [of _ u]) (auto simp: add.assoc)
  qed
qed

subsection \<open>Structs\<close>

lemma bsok_enter: "bsok d \<Longrightarrow> bsok (f_d (enterStruct sd cs d))"
  by (auto simp: enterStruct_def Let_def bsok_def split: list.splits)

lemma bsok_leave: "bsok (f_d u) \<Longrightarrow> pred_option bitset_ok (f_bs u) \<Longrightarrow> bsok (leaveStruct u)"
  by (auto simp: leaveStruct_def Let_def bsok_def split: option.splits)

lemma skipped_optional:
  assumes "wfField bv env f" "field_skipped f p = Ok True"
  shows "fSpec f = Optional" "fCanSkipEncodeIfNil f \<or> fCanSkipIfDefault f"
  using assms by (auto simp: wfField_def field_skipped_def split: if_splits)

lemma tType_Equal_eqv:
  "eqvSimple a b \<Longrightarrow> tType_Equal t d (Some a) = tType_Equal t d (Some b)"
  by (auto simp: eqvSimple_def tType_Equal_def ld_eq_def ldBool_def content_def
      split: gval.splits option.splits)

lemma field_skipped_eqv:
  assumes f: "wfField False env f" and e: "eqv env n (fType f) v y" and nn: "nonnil y"
    and s: "field_skipped f (Some v) = Ok False"
  shows "field_skipped f (Some y) = Ok False"
proof -
  let ?t = "fType f"
  obtain k where n: "n = Suc k" using e by (cases n) auto
  have "(fCanSkipEncodeIfNil f \<longrightarrow> (\<exists>z. ldIsNil (Some y) = Ok z)) \<and>
      (fCanSkipIfDefault f \<longrightarrow> tType_Equal ?t (fDefault f) (Some v) = tType_Equal ?t (fDefault f) (Some y))"
    using e unfolding n
  proof (cases rule: eqv_cases)
    case (simple a b)
    have "fCanSkipIfDefault f \<Longrightarrow> \<not> tIsPointer ?t" using f by (simp add: wfField_def)
    moreover have "\<exists>z. ldIsNil (Some y) = Ok z" if "fCanSkipEncodeIfNil f"
      using s simple that
      by (cases "tIsPointer ?t"; cases a; cases b)
         (auto simp: field_skipped_def wrapElem_def eqvSimple_def)
    ultimately show ?thesis using simple tType_Equal_eqv by (auto simp: wrapElem_def)
  next
    case (list et p q)
    then show ?thesis by (auto simp: wrapElem_def tType_Equal_def)
  next
    case (map kt vt p q)
    then show ?thesis by (auto simp: wrapElem_def tType_Equal_def)
  next
    case (struct sd cs cs')
    have "tIsPointer ?t" using f struct(1) by (cases ?t) (auto simp: wfField_def simpleTypes_def)
    with struct show ?thesis by (auto simp: wrapElem_def tType_Equal_def)
  qed
  with s nn show ?thesis
    by (auto simp: field_skipped_def nonnil_def split: if_splits)
qed

end
