(* ===== verification/RoundTripStruct.thy ===== *)
theory RoundTripStruct
  imports RoundTrip
begin

text \<open>
  The round trip, concluded: structs, and the induction on the depth of the value. A struct
  takes two levels of the decoder's depth limit, \<^verbatim>\<open>decodeType\<close> and \<^verbatim>\<open>Decode\<close>.
\<close>

subsection \<open>Structs\<close>

text \<open>The encoding of a struct, field by field.\<close>

lemma specStruct_fields:
  assumes "specStruct sv sd cs = Some bs"
  shows "bs = concat (map (\<lambda>f. the (specField sv cs f)) (sd_fields sd)) @ specUnknown sd cs @ [tSTOP]"
    and "f \<in> set (sd_fields sd) \<Longrightarrow> specField sv cs f \<noteq> None"
proof -
  from assms obtain bss where bss: "those (map (specField sv cs) (sd_fields sd)) = Some bss"
    "bs = concat bss @ specUnknown sd cs @ [tSTOP]" by (auto simp: specStruct_def)
  have n: "length bss = length (sd_fields sd)" "\<forall>j<length (sd_fields sd). specField sv cs (sd_fields sd ! j) = Some (bss ! j)"
    using those_Some_nth [OF bss(1)] by blast+
  then have "bss = map (\<lambda>f. the (specField sv cs f)) (sd_fields sd)" by (intro nth_equalityI) auto
  with bss(2) show "bs = concat (map (\<lambda>f. the (specField sv cs f)) (sd_fields sd)) @ specUnknown sd cs @ [tSTOP]"
    by simp
  show "specField sv cs f \<noteq> None" if "f \<in> set (sd_fields sd)"
    using n(2) that by (auto simp: in_set_conv_nth)
qed

definition skips :: "(nat \<times> gval) list \<Rightarrow> tField \<Rightarrow> bool" where
  "skips cs f \<longleftrightarrow> field_skipped f (map_of cs (fOffset f)) = Ok True"

text \<open>After the fields: nothing missing, nothing unknown.\<close>

lemma finish_rt:
  assumes sd: "wfSd bv env sd" and d: "bsok d"
    and r: "steps cx dt sd b 0 (enterStruct sd cs0 d) es i u" and k: "skipped es = []" "bsok (f_d u)"
    and sn: "\<And>f. f \<in> set (sd_fields sd) \<Longrightarrow> fSpec f = Required \<Longrightarrow> fID f \<in> set (seen es)"
  shows "finishStruct cx sd b j u = DOk j (VStruct (f_cs u)) (leaveStruct u) \<and> bsok (leaveStruct u)"
proof -
  have idx: "wfIdx sd" using sd by (simp add: wfSd_def)
  have "\<forall>r\<in>set (requiredFieldIDs sd). r \<in> set (seen es)"
    using required_field [of sd] sd sn by (auto simp: wfSd_def)
  then have "find (\<lambda>r. r \<notin> set (seen es)) (requiredFieldIDs sd) = None" by (auto simp: find_None_iff)
  with run_required [OF sd d r] have req: "checkRequired sd (f_bs u) (requiredFieldIDs sd) = Ok None"
    by simp
  note eff = steps_effect [OF r idx]
  have "f_ufs u = None \<or> (\<exists>p. f_ufs u = Some (uf_Reset p))"
    using enterStruct_ufs [of sd cs0 d] eff k(1) by auto
  then have "finishStruct cx sd b j u = DOk j (VStruct (f_cs u)) (leaveStruct u)"
    using req by (auto simp: finishStruct_def dgo_def uf_Size_def uf_Reset_def)
  moreover have "pred_option bitset_ok (f_bs u)"
    using enterStruct_bs [OF d, of sd cs0] eff
    by (auto simp: bs.inv_fold_set bs.inv_fold_unset)
  ultimately show ?thesis using bsok_leave [OF k(2)] by simp
qed

lemma Decode_rt:
  assumes sd: "wfSd False (cx_env cx) sd" and c: "confFields (conf True (cx_env cx) n) sd cs"
    and rt: "rtFields (rtOK (cx_env cx) n) sd cs" and fr: "fresh sd cs0"
    and bs: "specStruct (specV (cx_env cx) n) sd cs = Some bs" and m: "2 * n \<le> m" and d: "bsok d"
    and IH: "\<And>t v. wfT False (cx_env cx) t \<Longrightarrow> conf True (cx_env cx) n t v \<Longrightarrow> rtOK (cx_env cx) n t v \<Longrightarrow>
      \<exists>bs. rt cx n t v bs"
  shows "\<exists>cs' d'. Decode cx (Suc m) sd (bs @ rest) (VStruct cs0) d = DOk (length bs) (VStruct cs') d' \<and>
    bsok d' \<and> eqvFields (eqv (cx_env cx) n) sd cs cs'"
proof -
  let ?env = "cx_env cx" and ?fs = "sd_fields sd"
  define V :: "tField \<Rightarrow> gval" where "V = (\<lambda>f. the (map_of cs (fOffset f)))"
  have wff: "wfField False ?env f" if "f \<in> set ?fs" for f using sd that by (simp add: wfSd_def)
  have V: "map_of cs (fOffset f) = Some (V f)"
    "skips cs f \<or> field_skipped f (Some (V f)) = Ok False \<and> (\<exists>B. rt cx n (fType f) (V f) B)"
    if f: "f \<in> set ?fs" for f
  proof -
    from c f obtain v where v: "map_of cs (fOffset f) = Some v"
      "(fCanSkipEncodeIfNil f \<and> v = VPtr None) \<or> conf True ?env n (fType f) v"
      by (auto simp: confFields_def split: option.splits dest!: bspec)
    then show V: "map_of cs (fOffset f) = Some (V f)" by (simp add: V_def)
    have "wfT False ?env (fType f)" using wff [OF f] by (simp add: wfField_def)
    moreover have "skips cs f \<or> rtOK ?env n (fType f) v"
      using rt f v(1) by (auto simp: rtFields_def skips_def split: option.splits dest!: bspec)
    moreover obtain s where "field_skipped f (Some v) = Ok s" "\<not> s \<longrightarrow> conf True ?env n (fType f) v"
      using field_skipped_Ok [OF wff [OF f] v(2)] by blast
    ultimately show "skips cs f \<or> field_skipped f (Some (V f)) = Ok False \<and> (\<exists>B. rt cx n (fType f) (V f) B)"
      using IH [of "fType f" v] v(1) V by (cases s) (auto simp: skips_def)
  qed
  then obtain B where B: "\<And>f. f \<in> set ?fs \<Longrightarrow> skips cs f \<or> rt cx n (fType f) (V f) (B f)" by metis
  let ?E = "\<lambda>f. if skips cs f then [] else appendFieldHeader f [] @ B f"
  have "the (specField (specV ?env n) cs f) = ?E f" if f: "f \<in> set ?fs" for f
    using V [OF f] B [OF f] by (auto simp: specField_eq skips_def rt_def)
  then have "map (\<lambda>f. the (specField (specV ?env n) cs f)) ?fs = map ?E ?fs"
    by (intro map_cong refl)
  moreover have "specUnknown sd cs = []" using rt by (simp add: rtFields_def)
  ultimately have b: "bs = concat (map ?E ?fs) @ [tSTOP]" using specStruct_fields(1) [OF bs] by (simp only: append_Nil)
  have f0: "f_cs (enterStruct sd cs0 d) = cs0" by (simp add: enterStruct_def Let_def split: prod.splits)
  have dist: "distinct (map fOffset ?fs)" using sd by (simp add: wfSd_def)
  have cell: "\<forall>f\<in>set ?fs. \<exists>c. map_of (f_cs (enterStruct sd cs0 d)) (fOffset f) = Some c"
    using fr by (auto simp: f0 fresh_def split: option.splits dest!: bspec)
  have b0: "drop 0 (bs @ rest) = concat (map ?E ?fs) @ (tSTOP # rest)" using b by simp
  have B': "\<forall>f\<in>set ?fs. skips cs f \<or> rt cx n (fType f) (V f) (B f)" using B by blast
  from steps_rt [OF sd m order_refl dist B' b0 bsok_enter [OF d] cell]
  obtain es u where u: "steps cx (decodeType cx m) sd (bs @ rest) 0 (enterStruct sd cs0 d) es
        (0 + length (concat (map ?E ?fs))) u"
      "seen es = map fID (filter (\<lambda>f. \<not> skips cs f) ?fs)" "skipped es = []" "bsok (f_d u)"
      "\<forall>f\<in>set ?fs. \<not> skips cs f \<longrightarrow> (\<exists>y. map_of (f_cs u) (fOffset f) = Some y \<and>
         eqv ?env n (fType f) (V f) y \<and> nonnil y)"
      "\<forall>off. off \<notin> fOffset ` {f \<in> set ?fs. \<not> skips cs f} \<longrightarrow>
         map_of (f_cs u) off = map_of (f_cs (enterStruct sd cs0 d)) off"
    by (elim exE conjE) (rule that)
  have stop: "decodeField cx (decodeType cx m) sd (bs @ rest) (0 + length (concat (map ?E ?fs))) u =
      TStop (length bs)"
    by (simp add: decodeField_def tgo_def index_def b nth_append)
  have req: "fID f \<in> set (seen es)" if "f \<in> set ?fs" "fSpec f = Required" for f
    using skipped_optional(1) [OF wff [OF that(1)]] that by (auto simp: u(2) skips_def)
  have fin: "finishStruct cx sd (bs @ rest) (length bs) u = DOk (length bs) (VStruct (f_cs u)) (leaveStruct u)"
    "bsok (leaveStruct u)"
    using finish_rt [OF sd d u(1,3,4) req] by blast+
  have "decodeFields cx (decodeType cx m) sd (bs @ rest) 0 (enterStruct sd cs0 d) = FDone (length bs) u"
    by (rule run_decodeFields [OF u(1) stop])
  then have dec: "Decode cx (Suc m) sd (bs @ rest) (VStruct cs0) d = DOk (length bs) (VStruct (f_cs u)) (leaveStruct u)"
    using fin(1) by (simp add: decodeStruct_def)
  have "eqvFields (eqv ?env n) sd cs (f_cs u)"
    unfolding eqvFields_def
  proof (intro conjI ballI)
    fix f assume f: "f \<in> set ?fs"
    show "case (map_of cs (fOffset f), map_of (f_cs u) (fOffset f)) of
        (Some a, Some b) \<Rightarrow> eqvField (eqv ?env n) f a b | _ \<Rightarrow> False"
    proof (cases "skips cs f")
      case True
      have "fOffset f \<notin> fOffset ` {f \<in> set ?fs. \<not> skips cs f}"
        using dist f True by (auto simp: distinct_map inj_on_def)
      then have "map_of (f_cs u) (fOffset f) = map_of cs0 (fOffset f)" using u(6) by (simp add: f0)
      moreover have "fCanSkipEncodeIfNil f \<or> fCanSkipIfDefault f"
        using skipped_optional(2) [OF wff [OF f]] True by (simp add: skips_def)
      then obtain w where "map_of cs0 (fOffset f) = Some w" "field_skipped f (Some w) = Ok True"
        using fr f by (auto simp: fresh_def split: option.splits dest!: bspec)
      ultimately show ?thesis using V(1) [OF f] True by (simp add: eqvField_def skips_def)
    next
      case False
      with u(5) f obtain y where y: "map_of (f_cs u) (fOffset f) = Some y"
        "eqv ?env n (fType f) (V f) y" "nonnil y" by blast
      have s: "field_skipped f (Some (V f)) = Ok False" using V(2) [OF f] False by blast
      from field_skipped_eqv [OF wff [OF f] y(2,3) s] s y V(1) [OF f] show ?thesis
        by (simp add: eqvField_def)
    qed
  next
    have "specUnknown sd (f_cs u) = specUnknown sd cs0"
    proof (cases "hasUnknownFields sd")
      case True
      then have "unknownFieldsOffset sd \<notin> fOffset ` {f \<in> set ?fs. \<not> skips cs f}"
        using sd by (auto simp: wfSd_def)
      then show ?thesis using u(6) by (simp add: specUnknown_def f0)
    qed (simp add: specUnknown_def)
    then show "specUnknown sd cs = specUnknown sd (f_cs u)"
      using fr rt by (simp add: fresh_def rtFields_def)
  qed
  with dec fin(2) show ?thesis by blast
qed

subsection \<open>The induction\<close>

lemma keysSame_simple:
  assumes "keyOK kt" "\<And>k. k \<in> ks \<Longrightarrow> conf True env n kt k"
  shows "keysSame env n kt ks"
proof (cases "tIsPointer kt")
  case False
  have "wrapElem kt k' = k" if k: "k \<in> ks" "eqv env n kt k (wrapElem kt k')" for k k'
  proof -
    have s: "simpleTypes (tT kt)" "tTag kt \<noteq> T_binary" using assms(1) False by (auto simp: keyOK_def)
    obtain n' where n: "n = Suc n'" using k(2) by (cases n) auto
    have "eqvSimple k k'" using k(2) eqv_simple [OF s(1), of env n' k k'] False by (simp add: n wrapElem_def)
    moreover have "confSimple True kt k" using assms(2) [OF k(1)] False s(1) conf_simple_np by blast
    ultimately show ?thesis
      using s False by (auto simp: eqvSimple_def confSimple_def wrapElem_def split: gval.splits if_splits)
  qed
  then show ?thesis by (simp add: keysSame_def)
qed (simp add: keysSame_def)

lemma rt_intro:
  assumes "specV (cx_env cx) (Suc n) t v = Some bs" "minWireSize (tWT t) \<le> length bs"
    and "\<And>m rest c d. 2 * n \<le> m \<Longrightarrow> bsok d \<Longrightarrow> cellFor cx t c \<Longrightarrow>
      \<exists>c' d'. decodeType cx (Suc (Suc m)) t (bs @ rest) c d = DOk (length bs) c' d' \<and> bsok d' \<and>
        eqv (cx_env cx) (Suc n) t v (wrapElem t c') \<and> nonnil (wrapElem t c')"
  shows "rt cx (Suc n) t v bs"
proof -
  have "\<exists>c' d'. decodeType cx m t (bs @ rest) c d = DOk (length bs) c' d' \<and> bsok d' \<and>
        eqv (cx_env cx) (Suc n) t v (wrapElem t c') \<and> nonnil (wrapElem t c')"
    if m: "2 * Suc n \<le> m" "bsok d" "cellFor cx t c" for m rest c d
  proof -
    from m(1) obtain m' where "m = Suc (Suc m')" "2 * n \<le> m'" by (cases m; cases "m - 1") auto
    with assms(3) m show ?thesis by blast
  qed
  with assms(1,2) show ?thesis unfolding rt_def by blast
qed

lemma rt_all:
  assumes cx: "freshCtx cx"
  shows "wfT False (cx_env cx) t \<Longrightarrow> conf True (cx_env cx) n t v \<Longrightarrow> rtOK (cx_env cx) n t v \<Longrightarrow>
    \<exists>bs. rt cx n t v bs"
proof (induction n arbitrary: t v)
  case (Suc n)
  let ?env = "cx_env cx"
  note wf = Suc.prems(1)
  have env: "wfEnv False ?env" using cx by (simp add: freshCtx_def)
  have fx: "tFixedSize t = typeToSize (tT t)" by (rule wfT_fixed_sel [OF wf])
  from Suc.prems(2,1) show ?case
  proof (cases rule: conf_cases)
    case nilStruct
    with Suc.prems(3) show ?thesis using rtOK_nil by blast
  next
    case (simple w)
    then have v: "v = wrapElem t w" by (simp add: wrapElem_def)
    from appendSimple_spec [OF simple(3,1)] obtain bs where "specSimple t w = Some bs" by blast
    with simple_rt [OF wf simple(1,3)] Suc.prems(3) rtOK_simple [OF simple(1)] v show ?thesis by blast
  next
    case (list et q)
    have v: "v = wrapElem t (VSlice q)" using list by (simp add: wrapElem_def)
    from wfT_list [OF wf list(1)] list(2) have et: "wfT False ?env et" by auto
    have r: "length (elems q) < 2 ^ 31" "\<forall>x\<in>set (elems q). rtOK ?env n et x"
      using Suc.prems(3) rtOK_list [OF list(1,2)] v by auto
    have "\<forall>x\<in>set (elems q). \<exists>bs. rt cx n et x bs"
      using Suc.IH [OF et] list(5) r(2) by (cases q) auto
    then obtain B where B: "\<forall>x\<in>set (elems q). rt cx n et x (B x)" by metis
    let ?bs = "tWT et # wire32 (length (elems q)) @ concat (List.map B (elems q))"
    have "specV ?env (Suc n) t v = Some ?bs"
      using spec_list [OF list(1,2,4), of q ?env n B] B list(3)
      by (auto simp: rt_def elems_def Let_def simp del: specV.simps)
    moreover have "minWireSize (tWT t) \<le> length ?bs"
      using list(1) by (auto simp: wfT_WT_sel [OF wf] minWireSize_def)
    moreover have "\<exists>c' d'. decodeType cx (Suc (Suc m)) t (?bs @ rest) c d = DOk (length ?bs) c' d' \<and> bsok d' \<and>
        eqv ?env (Suc n) t v (wrapElem t c') \<and> nonnil (wrapElem t c')"
      if m: "2 * n \<le> m" "bsok d" for m rest c d
    proof -
      from m(1) have "2 * n \<le> Suc m" by simp
      from decodeList_rt [OF et list(2) this B r(1) m(2), of rest c] obtain cs d' where
        l: "decodeList cx (decodeType cx (Suc m)) t (?bs @ rest) c d = DOk (length ?bs) (VSlice (Some cs)) d'"
        "list_all2 (eqv ?env n et) (elems q) cs" "bsok d'" by blast
      have "decodeType cx (Suc (Suc m)) t (?bs @ rest) c d = decodeList cx (decodeType cx (Suc m)) t (?bs @ rest) c d"
        unfolding decodeType.simps(2) [of cx "Suc m"] decodeTypeBody_def
        using list(1) by (auto simp: fx typeToSize_def)
      then show ?thesis
        using l eqv_list [OF list(1,2), of ?env n q "Some cs"] list(4)
        by (intro exI [of _ "VSlice (Some cs)"] exI [of _ d'])
           (simp add: v nonnil_def wrapElem_def del: decodeType.simps)
    qed
    ultimately show ?thesis using rt_intro by blast
  next
    case (map kt vt q)
    have v: "v = wrapElem t (VMap q)" using map by (simp add: wrapElem_def)
    from wfT_map [OF wf map(1)] map(2,3) have kv: "wfT False ?env kt" "wfT False ?env vt" "keyOK kt" by auto
    have r: "length (entries q) < 2 ^ 31" "\<forall>x\<in>set (entries q). rtOK ?env n kt (fst x) \<and> rtOK ?env n vt (snd x)"
      "sorted_wrt (\<lambda>x y. \<not> goKeyEq kt (fst x) (fst y)) (entries q)"
      using Suc.prems(3) rtOK_map [OF map(1-3)] v by auto
    have cf: "conf True ?env n kt (fst x) \<and> conf True ?env n vt (snd x)" if "x \<in> set (entries q)" for x
      using map(6) that by (cases q) auto
    have "\<forall>x\<in>set (entries q). (\<exists>bs. rt cx n kt (fst x) bs) \<and> (\<exists>bs. rt cx n vt (snd x) bs)"
      using Suc.IH [OF kv(1)] Suc.IH [OF kv(2)] cf r(2) by blast
    then obtain Bk Bv where B: "\<forall>x\<in>set (entries q). rt cx n kt (fst x) (Bk x) \<and> rt cx n vt (snd x) (Bv x)"
      by metis
    have ks: "keysSame ?env n kt (fst ` set (entries q))"
      using cf by (intro keysSame_simple [OF kv(3)]) auto
    let ?bs = "tWT kt # tWT vt # wire32 (length (entries q)) @ concat (List.map (\<lambda>x. Bk x @ Bv x) (entries q))"
    have "specV ?env (Suc n) t v = Some ?bs"
      using spec_map [OF map(1-3,5), of q ?env n "\<lambda>x. Bk x @ Bv x"] B map(4)
      by (auto simp: rt_def entries_def Let_def specPair_def simp del: specV.simps)
    moreover have "minWireSize (tWT t) \<le> length ?bs"
      using map(1) by (simp add: wfT_WT_sel [OF wf] minWireSize_def)
    moreover have "\<exists>c' d'. decodeType cx (Suc (Suc m)) t (?bs @ rest) c d = DOk (length ?bs) c' d' \<and> bsok d' \<and>
        eqv ?env (Suc n) t v (wrapElem t c') \<and> nonnil (wrapElem t c')"
      if m: "2 * n \<le> m" "bsok d" for m rest c d
    proof -
      from m(1) have "2 * n \<le> Suc m" by simp
      from decodeMap_rt [OF kv(1,2) map(2,3) this B r(1) m(2) ks r(3), of rest c] obtain new d' where
        l: "decodeMap cx (decodeType cx (Suc m)) t (?bs @ rest) c d =
            DOk (length ?bs) (VMap (Some (length new, new))) d'"
        "list_all2 (pairEqv ?env n kt vt) (entries q) new" "bsok d'" by blast
      have "decodeType cx (Suc (Suc m)) t (?bs @ rest) c d = decodeMap cx (decodeType cx (Suc m)) t (?bs @ rest) c d"
        unfolding decodeType.simps(2) [of cx "Suc m"] decodeTypeBody_def
        using map(1) by (simp add: fx typeToSize_def)
      then show ?thesis
        using l eqv_map [OF map(1-3), of ?env n q "Some (length new, new)"] map(5)
        by (intro exI [of _ "VMap (Some (length new, new))"] exI [of _ d'])
           (simp add: v nonnil_def wrapElem_def pairEqv_def [abs_def] del: decodeType.simps)
    qed
    ultimately show ?thesis using rt_intro by blast
  next
    case (struct sd cs)
    have v: "v = wrapElem t (VStruct cs)" using struct by (simp add: wrapElem_def)
    have sd: "wfSd False ?env sd" by (rule wfEnv_sd [OF env struct(2)])
    have ptr: "tIsPointer t" using wf struct(1) by (cases t) (auto simp: simpleTypes_def)
    have rf: "rtFields (rtOK ?env n) sd cs"
      using Suc.prems(3) rtOK_struct [OF struct(1,2)] v by simp
    from enc_fields [OF sd struct(4)] enc_all [OF env] obtain bs where
      bs: "specStruct (specV ?env n) sd cs = Some bs" by blast
    have "specV ?env (Suc n) t v = Some bs"
      using spec_struct [OF struct(1,2), of n cs] bs by (simp add: struct(3) del: specV.simps)
    moreover have "minWireSize (tWT t) \<le> length bs"
      using specStruct_fields(1) [OF bs] struct(1)
      by (cases bs) (simp_all add: wfT_WT_sel [OF wf] minWireSize_def)
    moreover have "\<exists>c' d'. decodeType cx (Suc (Suc m)) t (bs @ rest) c d = DOk (length bs) c' d' \<and> bsok d' \<and>
        eqv ?env (Suc n) t v (wrapElem t c') \<and> nonnil (wrapElem t c')"
      if m: "2 * n \<le> m" "bsok d" "cellFor cx t c" for m rest c d
    proof -
      obtain i where i: "?env i = Some sd" using Sd_env [OF struct(2)] by blast
      then obtain cs0 where cs0: "initial sd = VStruct cs0" "fresh sd cs0"
        using cx by (auto simp: freshCtx_def)
      have c: "c = sd_zero sd" using m(3) struct(1,2) by (simp add: cellFor_def)
      from Decode_rt [OF sd struct(4) rf cs0(2) bs m(1,2) Suc.IH, of rest] obtain cs' d' where
        l: "Decode cx (Suc m) sd (bs @ rest) (VStruct cs0) d = DOk (length bs) (VStruct cs') d'"
        "bsok d'" "eqvFields (eqv ?env n) sd cs cs'" by blast
      have "decodeType cx (Suc (Suc m)) t (bs @ rest) c d = Decode cx (Suc m) sd (bs @ rest) (VStruct cs0) d"
        unfolding decodeType.simps(2) [of cx "Suc m"] decodeTypeBody_def
        using struct(1,2) cs0(1)
        by (cases "hasInitFunc sd") (simp_all add: fx typeToSize_def dgo_def c initial_def del: Decode.simps)
      then show ?thesis
        using l eqv_struct [OF struct(1,2), of n cs cs'] ptr
        by (intro exI [of _ "VStruct cs'"] exI [of _ d'])
           (simp add: v nonnil_def wrapElem_def del: decodeType.simps Decode.simps)
    qed
    ultimately show ?thesis using rt_intro by blast
  qed
qed simp

end
