(* ===== verification/FrugalDecode.thy ===== *)
theory FrugalDecode
  imports Frugal Decoder
begin

text \<open>
  The entry points of the decoder: \<^verbatim>\<open>Decode\<close> of \<^verbatim>\<open>internal/reflect/reflect.go\<close> and
  \<^verbatim>\<open>DecodeObject\<close> of \<^verbatim>\<open>frugal.go\<close>.
\<close>

datatype dferr =
    ErrNotPointer | ErrNilPointer | ErrNotPtrToStruct
  | ErrDesc ferr \<comment> \<open>of \<^verbatim>\<open>getOrcreateStructDesc\<close>\<close>
  | ErrDecode derr

text \<open>
  The pools between the calls: \<^verbatim>\<open>decoderPool\<close> with the spans of the decoders that are free,
  and the three the decoders share.
\<close>

record pools =
  p_decoders :: "span list"
  p_bitsets :: "bitset list"
  p_ufs :: "unknownFields list"
  p_tmp :: "tType \<Rightarrow> (gval \<times> gval) list"

definition getDecoder :: "dctx \<Rightarrow> pools \<Rightarrow> dstate \<times> span list" where
  "getDecoder cx p =
     (let (s, ss) = (case p_decoders p of [] \<Rightarrow> (span_init (cx_mg cx), []) | s # ss \<Rightarrow> (s, ss))
      in (\<lparr>d_s = s, d_bitsets = p_bitsets p, d_ufs = p_ufs p, d_tmp = p_tmp p\<rparr>, ss))"

definition putDecoder :: "span list \<Rightarrow> dstate \<Rightarrow> pools" where
  "putDecoder ss d =
     \<lparr>p_decoders = d_s d # ss, p_bitsets = d_bitsets d, p_ufs = d_ufs d, p_tmp = d_tmp d\<rparr>"

text \<open>The count, the error, what the argument points to afterwards, and the pools.\<close>

datatype dobj = DObj nat "dferr option" iface pools | DObjPanic panic

definition reflect_Decode :: "dctx \<Rightarrow> bytes \<Rightarrow> iface \<Rightarrow> pools \<Rightarrow> dobj" where
  "reflect_Decode cx b v p =
     (case v of
        IfNil \<Rightarrow> DObj 0 (Some ErrNotPointer) v p
      | Iface rt c \<Rightarrow>
          if rt_Kind rt \<noteq> K_Ptr then DObj 0 (Some ErrNotPointer) v p
          else
            (case ldPtr (Some c) of
               Panic q \<Rightarrow> DObjPanic q
             | Ok None \<Rightarrow> DObj 0 (Some ErrNilPointer) v p
             | Ok (Some w) \<Rightarrow>
                 (case rt_Elem rt of
                    Panic q \<Rightarrow> DObjPanic q
                  | Ok e \<Rightarrow>
                      if rt_Kind e \<noteq> K_Struct then DObj 0 (Some ErrNotPtrToStruct) v p
                      else
                        (case createStructDesc (cx_env cx) rt of
                           Inl x \<Rightarrow> DObj 0 (Some (ErrDesc x)) v p
                         | Inr sd \<Rightarrow>
                             (case getDecoder cx p of
                                (d, ss) \<Rightarrow>
                                  (case Decode cx maxDepthLimit sd b w d of
                                     DPanic q \<Rightarrow> DObjPanic q
                                   | DErr n x w d \<Rightarrow>
                                       DObj n (Some (ErrDecode x)) (Iface rt (VPtr (Some w))) (putDecoder ss d)
                                   | DOk n w d \<Rightarrow>
                                       DObj n None (Iface rt (VPtr (Some w))) (putDecoder ss d)))))))"

definition DecodeObject :: "dctx \<Rightarrow> bytes \<Rightarrow> iface \<Rightarrow> pools \<Rightarrow> dobj" where
  "DecodeObject cx buf val p = reflect_Decode cx buf val p"

end
