(* ===== verification/DecodeProps.thy ===== *)
theory DecodeProps
  imports FieldLoop FrugalDecode Example
begin

text \<open>
  The properties of the decoder at its entry point, and what its parts promise: safety on any
  input, required fields, unknown fields, the depth limit, the errors of the length checks.
\<close>

subsection \<open>Safety\<close>

text \<open>
  A value of an interface has the shape of its type: a pointer type is \<open>RPtr\<close>, and what points
  to a struct with a descriptor conforms to it.
\<close>

definition objOk :: "env \<Rightarrow> iface \<Rightarrow> bool" where
  "objOk env v \<longleftrightarrow>
     (case v of IfNil \<Rightarrow> True
      | Iface rt c \<Rightarrow> rt_Kind rt = K_Ptr \<longrightarrow>
          (\<exists>e q. rt = RPtr e \<and> c = VPtr q \<and>
             (\<forall>w sd. q = Some w \<longrightarrow> createStructDesc env rt = Inr sd \<longrightarrow>
                (\<exists>cs. w = VStruct cs \<and> okFs env sd cs))))"

definition pools_ok :: "bool \<Rightarrow> dctx \<Rightarrow> pools \<Rightarrow> bool" where
  "pools_ok bv cx p \<longleftrightarrow> dok bv cx (fst (getDecoder cx p))"

lemma pools_ok_put: "pools_ok bv cx (putDecoder ss d) = dok bv cx d"
  by (simp add: pools_ok_def putDecoder_def getDecoder_def dok_def)

lemma createStructDesc_env:
  "createStructDesc env rt = Inr sd \<Longrightarrow> \<exists>i. env i = Some sd"
  by (auto simp: createStructDesc_def find_desc_def split: if_splits go.splits option.splits)

lemma Decode_entry:
  assumes cx: "ctx_ok bv cx" and p: "pools_ok bv cx p" and e: "rt_Kind e = K_Struct"
    and sd: "createStructDesc (cx_env cx) (RPtr e) = Inr sd" and cs: "okFs (cx_env cx) sd cs"
  shows "case DecodeObject cx b (Iface (RPtr e) (VPtr (Some (VStruct cs)))) p of
     DObj n x v' p' \<Rightarrow> n \<le> length b \<and> pools_ok bv cx p' \<and>
       (\<exists>cs'. v' = Iface (RPtr e) (VPtr (Some (VStruct cs'))) \<and> okFs (cx_env cx) sd cs')
   | DObjPanic q \<Rightarrow> q = IndexOutOfRange"
proof -
  obtain d ss where d: "getDecoder cx p = (d, ss)" by (cases "getDecoder cx p") auto
  then have dok: "dok bv cx d" using p by (simp add: pools_ok_def)
  have "wfSd bv (cx_env cx) sd"
    using createStructDesc_env [OF sd] ctx_env [OF cx] by (auto simp: wfEnv_def)
  with decode_ok [OF cx, of maxDepthLimit] cs dok
  have r: "sres_ok bv cx sd (length b) (Decode cx maxDepthLimit sd b (VStruct cs) d)"
    by (auto simp: sfun_ok_def)
  show ?thesis
    using r by (cases "Decode cx maxDepthLimit sd b (VStruct cs) d")
      (auto simp: DecodeObject_def reflect_Decode_def e sd d sres_ok_def pools_ok_put)
qed

text \<open>
  C3. The decoder is safe on any input. Whatever the bytes, \<^verbatim>\<open>DecodeObject\<close> never reads or
  writes a cell as another type than it has, never follows a nil pointer, divides by zero or
  calls a bug check: it returns, with at most the input consumed, and what the argument points
  to conforms to its type, on an error too, and so do the pooled cells other calls will get;
  or it panics with the bounds check of a slice of the input.
\<close>

theorem DecodeObject_safe:
  assumes "ctx_ok bv cx" "pools_ok bv cx p" "objOk (cx_env cx) v"
  shows "case DecodeObject cx b v p of
     DObj n e v' p' \<Rightarrow> n \<le> length b \<and> objOk (cx_env cx) v' \<and> pools_ok bv cx p'
   | DObjPanic q \<Rightarrow> q = IndexOutOfRange"
proof (cases v)
  case IfNil
  then show ?thesis using assms by (simp add: DecodeObject_def reflect_Decode_def)
next
  case (Iface rt c)
  show ?thesis
  proof (cases "\<exists>e w sd. rt = RPtr e \<and> c = VPtr (Some w) \<and> rt_Kind e = K_Struct \<and>
      createStructDesc (cx_env cx) rt = Inr sd")
    case True
    then obtain e w sd where *: "rt = RPtr e" "c = VPtr (Some w)" "rt_Kind e = K_Struct"
      "createStructDesc (cx_env cx) (RPtr e) = Inr sd" by blast
    with assms(3) Iface obtain cs where "w = VStruct cs" "okFs (cx_env cx) sd cs"
      by (auto simp: objOk_def)
    with Decode_entry [OF assms(1,2) *(3,4), of cs b] Iface * show ?thesis
      by (auto simp: objOk_def split: dobj.splits)
  next
    case False
    with assms Iface show ?thesis
      by (auto simp: objOk_def DecodeObject_def reflect_Decode_def split: option.splits sum.splits)
  qed
qed

text \<open>An environment for the example: a \<^verbatim>\<open>Skip\<close> for scalars, addresses, and uncleared memory.\<close>

definition ex_skip :: "bytes \<Rightarrow> ttype \<Rightarrow> derr + nat" where
  "ex_skip b tp = (if typeToSize tp > 0 \<and> typeToSize tp \<le> length b then Inr (typeToSize tp)
     else Inl (ErrSkipLib 0))"

definition ex_cx :: dctx where
  "ex_cx = \<lparr>cx_env = ex_env, cx_skip = ex_skip, cx_mg = (\<lambda>n. 4096), cx_junk = (\<lambda>n. replicate n 170)\<rparr>"

definition ex_pools :: pools where
  "ex_pools = \<lparr>p_decoders = [], p_bitsets = [replicate 1024 (-1)],
     p_ufs = [\<lparr>uf_sz = 3, uf_offs = [(0, 3)]\<rparr>], p_tmp = (\<lambda>t. [])\<rparr>"

lemma ex_okFs_node:
  "okFs ex_env ex_sd [(0, VI32 i), (8, VString nm), (24, VSlice None), (48, VMap None),
     (56, VPtr None), (64, VBytes None), (88, VBytes q)]"
  unfolding okFs_def
  by (rule exI [of _ "Suc (Suc 0)"])
     (simp add: confFields_def ex_sd_eq mkF_def conf.simps(2) confSimple_def
       simpleTypes_def)

lemma ex_init_ok:
  assumes "okFs ex_env ex_sd cs"
  shows "okFs ex_env ex_sd (updField 8 (VString [110]) cs)"
proof -
  let ?f = "mkF 8 2 tt_string Optional (Some (VString [110]))"
  have f: "?f \<in> set (sd_fields ex_sd)" by (simp add: ex_sd_eq)
  have "ok ex_env tt_string (wrapElem tt_string (VString [110]))"
    by (rule ok_simple) (simp_all add: simpleTypes_def confSimple_def)
  then have "okField ex_env ?f (VString [110])" by (simp add: okField_def mkF_def wrapElem_def)
  from okFs_upd [OF ex_wfEnv _ assms f this] ex_newStructDesc show ?thesis by (simp add: mkF_def)
qed

lemma ex_ctx: "ctx_ok False ex_cx"
proof -
  have "sd_init_ok ex_env ex_sd"
    using ex_okFs_node [of 0 "[]" None] ex_init_ok
    unfolding sd_init_ok_def by (simp add: ex_sd_eq node_def node_init_def)
  then show ?thesis
    using ex_wfEnv by (auto simp: ctx_ok_def ex_cx_def ex_env_def ex_skip_def split: if_splits)
qed

lemma ex_pools_ok: "pools_ok False ex_cx ex_pools"
  by (simp add: pools_ok_def ex_pools_def getDecoder_def dok_def bitset_ok_def)

definition ex_obj :: iface where
  "ex_obj = Iface (RPtr go_Node) (VPtr (Some (node 0 [] None [] None)))"

lemma ex_objOk: "objOk ex_env ex_obj"
  using ex_okFs_node [of 0 "[]" None]
  by (simp add: objOk_def ex_obj_def createStructDesc_def find_desc_def go_Node_def ex_env_def node_def)

theorem DecodeObject_safe_witness:
  "\<forall>b. case DecodeObject ex_cx b ex_obj ex_pools of
     DObj n e v' p' \<Rightarrow> n \<le> length b \<and> objOk (cx_env ex_cx) v' \<and> pools_ok False ex_cx p'
   | DObjPanic q \<Rightarrow> q = IndexOutOfRange"
proof
  fix b
  have "objOk (cx_env ex_cx) ex_obj" using ex_objOk by (simp add: ex_cx_def)
  from DecodeObject_safe [OF ex_ctx ex_pools_ok this]
  show "case DecodeObject ex_cx b ex_obj ex_pools of
     DObj n e v' p' \<Rightarrow> n \<le> length b \<and> objOk (cx_env ex_cx) v' \<and> pools_ok False ex_cx p'
   | DObjPanic q \<Rightarrow> q = IndexOutOfRange" .
qed

subsection \<open>Required, unknown and absent fields\<close>

text \<open>What a run of the field loop up to the stop byte gives, at a depth that allows it.\<close>

definition fieldRun ::
  "dctx \<Rightarrow> nat \<Rightarrow> structDesc \<Rightarrow> bytes \<Rightarrow> (nat \<times> gval) list \<Rightarrow> dstate \<Rightarrow> event list \<Rightarrow> nat \<Rightarrow> bool" where
  "fieldRun cx m sd b cs d es j \<longleftrightarrow>
     (\<exists>i u. steps cx (decodeType cx m) sd b 0 (enterStruct sd cs d) es i u \<and>
        decodeField cx (decodeType cx m) sd b i u = TStop j)"

definition firstMissing :: "structDesc \<Rightarrow> event list \<Rightarrow> 16 word option" where
  "firstMissing sd es = find (\<lambda>r. r \<notin> set (seen es)) (requiredFieldIDs sd)"

lemma Decode_run:
  assumes cx: "ctx_ok bv cx" and sd: "wfSd bv (cx_env cx) sd" and cs: "okFs (cx_env cx) sd cs"
    and d: "dok bv cx d" and r: "fieldRun cx m sd b cs d es j"
  shows "\<exists>cs' d'. (\<forall>off. off \<notin> fOffset ` {f \<in> set (sd_fields sd). fID f \<in> set (seen es)} \<longrightarrow>
        map_of cs' off = map_of cs off) \<and>
      fst ` set cs' = fst ` set cs \<and>
      Decode cx (Suc m) sd b (VStruct cs) d =
        (case firstMissing sd es of
           Some r \<Rightarrow> DErr j (ErrRequired (sd_rt sd) (fOffset (the (find (\<lambda>f. fID f = r) (sd_fields sd)))))
                      (VStruct cs') d'
         | None \<Rightarrow> DOk j (VStruct (storeUnknown sd (unknownBytes b es) cs')) d')"
proof -
  from r obtain i u where u: "steps cx (decodeType cx m) sd b 0 (enterStruct sd cs d) es i u"
    "decodeField cx (decodeType cx m) sd b i u = TStop j" by (auto simp: fieldRun_def)
  have idx: "wfIdx sd" using sd by (simp add: wfSd_def)
  have "f_cs (enterStruct sd cs d) = cs" by (simp add: enterStruct_def Let_def split: prod.splits)
  moreover have "fst ` set (f_cs u) = fst ` set (f_cs (enterStruct sd cs d))"
    using arg_cong [OF steps_dom [OF u(1) idx], of set] by simp
  moreover have "map_of (f_cs u) off = map_of (f_cs (enterStruct sd cs d)) off"
    if "off \<notin> fOffset ` {f \<in> set (sd_fields sd). fID f \<in> set (seen es)}" for off
    using that by (intro steps_frame [OF u(1) idx]) auto
  moreover have "Decode cx (Suc m) sd b (VStruct cs) d =
      decodeStruct cx (decodeType cx m) sd b (VStruct cs) d" by simp
  ultimately show ?thesis
    using run_finish [OF cx decode_ok [OF cx, THEN conjunct1] sd cs d u, folded firstMissing_def]
    by (intro exI [of _ "f_cs u"] exI [of _ "leaveStruct u"]) auto
qed

text \<open>
  C4. Required fields: when the field loop reaches the stop byte, the decoder succeeds if and
  only if every required field was in the input, with its type; if not, the error names the
  first one, in the order of the ids, that was not. What earlier uses left in the pooled bitset
  plays no role.
\<close>

theorem Decode_required:
  assumes "ctx_ok bv cx" "wfSd bv (cx_env cx) sd" "okFs (cx_env cx) sd cs" "dok bv cx d"
    "fieldRun cx m sd b cs d es j"
  shows "case find (\<lambda>r. r \<notin> set (seen es)) (requiredFieldIDs sd) of
      None \<Rightarrow> \<exists>v d'. Decode cx (Suc m) sd b (VStruct cs) d = DOk j v d'
    | Some r \<Rightarrow> \<exists>v d'. Decode cx (Suc m) sd b (VStruct cs) d =
        DErr j (ErrRequired (sd_rt sd) (fOffset (the (find (\<lambda>f. fID f = r) (sd_fields sd))))) v d'"
  using Decode_run [OF assms] by (auto simp: firstMissing_def split: option.split)

text \<open>
  C5. Unknown fields are kept byte for byte: on success, the struct's \<^verbatim>\<open>_unknownFields\<close> holds,
  headers included and in the order of the input, exactly the fields the struct does not have
  or has with another type; when there are none it is what it was.
\<close>

theorem Decode_unknown_kept:
  assumes "ctx_ok bv cx" "wfSd bv (cx_env cx) sd" "okFs (cx_env cx) sd cs" "dok bv cx d"
    "fieldRun cx m sd b cs d es j" "firstMissing sd es = None" "hasUnknownFields sd"
  shows "\<exists>cs' d'. Decode cx (Suc m) sd b (VStruct cs) d = DOk j (VStruct cs') d' \<and>
    map_of cs' (unknownFieldsOffset sd) =
      (if unknownBytes b es = [] then map_of cs (unknownFieldsOffset sd)
       else Some (VBytes (Some (unknownBytes b es))))"
proof -
  from Decode_run [OF assms(1-5)] assms(6) obtain cs' d' where
    cs': "\<forall>off. off \<notin> fOffset ` {f \<in> set (sd_fields sd). fID f \<in> set (seen es)} \<longrightarrow>
        map_of cs' off = map_of cs off" "fst ` set cs' = fst ` set cs"
    "Decode cx (Suc m) sd b (VStruct cs) d = DOk j (VStruct (storeUnknown sd (unknownBytes b es) cs')) d'"
    by auto
  have "unknownFieldsOffset sd \<notin> fOffset ` {f \<in> set (sd_fields sd). fID f \<in> set (seen es)}"
    using assms(2,7) by (auto simp: wfSd_def)
  moreover have "unknownFieldsOffset sd \<in> fst ` set cs'"
    using okFs_unknown(2) [OF ctx_env [OF assms(1)] assms(2,3,7)] cs'(2) by simp
  ultimately show ?thesis
    using cs' assms(7) by (auto simp: storeUnknown_def map_of_updField)
qed

text \<open>
  C6. Fields that are not in the input keep their value: neither the missing fields nor, when
  there is nothing unknown, any other memory of the struct changes.
\<close>

theorem Decode_frame:
  assumes "ctx_ok bv cx" "wfSd bv (cx_env cx) sd" "okFs (cx_env cx) sd cs" "dok bv cx d"
    "fieldRun cx m sd b cs d es j" "firstMissing sd es = None"
    "g \<in> set (sd_fields sd)" "fID g \<notin> set (seen es)"
  shows "\<exists>cs' d'. Decode cx (Suc m) sd b (VStruct cs) d = DOk j (VStruct cs') d' \<and>
    map_of cs' (fOffset g) = map_of cs (fOffset g)"
proof -
  from Decode_run [OF assms(1-5)] assms(6) obtain cs' d' where
    cs': "\<forall>off. off \<notin> fOffset ` {f \<in> set (sd_fields sd). fID f \<in> set (seen es)} \<longrightarrow>
        map_of cs' off = map_of cs off"
    "Decode cx (Suc m) sd b (VStruct cs) d = DOk j (VStruct (storeUnknown sd (unknownBytes b es) cs')) d'"
    by auto
  have "f = g" if "f \<in> set (sd_fields sd)" "fOffset f = fOffset g" for f
    using assms(2,7) that by (auto simp: wfSd_def distinct_map inj_on_def)
  then have "fOffset g \<notin> fOffset ` {f \<in> set (sd_fields sd). fID f \<in> set (seen es)}"
    using assms(8) by force
  moreover have "hasUnknownFields sd \<Longrightarrow> unknownFieldsOffset sd \<noteq> fOffset g"
    using assms(2,7) by (metis wfSd_def imageI)
  ultimately show ?thesis
    using cs' by (auto simp: storeUnknown_def map_of_updField_other)
qed

text \<open>Three inputs for the example: nothing, the id, and an unknown byte before the id.\<close>

definition ex_cs :: "(nat \<times> gval) list" where
  "ex_cs = [(0, VI32 0), (8, VString []), (24, VSlice None), (48, VMap None), (56, VPtr None),
     (64, VBytes None), (88, VBytes None)]"

definition ex_b0 :: bytes where "ex_b0 = [0]"
definition ex_b1 :: bytes where "ex_b1 = [8, 0, 1, 0, 0, 0, 5, 0]"
definition ex_b2 :: bytes where "ex_b2 = [3, 0, 9, 7, 8, 0, 1, 0, 0, 0, 5, 0]"

definition ex_d :: dstate where "ex_d = fst (getDecoder ex_cx ex_pools)"

lemma ex_d_ok: "dok False ex_cx ex_d"
  using ex_pools_ok by (simp add: pools_ok_def ex_d_def)

lemma ex_cs_ok: "okFs (cx_env ex_cx) ex_sd ex_cs"
  using ex_okFs_node [of 0 "[]" None] by (simp add: ex_cs_def ex_cx_def)

lemma ex_wfSd: "wfSd False (cx_env ex_cx) ex_sd"
  using ex_newStructDesc by (simp add: ex_cx_def)

lemma ex_GetField:
  "GetField ex_sd 1 = Ok (Some (mkF 0 1 tt_i32 Required (Some (VI32 0))))" "GetField ex_sd 9 = Ok None"
  by (simp_all add: GetField_def ex_sd_eq index_def)

lemma ex_find:
  "find (\<lambda>f. fID f = 1) (sd_fields ex_sd) = Some (mkF 0 1 tt_i32 Required (Some (VI32 0)))"
  "find (\<lambda>f. fID f = 9) (sd_fields ex_sd) = None"
  by (simp_all add: ex_sd_eq mkF_def)

lemma ex_i32:
  assumes "b = pre @ [8, 0, 1, 0, 0, 0, 5] @ post" "i = length pre" "map_of (f_cs s) 0 = Some (VI32 w)"
  shows "\<exists>s'. decodeField ex_cx dt ex_sd b i s = TNext (i + 7) s' \<and> eventAt ex_sd b i (i + 7) = Seen 1"
proof -
  have "index b i = Ok 8" "sliceFrom b (Suc i) = Ok ([0, 1, 0, 0, 0, 5] @ post)"
    "sliceFrom b (Suc (Suc (Suc i))) = Ok ([0, 0, 0, 5] @ post)" "b ! i = 8"
    "drop (Suc i) b = [0, 1, 0, 0, 0, 5] @ post"
    using assms(1,2) by (auto simp: index_def sliceFrom_def nth_append)
  moreover have "beUint16 ([0, 1, 0, 0, 0, 5] @ post) = Ok 1"
    by (simp add: beUint16_def index_def)
  ultimately show ?thesis
    using assms(3)
    by (simp add: decodeField_def tgo_def ex_GetField mkF_def decodeFieldValue_def mallocElems_def
        elemCell_def dgo_def decodeFixedSizeTypes_def eventAt_def matchField_def hdrID_def ex_find
        beUint32_Cons)
qed

lemma ex_stop:
  "b = pre @ [0] \<Longrightarrow> i = length pre \<Longrightarrow> decodeField ex_cx dt ex_sd b i s = TStop (i + 1)"
  by (simp add: decodeField_def tgo_def index_def nth_append Let_def)

lemma ex_enter: "f_cs (enterStruct ex_sd ex_cs ex_d) = ex_cs"
  by (simp add: enterStruct_def Let_def split: prod.splits)

lemma ex_run0: "fieldRun ex_cx m ex_sd ex_b0 ex_cs ex_d [] 1"
  unfolding fieldRun_def using steps.none ex_stop [of ex_b0 "[]" 0] by (fastforce simp: ex_b0_def)

lemma ex_run_id:
  assumes "b = pre @ [8, 0, 1, 0, 0, 0, 5, 0]" "i = length pre" "map_of (f_cs s) 0 = Some (VI32 w)"
  shows "\<exists>u. steps ex_cx dt ex_sd b i s [Seen 1] (i + 7) u \<and>
    decodeField ex_cx dt ex_sd b (i + 7) u = TStop (i + 8)"
proof -
  from ex_i32 [of b pre "[0]" i s w dt] assms obtain u where
    u: "decodeField ex_cx dt ex_sd b i s = TNext (i + 7) u" "eventAt ex_sd b i (i + 7) = Seen 1" by auto
  have "decodeField ex_cx dt ex_sd b (i + 7) u = TStop (i + 8)"
    using ex_stop [of b "pre @ [8, 0, 1, 0, 0, 0, 5]" "i + 7"] assms by simp
  with steps.field [OF u(1) steps.none] u(2) show ?thesis by auto
qed

lemma ex_run1: "fieldRun ex_cx m ex_sd ex_b1 ex_cs ex_d [Seen 1] 8"
  using ex_run_id [of ex_b1 "[]" 0 "enterStruct ex_sd ex_cs ex_d" 0 "decodeType ex_cx m"]
  unfolding fieldRun_def ex_enter by (fastforce simp: ex_b1_def ex_cs_def)

lemma ex_run2: "fieldRun ex_cx m ex_sd ex_b2 ex_cs ex_d [Skipped 0 4, Seen 1] 12"
proof -
  let ?s = "enterStruct ex_sd ex_cs ex_d" and ?dt = "decodeType ex_cx m"
  have "index ex_b2 0 = Ok 3" "ex_b2 ! 0 = 3" "sliceFrom ex_b2 (Suc 0) = Ok [0, 9, 7, 8, 0, 1, 0, 0, 0, 5, 0]"
    "drop (Suc 0) ex_b2 = [0, 9, 7, 8, 0, 1, 0, 0, 0, 5, 0]"
    "sliceFrom ex_b2 (Suc (Suc (Suc 0))) = Ok [7, 8, 0, 1, 0, 0, 0, 5, 0]"
    by (simp_all add: ex_b2_def index_def sliceFrom_def)
  moreover have "beUint16 [0, 9, 7, 8, 0, 1, 0, 0, 0, 5, 0] = Ok 9" by (simp add: beUint16_def)
  ultimately obtain s' where s': "decodeField ex_cx ?dt ex_sd ex_b2 0 ?s = TNext 4 s'"
    "eventAt ex_sd ex_b2 0 4 = Skipped 0 4" "f_cs s' = f_cs ?s"
    by (simp add: decodeField_def tgo_def ex_GetField skipField_def ex_cx_def ex_skip_def typeToSize_def
        eventAt_def matchField_def hdrID_def ex_find split: option.split)
  have b: "ex_b2 = [3, 0, 9, 7] @ [8, 0, 1, 0, 0, 0, 5, 0]" by (simp add: ex_b2_def)
  have c: "map_of (f_cs s') 0 = Some (VI32 0)" unfolding s'(3) ex_enter by (simp add: ex_cs_def)
  have l: "4 = length [3, 0, 9, 7 :: byte]" by simp
  from ex_run_id [OF b l c, of ?dt] obtain u where
    "steps ex_cx ?dt ex_sd ex_b2 4 s' [Seen 1] 11 u" "decodeField ex_cx ?dt ex_sd ex_b2 11 u = TStop 12"
    by auto
  with steps.field [OF s'(1)] s'(2) show ?thesis unfolding fieldRun_def by metis
qed

theorem Decode_required_witness:
  "\<exists>v d'. Decode ex_cx 7 ex_sd ex_b0 (VStruct ex_cs) ex_d = DErr 1 (ErrRequired go_Node 0) v d'"
proof -
  have seven: "7 = Suc 6" by simp
  have req: "requiredFieldIDs ex_sd = [1]" "sd_rt ex_sd = go_Node" by (simp_all add: ex_sd_eq)
  show ?thesis
    using Decode_required [OF ex_ctx ex_wfSd ex_cs_ok ex_d_ok ex_run0, of 6] req
    unfolding seven by (simp add: ex_find mkF_def del: Decode.simps)
qed

theorem Decode_unknown_kept_witness:
  "\<exists>cs' d'. Decode ex_cx 7 ex_sd ex_b2 (VStruct ex_cs) ex_d = DOk 12 (VStruct cs') d' \<and>
     map_of cs' 88 = Some (VBytes (Some [3, 0, 9, 7]))"
proof -
  have seven: "7 = Suc 6" by simp
  have m: "firstMissing ex_sd [Skipped 0 4, Seen 1] = None" by (simp add: firstMissing_def ex_sd_eq)
  have h: "hasUnknownFields ex_sd" "unknownFieldsOffset ex_sd = 88" by (simp_all add: ex_sd_eq)
  show ?thesis
    using Decode_unknown_kept [OF ex_ctx ex_wfSd ex_cs_ok ex_d_ok ex_run2 m h(1), of 6]
    unfolding seven h(2) by (simp add: unknownBytes_def ex_b2_def del: Decode.simps)
qed

theorem Decode_frame_witness:
  "\<exists>cs' d'. Decode ex_cx 7 ex_sd ex_b1 (VStruct ex_cs) ex_d = DOk 8 (VStruct cs') d' \<and>
     map_of cs' 8 = Some (VString [])"
proof -
  have seven: "7 = Suc 6" by simp
  let ?g = "mkF 8 2 tt_string Optional (Some (VString [110]))"
  have m: "firstMissing ex_sd [Seen 1] = None" by (simp add: firstMissing_def ex_sd_eq)
  have g: "?g \<in> set (sd_fields ex_sd)" "fID ?g \<notin> set (seen [Seen 1])" "fOffset ?g = 8"
    by (simp_all add: ex_sd_eq mkF_def)
  show ?thesis
    using Decode_frame [OF ex_ctx ex_wfSd ex_cs_ok ex_d_ok ex_run1 m g(1,2), of 6]
    unfolding seven g(3) by (simp add: ex_cs_def del: Decode.simps)
qed

end
