(* ===== verification/CodecProps.thy ===== *)
theory CodecProps
  imports EncodeBehaviour RoundTripStruct DecodeProps
begin

text \<open>
  The properties of encoder and decoder together: the round trip through \<^verbatim>\<open>EncodeObject\<close>'s
  \<^verbatim>\<open>Append\<close> and \<^verbatim>\<open>DecodeObject\<close>, and that an encoding determines the value.
\<close>

definition rtPools :: "pools \<Rightarrow> bool" where
  "rtPools p \<longleftrightarrow> (\<forall>s\<in>set (p_bitsets p). bitset_ok s)"

lemma rtPools_get: "rtPools p \<Longrightarrow> bsok (fst (getDecoder cx p))"
  by (simp add: rtPools_def bsok_def getDecoder_def split: list.splits)

lemma rtPools_put: "rtPools (putDecoder ss d) = bsok d"
  by (simp add: rtPools_def bsok_def putDecoder_def)

abbreviation object :: "rtype \<Rightarrow> (nat \<times> gval) list \<Rightarrow> iface" where
  "object e cs \<equiv> Iface (RPtr e) (VPtr (Some (VStruct cs)))"

lemma object_sd:
  assumes "confObject env n (object e cs)" "createStructDesc env (RPtr e) = Inr sd"
  shows "confFields (conf True env n) sd cs"
  using assms by (simp add: confObject_def objPtr_def)

lemma object_spec:
  assumes "createStructDesc env (RPtr e) = Inr sd"
  shows "specObject env n (object e cs) = specStruct (specV env n) sd cs"
  using assms by (simp add: specObject_def objPtr_def)

lemma createStructDesc_kind: "createStructDesc env (RPtr e) = Inr sd \<Longrightarrow> rt_Kind e = K_Struct"
  by (simp add: createStructDesc_def split: if_splits)

lemma decode_object:
  assumes cx: "freshCtx cx" and c: "confObject (cx_env cx) n (object e cs)"
    and sd: "createStructDesc (cx_env cx) (RPtr e) = Inr sd"
    and r: "rtFields (rtOK (cx_env cx) n) sd cs" and n: "n \<le> 511"
    and f: "fresh sd cs0" and p: "rtPools p" and bs: "specObject (cx_env cx) n (object e cs) = Some bs"
  shows "\<exists>cs' p'. DecodeObject cx (bs @ rest) (object e cs0) p = DObj (length bs) None (object e cs') p' \<and>
    rtPools p' \<and> eqvFields (eqv (cx_env cx) n) sd cs cs'"
proof -
  have wsd: "wfSd False (cx_env cx) sd"
    using createStructDesc_env [OF sd] cx by (auto simp: freshCtx_def wfEnv_def)
  obtain d ss where d: "getDecoder cx p = (d, ss)" by (cases "getDecoder cx p") auto
  have b: "bsok d" using rtPools_get [OF p, of cx] by (simp add: d)
  have s: "specStruct (specV (cx_env cx) n) sd cs = Some bs" using bs object_spec [OF sd] by simp
  have m: "maxDepthLimit = Suc 1022" by (simp add: maxDepthLimit_def)
  have "2 * n \<le> 1022" using n by simp
  from Decode_rt [OF wsd object_sd [OF c sd] r f s this b rt_all [OF cx], of rest] obtain cs' d' where
    "Decode cx (Suc 1022) sd (bs @ rest) (VStruct cs0) d = DOk (length bs) (VStruct cs') d'"
    "bsok d'" "eqvFields (eqv (cx_env cx) n) sd cs cs'" by blast
  then show ?thesis
    using sd d createStructDesc_kind [OF sd]
    by (auto simp: DecodeObject_def reflect_Decode_def m rtPools_put simp del: Decode.simps)
qed

text \<open>
  C2. The round trip. Take an object that conforms to its type, whose lengths, enums, map keys
  and nils the format can carry, nested at most 511 deep. Decoding what \<^verbatim>\<open>Append\<close> writes for
  it, whatever bytes follow, into a fresh object of the type consumes exactly those bytes,
  gives no error and an equivalent object, which has the same encoding again.
\<close>

theorem encode_decode_roundtrip:
  assumes "freshCtx cx" "confObject (cx_env cx) n (object e cs)"
    "createStructDesc (cx_env cx) (RPtr e) = Inr sd"
    "rtFields (rtOK (cx_env cx) n) sd cs" "n \<le> 511" "n \<le> k" "fresh sd cs0" "rtPools p"
  shows "\<exists>bs cs' p'. Append k (cx_env cx) [] (object e cs) = FOk bs \<and>
    DecodeObject cx (bs @ rest) (object e cs0) p = DObj (length bs) None (object e cs') p' \<and>
    rtPools p' \<and> eqvFields (eqv (cx_env cx) n) sd cs cs' \<and>
    specObject (cx_env cx) n (object e cs') = Some bs"
proof -
  have env: "wfEnv False (cx_env cx)" using assms(1) by (simp add: freshCtx_def)
  from Append_object [OF env assms(2)] assms(6) obtain bs where
    bs: "specObject (cx_env cx) n (object e cs) = Some bs"
      "Append k (cx_env cx) [] (object e cs) = FOk bs" by fastforce
  from decode_object [OF assms(1-5,7,8) bs(1), of rest] obtain cs' p' where
    r: "DecodeObject cx (bs @ rest) (object e cs0) p = DObj (length bs) None (object e cs') p'"
      "rtPools p'" "eqvFields (eqv (cx_env cx) n) sd cs cs'" by blast
  have "specStruct (specV (cx_env cx) n) sd cs = specStruct (specV (cx_env cx) n) sd cs'"
    by (rule eqvFields_spec [OF r(3)]) (rule eqv_spec)
  then have "specObject (cx_env cx) n (object e cs') = Some bs"
    using bs(1) by (simp add: object_spec [OF assms(3)])
  with bs(2) r show ?thesis by blast
qed

text \<open>
  C7. The format is unambiguous and prefix-free: when the encodings of two such objects of a
  type start the same input, they are the same bytes, and both objects are equivalent to the
  one the decoder gives.
\<close>

theorem encoding_unambiguous:
  assumes "freshCtx cx" "createStructDesc (cx_env cx) (RPtr e) = Inr sd" "n \<le> 511"
    "fresh sd cs0" "rtPools p"
    "confObject (cx_env cx) n (object e cs1)" "rtFields (rtOK (cx_env cx) n) sd cs1"
    "confObject (cx_env cx) n (object e cs2)" "rtFields (rtOK (cx_env cx) n) sd cs2"
    "specObject (cx_env cx) n (object e cs1) = Some bs1" "specObject (cx_env cx) n (object e cs2) = Some bs2"
    "bs1 @ r1 = bs2 @ r2"
  shows "bs1 = bs2 \<and> (\<exists>cs' p'. DecodeObject cx (bs1 @ r1) (object e cs0) p =
      DObj (length bs1) None (object e cs') p' \<and>
    eqvFields (eqv (cx_env cx) n) sd cs1 cs' \<and> eqvFields (eqv (cx_env cx) n) sd cs2 cs')"
  using decode_object [OF assms(1,6,2,7,3,4,5,10), of r1] decode_object [OF assms(1,8,2,9,3,4,5,11), of r2]
    assms(12) by auto

subsection \<open>The example\<close>

lemma ex_fresh: "fresh ex_sd [(0, VI32 0), (8, VString [110]), (24, VSlice None), (48, VMap None),
     (56, VPtr None), (64, VBytes None), (88, VBytes None)]"
  by (simp add: fresh_def ex_sd_eq mkF_def field_skipped_def tType_Equal_def ld_eq_def specUnknown_def)

lemma ex_freshCtx: "freshCtx ex_cx"
  using ex_wfEnv ex_fresh
  by (auto simp: freshCtx_def ex_cx_def ex_env_def initial_def ex_sd_eq node_init_def node_def)

definition ex_cs1 :: "(nat \<times> gval) list" where
  "ex_cs1 = [(0, VI32 7), (8, VString [97, 98]), (24, VSlice (Some [VI64 1, VI64 2])),
     (48, VMap (Some (1, [(VString [107], VI64 3)]))),
     (56, VPtr (Some (node 8 [110] None [] None))), (64, VBytes None), (88, VBytes None)]"

lemma ex_object1: "object go_Node ex_cs1 = Iface (RPtr go_Node) ex_v"
  by (simp add: ex_cs1_def ex_v_def node_def)

lemma ex_rtFields: "rtFields (rtOK ex_env 4) ex_sd ex_cs1"
  unfolding four
  by (simp add: rtFields_def ex_sd_eq ex_cs1_def mkF_def specUnknown_def rtOK.simps(2) rtBody_def
      rtSimple_def simpleTypes_def Sd_def ex_env_def node_def field_skipped_def tType_Equal_def ld_eq_def)

theorem encode_decode_roundtrip_witness:
  "\<exists>bs cs' p'. Append 4 ex_env [] (object go_Node ex_cs1) = FOk bs \<and>
    DecodeObject ex_cx (bs @ [1, 2, 3]) (object go_Node [(0, VI32 0), (8, VString [110]), (24, VSlice None),
      (48, VMap None), (56, VPtr None), (64, VBytes None), (88, VBytes None)]) ex_pools =
      DObj (length bs) None (object go_Node cs') p' \<and>
    rtPools p' \<and> eqvFields (eqv ex_env 4) ex_sd ex_cs1 cs' \<and>
    specObject ex_env 4 (object go_Node cs') = Some bs"
proof -
  have env: "cx_env ex_cx = ex_env" by (simp add: ex_cx_def)
  have c: "confObject (cx_env ex_cx) 4 (object go_Node ex_cs1)"
    using ex_confObject by (simp add: ex_object1 env)
  have sd: "createStructDesc (cx_env ex_cx) (RPtr go_Node) = Inr ex_sd"
    by (simp add: env createStructDesc_def find_desc_def go_Node_def ex_env_def)
  have p: "rtPools ex_pools" by (simp add: rtPools_def ex_pools_def bitset_ok_def)
  have r: "rtFields (rtOK (cx_env ex_cx) 4) ex_sd ex_cs1" using ex_rtFields by (simp add: env)
  show ?thesis
    using encode_decode_roundtrip [OF ex_freshCtx c sd r _ order_refl ex_fresh p] by (simp add: env)
qed

theorem encoding_unambiguous_witness:
  "\<exists>bs1. specObject ex_env 4 (object go_Node ex_cs1) = Some bs1 \<and> bs1 = bs1 \<and>
    (\<exists>cs' p'. DecodeObject ex_cx (bs1 @ []) (object go_Node [(0, VI32 0), (8, VString [110]), (24, VSlice None),
      (48, VMap None), (56, VPtr None), (64, VBytes None), (88, VBytes None)]) ex_pools =
      DObj (length bs1) None (object go_Node cs') p' \<and>
      eqvFields (eqv ex_env 4) ex_sd ex_cs1 cs')"
proof -
  have env: "cx_env ex_cx = ex_env" by (simp add: ex_cx_def)
  have c: "confObject (cx_env ex_cx) 4 (object go_Node ex_cs1)"
    using ex_confObject by (simp add: ex_object1 env)
  have sd: "createStructDesc (cx_env ex_cx) (RPtr go_Node) = Inr ex_sd"
    by (simp add: env createStructDesc_def find_desc_def go_Node_def ex_env_def)
  have p: "rtPools ex_pools" by (simp add: rtPools_def ex_pools_def bitset_ok_def)
  have r: "rtFields (rtOK (cx_env ex_cx) 4) ex_sd ex_cs1" using ex_rtFields by (simp add: env)
  obtain bs1 where bs: "specObject (cx_env ex_cx) 4 (object go_Node ex_cs1) = Some bs1"
    using Append_object [OF ex_wfEnv, of 4 "object go_Node ex_cs1"] c by (auto simp: env)
  from encoding_unambiguous [OF ex_freshCtx sd _ ex_fresh p c r c r bs bs, of "[]" "[]"] bs
  show ?thesis by (simp add: env)
qed

end
