(* ===== verification/DescMap.thy ===== *)
theory DescMap
  imports Prelude
begin

text \<open>
  \<^verbatim>\<open>internal/reflect/descmap.go\<close>: the map from runtime types to struct descriptors, an array
  of slots indexed by the low 16 bits of the type's address, each slot an immutable list that
  \<^verbatim>\<open>Set\<close> replaces. The locale \<open>lookup_table\<close> is what the callers rely on; \<open>desc_cache\<close>
  extends it to a cache of a function.
\<close>

unbundle bit_operations_syntax

subsection \<open>The contract\<close>

locale lookup_table =
  fixes empty :: 'm
    and lookup :: "'m \<Rightarrow> 'k \<Rightarrow> 'v option"
    and update :: "'m \<Rightarrow> 'k \<Rightarrow> 'v \<Rightarrow> 'm"
  assumes lookup_empty: "lookup empty k = None"
    and lookup_update: "lookup (update m k v) k' = (if k' = k then Some v else lookup m k')"
begin

lemma lookup_same: "lookup (update m k v) k = Some v"
  by (simp add: lookup_update)

lemma lookup_other: "k' \<noteq> k \<Longrightarrow> lookup (update m k v) k' = lookup m k'"
  by (simp add: lookup_update)

lemma lookup_abs: "lookup (fold (\<lambda>(k, v) m. update m k v) kvs m) = lookup m ++ map_of (rev kvs)"
proof (induction kvs arbitrary: m)
  case (Cons kv kvs)
  obtain k v where kv: "kv = (k, v)" by (cases kv)
  have "lookup (update m k v) = (lookup m)(k \<mapsto> v)"
    by (auto simp: lookup_update)
  with Cons.IH [of "update m k v"] kv show ?case
    by (auto simp: map_add_def fun_eq_iff split: option.split)
qed simp

end

text \<open>A table that holds results of the partial function \<open>f\<close> and nothing else.\<close>

locale desc_cache = lookup_table empty lookup update
  for empty :: 'm
    and lookup :: "'m \<Rightarrow> 'k \<Rightarrow> 'v option"
    and update :: "'m \<Rightarrow> 'k \<Rightarrow> 'v \<Rightarrow> 'm" +
  fixes f :: "'k \<Rightarrow> 'v option"
begin

definition consistent :: "'m \<Rightarrow> bool" where
  "consistent m \<longleftrightarrow> (\<forall>k v. lookup m k = Some v \<longrightarrow> f k = Some v)"

lemma consistent_empty: "consistent empty"
  by (simp add: consistent_def lookup_empty)

lemma consistent_update: "consistent m \<Longrightarrow> f k = Some v \<Longrightarrow> consistent (update m k v)"
  by (simp add: consistent_def lookup_update)

lemma hit: "consistent m \<Longrightarrow> lookup m k = Some v \<Longrightarrow> f k = Some v"
  by (simp add: consistent_def)

end

subsection \<open>The code\<close>

text \<open>A slot is a pointer to a slice of items, nil until the first \<^verbatim>\<open>Set\<close> of its bucket.\<close>

type_synonym 'd mapStructDesc = "nat \<Rightarrow> (64 word \<times> 'd) list option"

definition newMapStructDesc :: "'d mapStructDesc" where
  "newMapStructDesc = (\<lambda>i. None)"

definition mapStructDescBuckets :: "64 word" where
  "mapStructDescBuckets = 0xffff"

definition bucket :: "64 word \<Rightarrow> nat" where
  "bucket abiType = unat (abiType AND mapStructDescBuckets)"

fun getLoop :: "(64 word \<times> 'd) list \<Rightarrow> 64 word \<Rightarrow> 'd option" where
  "getLoop [] a = None"
| "getLoop ((k, d) # xs) a = (if k = a then Some d else getLoop xs a)"

definition Get :: "'d mapStructDesc \<Rightarrow> 64 word \<Rightarrow> 'd option" where
  "Get m abiType =
     (case m (bucket abiType) of None \<Rightarrow> None | Some slot \<Rightarrow> getLoop slot abiType)"

text \<open>The loop that overwrites an item with the same type, \<open>None\<close> when there is none.\<close>

fun setLoop :: "(64 word \<times> 'd) list \<Rightarrow> 64 word \<Rightarrow> 'd \<Rightarrow> (64 word \<times> 'd) list option" where
  "setLoop [] a d = None"
| "setLoop ((k, x) # xs) a d =
     (if k = a then Some ((k, d) # xs) else map_option (\<lambda>ys. (k, x) # ys) (setLoop xs a d))"

definition Set :: "'d mapStructDesc \<Rightarrow> 64 word \<Rightarrow> 'd \<Rightarrow> 'd mapStructDesc" where
  "Set m abiType sd =
     (if Get m abiType = Some sd then m
      else
        let bk = bucket abiType;
            old = (case m bk of None \<Rightarrow> [] | Some p \<Rightarrow> p)
        in case setLoop old abiType sd of
             Some items \<Rightarrow> m(bk := Some items)
           | None \<Rightarrow> m(bk := Some (old @ [(abiType, sd)])))"

subsection \<open>The code meets the contract\<close>

text \<open>The array has 65536 slots, so the index is in range.\<close>

lemma bucket_lt: "bucket a < 65536"
proof -
  have "a AND 0xffff = take_bit 16 a" by (simp add: take_bit_eq_mask mask_eq_exp_minus_1)
  then have "unat (a AND 0xffff) = unat a mod 2 ^ 16" by (simp add: take_bit_eq_mod unat_mod)
  then show ?thesis by (simp add: bucket_def mapStructDescBuckets_def)
qed

lemma setLoop_get:
  "setLoop xs a d = Some ys \<Longrightarrow> getLoop ys k = (if k = a then Some d else getLoop xs k)"
proof (induction xs a d arbitrary: ys rule: setLoop.induct)
  case (2 k x xs a d)
  then show ?case by (cases "k = a") (auto split: if_splits)
qed simp

lemma setLoop_None: "setLoop xs a d = None \<longleftrightarrow> getLoop xs a = None"
  by (induction xs a d rule: setLoop.induct) auto

lemma getLoop_append: "getLoop (xs @ ys) k = (case getLoop xs k of None \<Rightarrow> getLoop ys k | Some v \<Rightarrow> Some v)"
  by (induction xs k rule: getLoop.induct) auto

lemma Get_Set: "Get (Set m a d) k = (if k = a then Some d else Get m k)"
proof (cases "Get m a = Some d")
  case False
  define old where "old = (case m (bucket a) of None \<Rightarrow> [] | Some p \<Rightarrow> p)"
  have old: "getLoop old k = Get m k" if "bucket k = bucket a" for k
    using that by (simp add: Get_def old_def split: option.splits)
  show ?thesis
  proof (cases "setLoop old a d")
    case None
    then have "Set m a d = m(bucket a := Some (old @ [(a, d)]))"
      using False by (simp add: Set_def old_def Let_def)
    moreover have "Get m a = None" using None old [of a] by (simp add: setLoop_None)
    ultimately show ?thesis
      using old [of k] by (auto simp: Get_def getLoop_append split: option.splits)
  next
    case (Some items)
    then have "Set m a d = m(bucket a := Some items)"
      using False by (simp add: Set_def old_def Let_def)
    then show ?thesis
      using setLoop_get [OF Some, of k] old [of k] by (auto simp: Get_def)
  qed
qed (simp add: Set_def)

interpretation dm: lookup_table newMapStructDesc Get Set
  by unfold_locales (simp_all add: Get_Set, simp add: Get_def newMapStructDesc_def)

interpretation dc: desc_cache newMapStructDesc Get Set f for f :: "64 word \<Rightarrow> 'd option"
  by unfold_locales

end
