(* ===== verification/Result.thy ===== *)
theory Result
  imports Prelude
begin

text \<open>
  The outcome of Go code that returns a value and an \<^verbatim>\<open>error\<close> and may also panic: a value, an
  error, or the panic. The resolver, the tag parser and the descriptor cache return it.
\<close>

datatype ('e, 'a) res = Val 'a | Err 'e | Pan panic

primrec rbind :: "('e, 'a) res \<Rightarrow> ('a \<Rightarrow> ('e, 'b) res) \<Rightarrow> ('e, 'b) res" where
  "rbind (Val x) k = k x"
| "rbind (Err e) k = Err e"
| "rbind (Pan p) k = Pan p"

text \<open>Code that cannot return an error, and the wrapping of an error in another one.\<close>

primrec lift_go :: "'a go \<Rightarrow> ('e, 'a) res" where
  "lift_go (Ok x) = Val x"
| "lift_go (Panic p) = Pan p"

primrec wrap_err :: "('e \<Rightarrow> 'f) \<Rightarrow> ('e, 'a) res \<Rightarrow> ('f, 'a) res" where
  "wrap_err w (Val x) = Val x"
| "wrap_err w (Err e) = Err (w e)"
| "wrap_err w (Pan p) = Pan p"

named_theorems res_iff \<open>when a composed computation gives a value, an error or a panic\<close>

lemma rbind_Val_iff [res_iff]: "rbind m k = Val y \<longleftrightarrow> (\<exists>x. m = Val x \<and> k x = Val y)"
  by (cases m) auto

lemma rbind_Err_iff [res_iff]: "rbind m k = Err e \<longleftrightarrow> m = Err e \<or> (\<exists>x. m = Val x \<and> k x = Err e)"
  by (cases m) auto

lemma rbind_Pan_iff [res_iff]: "rbind m k = Pan p \<longleftrightarrow> m = Pan p \<or> (\<exists>x. m = Val x \<and> k x = Pan p)"
  by (cases m) auto

lemma lift_go_iff [res_iff]:
  "lift_go m = Val x \<longleftrightarrow> m = Ok x" "lift_go m \<noteq> Err e" "lift_go m = Pan p \<longleftrightarrow> m = Panic p"
  by (cases m; auto)+

lemma wrap_err_iff [res_iff]:
  "wrap_err w m = Val x \<longleftrightarrow> m = Val x"
  "wrap_err w m = Err f \<longleftrightarrow> (\<exists>e. m = Err e \<and> f = w e)"
  "wrap_err w m = Pan p \<longleftrightarrow> m = Pan p"
  by (cases m; auto)+

lemma rbind_cong [cong]:
  "m = m' \<Longrightarrow> (\<And>x. m' = Val x \<Longrightarrow> k x = k' x) \<Longrightarrow> rbind m k = rbind m' k'"
  by (cases m') auto

text \<open>
  A predicate on each outcome, for the contracts of partial computations: \<open>good p q r m\<close>
  when a value of \<open>m\<close> satisfies \<open>p\<close>, an error \<open>q\<close> and a panic \<open>r\<close>.
\<close>

primrec good :: "('a \<Rightarrow> bool) \<Rightarrow> ('e \<Rightarrow> bool) \<Rightarrow> (panic \<Rightarrow> bool) \<Rightarrow> ('e, 'a) res \<Rightarrow> bool" where
  "good p q r (Val x) \<longleftrightarrow> p x"
| "good p q r (Err e) \<longleftrightarrow> q e"
| "good p q r (Pan x) \<longleftrightarrow> r x"

lemma good_rbind:
  assumes "good p' q r m" "\<And>x. m = Val x \<Longrightarrow> p' x \<Longrightarrow> good p q r (k x)"
  shows "good p q r (rbind m k)"
  using assms by (cases m) auto

lemma good_mono:
  assumes "good p q r m" "\<And>x. p x \<Longrightarrow> p' x" "\<And>x. q x \<Longrightarrow> q' x" "\<And>x. r x \<Longrightarrow> r' x"
  shows "good p' q' r' m"
  using assms by (cases m) auto

end
