(* ===== verification/TypeParser.thy ===== *)
theory TypeParser
  imports DefsTypes Result
begin

text \<open>
  \<^verbatim>\<open>internal/defs/types.go\<close>, the parser: \<^verbatim>\<open>ParseType\<close> derives the Thrift type of a Go type,
  guided by the descriptor in the struct tag (\<^verbatim>\<open>"map<string:set<foo.Bar>>"\<close>) when there is one.
  A Go string is its bytes, a \<open>string\<close> of HOL; the position \<^verbatim>\<open>*i\<close> is passed and returned.
  After an error nobody reads the position, so only a value carries it.
\<close>

subsection \<open>Errors (\<^verbatim>\<open>errors.go\<close>)\<close>

text \<open>
  \<^verbatim>\<open>TypeError\<close> and \<^verbatim>\<open>SyntaxError\<close>. The notes that print a \<^verbatim>\<open>reflect.Type\<close> are
  constructors with that type.
\<close>

datatype terr =
    TypeError rtype string \<comment> \<open>\<^verbatim>\<open>EType\<close>\<close>
  | UseOther rtype string \<comment> \<open>\<^verbatim>\<open>EUseOther\<close>\<close>
  | UseSlice rtype rtype \<comment> \<open>\<^verbatim>\<open>EUseOther(vt, "[]" + vt.Elem().String())\<close>\<close>
  | SyntaxError nat string string \<comment> \<open>\<^verbatim>\<open>ESyntax\<close>: position, source, reason\<close>
  | SetList nat string rtype \<comment> \<open>\<^verbatim>\<open>ESetList\<close>\<close>

subsection \<open>Tokens\<close>

definition keywordTab :: "Tag \<Rightarrow> string" where
  "keywordTab t =
     (if t = T_bool then ''bool'' else if t = T_i8 then ''i8 byte''
      else if t = T_double then ''double'' else if t = T_i16 then ''i16''
      else if t = T_i32 then ''i32'' else if t = T_i64 then ''i64''
      else if t = T_string then ''string'' else if t = T_binary then ''binary''
      else if t = T_struct then ''struct'' else if t = T_map then ''map'' else [])"

definition isident0 :: "char \<Rightarrow> bool" where
  "isident0 c \<longleftrightarrow> (let n = of_char c :: nat in
     n = 95 \<or> 97 \<le> n \<and> n \<le> 122 \<or> 65 \<le> n \<and> n \<le> 90)"

definition isident :: "char \<Rightarrow> bool" where
  "isident c \<longleftrightarrow> isident0 c \<or> (let n = of_char c :: nat in 48 \<le> n \<and> n \<le> 57)"

text \<open>\<^verbatim>\<open>unicode.IsSpace(rune(c))\<close> of a byte: the Latin-1 white space.\<close>

definition isSpace :: "char \<Rightarrow> bool" where
  "isSpace c \<longleftrightarrow> (let n = of_char c :: nat in 9 \<le> n \<and> n \<le> 13 \<or> n = 32 \<or> n = 0x85 \<or> n = 0xA0)"

text \<open>\<^verbatim>\<open>for p < n && P(src[p]) { p++ }\<close>.\<close>

function scan :: "(char \<Rightarrow> bool) \<Rightarrow> string \<Rightarrow> nat \<Rightarrow> nat" where
  "scan P src p = (if p < length src \<and> P (src ! p) then scan P src (Suc p) else p)"
  by pat_completeness auto
termination by (relation "measure (\<lambda>(P, src, p). length src - p)") auto

declare scan.simps [simp del]

definition readToken :: "string \<Rightarrow> nat \<Rightarrow> bool \<Rightarrow> (terr, string \<times> nat) res" where
  "readToken src i eofok =
     (let q = scan isSpace src i in
      if q = length src then
        (if eofok then Val ([], i) else Err (SyntaxError q src ''unexpected EOF''))
      else rbind (lift_go (index src q)) (\<lambda>c.
        let p = (if isident0 c then scan isident src (Suc q) else Suc q)
        in Val (take (p - q) (drop q src), p)))"

text \<open>\<^verbatim>\<open>strings.Contains\<close>.\<close>

fun contains :: "string \<Rightarrow> string \<Rightarrow> bool" where
  "contains [] sub \<longleftrightarrow> sub = []"
| "contains (c # s) sub \<longleftrightarrow> take (length sub) (c # s) = sub \<or> contains s sub"

subsection \<open>The parser\<close>

definition mkMistyped :: "nat \<Rightarrow> string \<Rightarrow> string \<Rightarrow> Tag \<Rightarrow> rtype \<Rightarrow> terr" where
  "mkMistyped pos src tv tag vt =
     (if tag \<noteq> T_struct
      then SyntaxError pos src (''type mismatch, '' @ keywordTab tag @ '' expected, got '' @ tv)
      else SyntaxError pos src (''struct name mismatch, '' @ rt_Name vt @ '' expected, got '' @ tv))"

text \<open>
  \<^verbatim>\<open>doMatchStruct\<close>: whether the name matches, and \<^verbatim>\<open>*tv\<close> and \<^verbatim>\<open>*i\<close> afterwards.
\<close>

definition doMatchStruct :: "rtype \<Rightarrow> string \<Rightarrow> nat \<Rightarrow> string \<Rightarrow> (terr, bool \<times> string \<times> nat) res" where
  "doMatchStruct vt def i tv =
     rbind (readToken def i True) (\<lambda>(tok, sp).
     if rt_Name vt = [] \<and> rt_Kind vt = K_Struct then Val (True, tv, i)
     else if tok = [] \<or> tok = '':'' \<or> tok = ''>'' then Val (rt_Name vt = tv, tv, i)
     else if tok \<noteq> ''.'' then Err (SyntaxError sp def (CHR 0x27 # ''.'' @ CHR 0x27 # '' or '' @
       CHR 0x27 # ''>'' @ CHR 0x27 # '' expected''))
     else rbind (readToken def sp False) (\<lambda>(tv', sp').
       rbind (lift_go (index tv' 0)) (\<lambda>c.
       if \<not> isident0 c then Err (SyntaxError sp' def ''struct name expected'')
       else Val (rt_Name vt = tv', tv', sp'))))"

text \<open>The switch on \<^verbatim>\<open>vt.Kind()\<close>; \<^verbatim>\<open>int\<close> has 64 bits.\<close>

definition T_int :: Tag where "T_int = T_i64"

fun kindTag :: "rtype \<Rightarrow> (terr, Tag) res" where
  "kindTag (RArray n l e) = Err (UseSlice (RArray n l e) e)"
| "kindTag (RSlice n e) = Val 0"
| "kindTag (RMap n k v) = Val T_map"
| "kindTag (RStruct i n) = Val T_struct"
| "kindTag (RPtr e) = Val T_pointer"
| "kindTag (RBasic k p n) =
     (if k = K_Bool then Val T_bool
      else if k = K_Int then Val T_int
      else if k = K_Int8 then Val T_i8
      else if k = K_Int16 then Val T_i16
      else if k = K_Int32 then Val T_i32
      else if k = K_Int64 then Val T_i64
      else if k = K_Uint then Err (UseOther (RBasic k p n) ''int'')
      else if k = K_Uint8 then Err (UseOther (RBasic k p n) ''int8'')
      else if k = K_Uint16 then Err (UseOther (RBasic k p n) ''int16'')
      else if k = K_Uint32 then Err (UseOther (RBasic k p n) ''int32'')
      else if k = K_Uint64 then Err (UseOther (RBasic k p n) ''int64'')
      else if k = K_Float32 then Err (UseOther (RBasic k p n) ''float64'')
      else if k = K_Float64 then Val T_double
      else if k = K_String then Val T_string
      else Err (TypeError (RBasic k p n) ''unsupported type''))"

text \<open>
  ``Match the type if any'': the tag after the token is read. The position of an error is
  \<^verbatim>\<open>*i-len(tv)\<close>, after \<^verbatim>\<open>doMatchStruct\<close> may have updated both.
\<close>

definition matchTag :: "rtype \<Rightarrow> string \<Rightarrow> nat \<Rightarrow> Tag \<Rightarrow> (terr, Tag \<times> nat) res" where
  "matchTag vt def i tag =
     (if def = [] then Val (tag, i)
      else rbind (readToken def i False) (\<lambda>(tv, i).
        if contains (keywordTab tag) tv then Val (tag, i)
        else rbind (lift_go (index tv 0)) (\<lambda>c.
        if \<not> isident0 c then Err (mkMistyped (i - length tv) def tv tag vt)
        else rbind (doMatchStruct vt def i tv) (\<lambda>(ok, tv, i).
        if \<not> ok then Err (mkMistyped (i - length tv) def tv tag vt)
        else Val (if tag = T_i64 \<and> vt \<noteq> i64type then T_enum else tag, i)))))"

text \<open>The next token must be the given character.\<close>

definition expect :: "char \<Rightarrow> string \<Rightarrow> nat \<Rightarrow> (terr, nat) res" where
  "expect c def i =
     rbind (readToken def i False) (\<lambda>(tk, i).
     if tk \<noteq> [c] then Err (SyntaxError (i - length tk) def (CHR 0x27 # c # CHR 0x27 # '' expected''))
     else Val i)"

text \<open>\<^verbatim>\<open>doParseSlice\<close>, with the parser of the element type as an argument.\<close>

definition doParseSlice ::
  "(nat \<Rightarrow> (terr, Type \<times> nat) res) \<Rightarrow> rtype \<Rightarrow> string \<Rightarrow> nat \<Rightarrow> (terr, Type \<times> nat) res" where
  "doParseSlice parseElem vt def i =
     rbind (readToken def i False) (\<lambda>(tok, i).
     rbind (if tok = ''set'' then Val T_set else if tok = ''list'' then Val T_list
            else Err (SyntaxError (i - length tok) def (CHR 0x22 # ''set'' @ CHR 0x22 # '' or '' @
              CHR 0x22 # ''list'' @ CHR 0x22 # '' expected''))) (\<lambda>tag.
     rbind (expect CHR ''<'' def i) (\<lambda>i.
     rbind (parseElem i) (\<lambda>(V, i).
     rbind (expect CHR ''>'' def i) (\<lambda>i.
     rbind (lift_go (Type_IsValueType V)) (\<lambda>ok.
     if \<not> ok then Err (TypeError (ty_S V) ''non-struct pointers are not valid list/set elements'')
     else Val (Type tag None (Some V) vt, i)))))))"

text \<open>
  \<^verbatim>\<open>doParseType\<close>. A nested pointer is to be an error, but \<^verbatim>\<open>EType(ret.V.S, ...)\<close> reads
  \<^verbatim>\<open>ret.V\<close> while it is still nil.
\<close>

fun doParseType :: "rtype \<Rightarrow> string \<Rightarrow> nat \<Rightarrow> bool \<Rightarrow> (terr, Type \<times> nat) res" where
  "doParseType (RPtr e) def i allowPtrs =
     (if \<not> allowPtrs then Pan NilDeref
      else rbind (doParseType e def i False) (\<lambda>(V, i).
        Val (Type T_pointer None (Some V) (RPtr e), i)))"
| "doParseType (RSlice n e) def i allowPtrs =
     (if e = bytetype then
        rbind (matchTag (RSlice n e) def i T_binary) (\<lambda>(tag, i). Val (Type tag None None (RSlice n e), i))
      else if def = [] then Err (SetList i def e)
      else doParseSlice (\<lambda>i. doParseType e def i True) (RSlice n e) def i)"
| "doParseType (RMap n k v) def i allowPtrs =
     rbind (matchTag (RMap n k v) def i T_map) (\<lambda>(tag, i).
     rbind (if def = [] then Val i else expect CHR ''<'' def i) (\<lambda>i.
     rbind (doParseType k def i True) (\<lambda>(K, i).
     rbind (lift_go (Type_IsKeyType K)) (\<lambda>ok.
     if \<not> ok then Err (TypeError (ty_S K) ''not a valid map key type'')
     else
     rbind (if def = [] then Val i else expect CHR '':'' def i) (\<lambda>i.
     rbind (doParseType v def i True) (\<lambda>(V, i).
     rbind (if def = [] then Val i else expect CHR ''>'' def i) (\<lambda>i.
     rbind (lift_go (Type_IsValueType V)) (\<lambda>ok.
     if \<not> ok then Err (TypeError (ty_S V) ''non-struct pointers are not valid map value types'')
     else Val (Type T_map (Some K) (Some V) (RMap n k v), i)))))))))"
| "doParseType vt def i allowPtrs =
     rbind (kindTag vt) (\<lambda>tag.
     rbind (matchTag vt def i tag) (\<lambda>(tag, i). Val (Type tag None None vt, i)))"

definition ParseType :: "rtype \<Rightarrow> string \<Rightarrow> (terr, Type) res" where
  "ParseType vt def = rbind (doParseType vt def 0 True) (\<lambda>(t, i). Val t)"

end
