(* ===== verification/Resolver.thy ===== *)
theory Resolver
  imports TypeParser StructDesc
begin

text \<open>
  \<^verbatim>\<open>internal/defs/resolver.go\<close>: the fields of a Go struct type that take part in the codec,
  from their struct tags (\<^verbatim>\<open>frugal:"1,required,string"\<close> or \<^verbatim>\<open>thrift:"name,1,required"\<close>),
  sorted by field id. A \<^verbatim>\<open>reflect.StructTag\<close> in the conventional format is the list of its
  keys and values, which \<^verbatim>\<open>Lookup\<close> searches from the left.
\<close>

subsection \<open>Strings\<close>

text \<open>\<^verbatim>\<open>strings.Split(s, sep)\<close> for a separator of one byte; never empty.\<close>

fun splitOn :: "char \<Rightarrow> string \<Rightarrow> string list" where
  "splitOn sep [] = [[]]"
| "splitOn sep (c # s) =
     (if c = sep then [] # splitOn sep s
      else (case splitOn sep s of [] \<Rightarrow> [[c]] | w # ws \<Rightarrow> (c # w) # ws))"

text \<open>
  The UTF-8 encodings of the Unicode white space, which \<^verbatim>\<open>strings.TrimSpace\<close> removes from
  both ends.
\<close>

definition utf8Spaces :: "string list" where
  "utf8Spaces = map (map (char_of :: nat \<Rightarrow> char))
     ([[9], [10], [11], [12], [13], [32], [0xC2, 0x85], [0xC2, 0xA0], [0xE1, 0x9A, 0x80],
       [0xE2, 0x80, 0xA8], [0xE2, 0x80, 0xA9], [0xE2, 0x80, 0xAF], [0xE2, 0x81, 0x9F], [0xE3, 0x80, 0x80]] @
      map (\<lambda>b. [0xE2, 0x80, b]) [0x80..<0x8B])"

text \<open>Remove any of \<open>ws\<close> from the left, as often as there is one.\<close>

function trimWith :: "string list \<Rightarrow> string \<Rightarrow> string" where
  "trimWith ws s =
     (case find (\<lambda>w. w \<noteq> [] \<and> s \<noteq> [] \<and> take (length w) s = w) ws of
        None \<Rightarrow> s
      | Some w \<Rightarrow> trimWith ws (drop (length w) s))"
  by pat_completeness auto
termination
  by (relation "measure (\<lambda>(ws, s). length s)") (auto simp: find_Some_iff)

declare trimWith.simps [simp del]

definition TrimSpace :: "string \<Rightarrow> string" where
  "TrimSpace s = rev (trimWith (map rev utf8Spaces) (rev (trimWith utf8Spaces s)))"

text \<open>\<^verbatim>\<open>strconv.ParseUint(s, 10, 16)\<close>: the error of the first byte that makes it fail.\<close>

datatype numErr = ErrSyntax | ErrRange

fun parseDigits :: "string \<Rightarrow> nat \<Rightarrow> (numErr, nat) res" where
  "parseDigits [] n = Val n"
| "parseDigits (c # s) n =
     (let d = of_char c :: nat in
      if d < 48 \<or> 57 < d then Err ErrSyntax
      else if 10 * n + (d - 48) > 65535 then Err ErrRange
      else parseDigits s (10 * n + (d - 48)))"

definition ParseUint16 :: "string \<Rightarrow> (numErr, nat) res" where
  "ParseUint16 s = (if s = [] then Err ErrSyntax else parseDigits s 0)"

subsection \<open>Struct tags\<close>

type_synonym structTag = "(string \<times> string) list"

definition trimSpaces :: "string list \<Rightarrow> string list" where
  "trimSpaces ss = map TrimSpace ss"

definition lookupStructTag :: "structTag \<Rightarrow> string list option" where
  "lookupStructTag tag =
     (case map_of tag ''frugal'' of
        Some s \<Rightarrow> Some (trimSpaces (splitOn CHR '','' s))
      | None \<Rightarrow>
          (case map_of tag ''thrift'' of
             Some s \<Rightarrow>
               (let ss = splitOn CHR '','' s in
                if length ss > 0 then Some (trimSpaces (tl ss)) else None)
           | None \<Rightarrow> None))"

subsection \<open>Fields\<close>

text \<open>\<^verbatim>\<open>reflect.StructField\<close>, what the resolver reads of it.\<close>

record structField =
  sf_Name :: string
  sf_PkgPath :: string \<comment> \<open>empty for an exported field\<close>
  sf_Type :: rtype
  sf_Tag :: structTag
  sf_Offset :: nat
  sf_Anonymous :: bool

datatype rerr =
    InvalidTag string
  | InvalidFieldNumber string numErr
  | DuplicatedID nat string
  | InvalidRequiredness string
  | BadDescriptor terr
  | OnlyOptionalPtr string
  | InvalidOption string
  | NoCopyType Type
  | DuplicatedNoCopy string

definition parseRequiredness :: "string \<Rightarrow> string \<Rightarrow> (rerr, Requiredness) res" where
  "parseRequiredness name tv =
     (if tv = ''default'' then Val Default
      else if tv = ''required'' then Val Required
      else if tv = ''optional'' then Val Optional
      else Err (InvalidRequiredness name))"

text \<open>The scan of the options; the flag is \<^verbatim>\<open>fv & NoCopy\<close>.\<close>

fun scanOptions :: "string \<Rightarrow> Type \<Rightarrow> string list \<Rightarrow> bool \<Rightarrow> (rerr, bool) res" where
  "scanOptions name pt [] fv = Val fv"
| "scanOptions name pt (opt # ft) fv =
     (if opt \<noteq> ''nocopy'' then Err (InvalidOption opt)
      else rbind (lift_go (Type_Tag pt)) (\<lambda>t.
        if t \<noteq> T_string then Err (NoCopyType pt)
        else if fv then Err (DuplicatedNoCopy name)
        else scanOptions name pt ft True))"

text \<open>The head of the remaining tag values, or a default.\<close>

definition nextValue :: "string \<Rightarrow> string list \<Rightarrow> string \<times> string list" where
  "nextValue dflt ft = (case ft of [] \<Rightarrow> (dflt, []) | tv # ft' \<Rightarrow> (tv, ft'))"

text \<open>
  One field: \<open>None\<close> when it is left out. \<open>ids\<close> are the field ids seen so far, \<open>mem\<close> the
  struct after \<^verbatim>\<open>InitDefault\<close>, when the type has it.
\<close>

definition resolveField :: "gval option \<Rightarrow> nat set \<Rightarrow> structField \<Rightarrow> (rerr, (nat \<times> Field) option) res" where
  "resolveField mem ids sf =
     (if sf_Anonymous sf \<or> sf_PkgPath sf \<noteq> [] then Val None
      else
        (case lookupStructTag (sf_Tag sf) of
           None \<Rightarrow> Val None
         | Some [] \<Rightarrow> Err (InvalidTag (sf_Name sf))
         | Some (f0 # ft) \<Rightarrow>
             rbind (wrap_err (InvalidFieldNumber (sf_Name sf)) (ParseUint16 f0)) (\<lambda>n.
             if n \<in> ids then Err (DuplicatedID n (sf_Name sf))
             else
               (case nextValue ''default'' ft of (tv, ft) \<Rightarrow>
                rbind (parseRequiredness (sf_Name sf) tv) (\<lambda>rx.
                case nextValue [] ft of (tv, ft) \<Rightarrow>
                rbind (wrap_err BadDescriptor (ParseType (sf_Type sf) tv)) (\<lambda>pt.
                rbind (if rx \<noteq> Optional \<and> ty_T pt = T_pointer
                       then rbind (lift_go (ty_deref (ty_V pt))) (\<lambda>v. Val (ty_T v \<noteq> T_struct))
                       else Val False) (\<lambda>bad.
                if bad then Err (OnlyOptionalPtr (sf_Name sf))
                else rbind (scanOptions (sf_Name sf) pt ft False) (\<lambda>nocopy.
                rbind (case mem of None \<Rightarrow> Val None
                       | Some _ \<Rightarrow> lift_go (fieldAt mem (sf_Offset sf))) (\<lambda>rv.
                Val (Some (n, \<lparr>F_off = sf_Offset sf, F_ID = of_nat n, F_Type = pt,
                      F_NoCopy = nocopy, F_Spec = rx, F_Default = rv\<rparr>)))))))))))"

text \<open>The loop over the fields.\<close>

fun resolveLoop :: "gval option \<Rightarrow> structField list \<Rightarrow> nat set \<Rightarrow> Field list \<Rightarrow> (rerr, Field list) res" where
  "resolveLoop mem [] ids ret = Val ret"
| "resolveLoop mem (sf # sfs) ids ret =
     rbind (resolveField mem ids sf) (\<lambda>r.
     case r of
       None \<Rightarrow> resolveLoop mem sfs ids ret
     | Some (n, f) \<Rightarrow> resolveLoop mem sfs (insert n ids) (ret @ [f]))"

text \<open>
  \<^verbatim>\<open>DoResolveFields\<close>. The ids are distinct when the loop returns, so \<^verbatim>\<open>sort.Slice\<close> by id,
  which is not stable, has one possible result.
\<close>

definition DoResolveFields :: "goStruct \<Rightarrow> structField list \<Rightarrow> (rerr, Field list) res" where
  "DoResolveFields g sfs =
     (let mem = (case gs_init g of None \<Rightarrow> None | Some f \<Rightarrow> Some (f (gs_zero g)))
      in rbind (resolveLoop mem sfs {} []) (\<lambda>ret. Val (sort_key F_ID ret)))"

text \<open>\<^verbatim>\<open>ResolveFields\<close>, with the cache \<^verbatim>\<open>fieldsCache\<close>: its result and the cache afterwards.\<close>

definition ResolveFields ::
  "(rtype \<rightharpoonup> Field list) \<Rightarrow> goStruct \<Rightarrow> structField list \<Rightarrow> (rerr, Field list) res \<times> (rtype \<rightharpoonup> Field list)" where
  "ResolveFields cache g sfs =
     (case cache (gs_rt g) of
        Some fv \<Rightarrow> (Val fv, cache)
      | None \<Rightarrow>
          (case DoResolveFields g sfs of
             Val fv \<Rightarrow> (Val fv, cache(gs_rt g \<mapsto> fv))
           | Err e \<Rightarrow> (Err e, cache)
           | Pan p \<Rightarrow> (Pan p, cache)))"

end
