(* ===== verification/Prefetch.thy ===== *)
theory Prefetch
  imports Resolver DescMap Frugal
begin

text \<open>
  \<^verbatim>\<open>internal/reflect/desc.go\<close>, the descriptors as a graph: \<^verbatim>\<open>newStructDescAndPrefetch\<close> builds
  the descriptor of a struct type and, depth first, those of the struct types its fields
  mention, and links them through \<^verbatim>\<open>t.Sd\<close>; \<^verbatim>\<open>createStructDesc\<close> publishes it in the map
  \<^verbatim>\<open>sds\<close> that \<^verbatim>\<open>EncodedSize\<close>, \<^verbatim>\<open>Append\<close> and \<^verbatim>\<open>Decode\<close> look into first.

  A \<^verbatim>\<open>*tType\<close> is found by its Go type: \<^verbatim>\<open>newTType\<close> keeps one object per printed type and Go
  type, and a struct type prints as its name. So \<^verbatim>\<open>t.Sd\<close> is the map \<open>p_Sd\<close>.
\<close>

subsection \<open>The program's struct types\<close>

record program =
  pr_lay :: "nat \<Rightarrow> nat \<times> nat"
  pr_struct :: "nat \<Rightarrow> goStruct \<times> structField list"

datatype descErr = DErrType | DErrResolve rerr

text \<open>\<^verbatim>\<open>newStructDesc(t)\<close>, from the Go type.\<close>

definition newStructDescOf :: "program \<Rightarrow> rtype \<Rightarrow> (descErr, structDesc) res" where
  "newStructDescOf P t =
     rbind (if rt_Kind t = K_Ptr then lift_go (rt_Elem t) else Val t) (\<lambda>t.
     case t of
       RStruct i n \<Rightarrow>
         (case pr_struct P i of (g, sfs) \<Rightarrow>
            rbind (wrap_err DErrResolve (DoResolveFields g sfs)) (\<lambda>ff.
            lift_go (newStructDesc (pr_lay P) g ff)))
     | _ \<Rightarrow> Err DErrType)"

subsection \<open>Prefetching\<close>

record prefetch =
  p_cache :: "rtype \<rightharpoonup> structDesc" \<comment> \<open>\<^verbatim>\<open>prefetchStructDescCache\<close>\<close>
  p_Sd :: "rtype \<rightharpoonup> structDesc" \<comment> \<open>\<^verbatim>\<open>t.Sd\<close>\<close>

type_synonym ('e, 'a, 's) step = "'s \<Rightarrow> ('e, 'a) res \<times> 's"

definition sreturn :: "'a \<Rightarrow> ('e, 'a, 's) step" where
  "sreturn x = (\<lambda>s. (Val x, s))"

definition sbind :: "('e, 'a, 's) step \<Rightarrow> ('a \<Rightarrow> ('e, 'b, 's) step) \<Rightarrow> ('e, 'b, 's) step" where
  "sbind m k = (\<lambda>s. case m s of (Val x, s') \<Rightarrow> k x s' | (Err e, s') \<Rightarrow> (Err e, s') | (Pan p, s') \<Rightarrow> (Pan p, s'))"

text \<open>\<^verbatim>\<open>fetchStructDesc(t)\<close>, with the recursive call on a struct type as an argument.\<close>

fun fetchStructDesc :: "(rtype \<Rightarrow> (descErr, structDesc, prefetch) step) \<Rightarrow> tType \<Rightarrow> (descErr, unit, prefetch) step" where
  "fetchStructDesc rec (TType T K V WT tg rt sz al abi isp sim fsz fn) =
     (if T = tMAP then
        sbind (case K of None \<Rightarrow> (\<lambda>s. (Pan NilDeref, s)) | Some k \<Rightarrow> fetchStructDesc rec k) (\<lambda>_.
          case V of None \<Rightarrow> (\<lambda>s. (Pan NilDeref, s)) | Some v \<Rightarrow> fetchStructDesc rec v)
      else if T = tLIST \<or> T = tSET then
        (case V of None \<Rightarrow> (\<lambda>s. (Pan NilDeref, s)) | Some v \<Rightarrow> fetchStructDesc rec v)
      else (\<lambda>s.
        if T \<noteq> tSTRUCT \<or> p_Sd s rt \<noteq> None then (Val (), s)
        else sbind (rec rt) (\<lambda>sd s. (Val (), s\<lparr>p_Sd := (p_Sd s)(rt \<mapsto> sd)\<rparr>)) s))"

text \<open>\<^verbatim>\<open>prefetchSubStructDesc(d)\<close>: the loop over \<^verbatim>\<open>d.fields\<close>.\<close>

fun prefetchFields :: "(rtype \<Rightarrow> (descErr, structDesc, prefetch) step) \<Rightarrow> tField list \<Rightarrow> (descErr, unit, prefetch) step" where
  "prefetchFields rec [] = sreturn ()"
| "prefetchFields rec (f # fs) =
     (if tT (fType f) \<in> set [tSTRUCT, tMAP, tLIST, tSET]
      then sbind (fetchStructDesc rec (fType f)) (\<lambda>_. prefetchFields rec fs)
      else prefetchFields rec fs)"

definition prefetchSubStructDesc ::
  "(rtype \<Rightarrow> (descErr, structDesc, prefetch) step) \<Rightarrow> structDesc \<Rightarrow> (descErr, unit, prefetch) step" where
  "prefetchSubStructDesc rec d = prefetchFields rec (sd_fields d)"

text \<open>\<^verbatim>\<open>newStructDescAndPrefetch\<close>; the fuel bounds the depth of the recursion.\<close>

fun newStructDescAndPrefetch :: "program \<Rightarrow> nat \<Rightarrow> rtype \<Rightarrow> (descErr, structDesc, prefetch) step" where
  "newStructDescAndPrefetch P 0 t s = (Pan StackOverflow, s)"
| "newStructDescAndPrefetch P (Suc n) t s =
     (case p_cache s t of
        Some sd \<Rightarrow> (Val sd, s)
      | None \<Rightarrow>
          (case newStructDescOf P t of
             Err e \<Rightarrow> (Err e, s)
           | Pan p \<Rightarrow> (Pan p, s)
           | Val sd \<Rightarrow>
               (case prefetchSubStructDesc (newStructDescAndPrefetch P n) sd
                       (s\<lparr>p_cache := (p_cache s)(t \<mapsto> sd)\<rparr>) of
                  (Val u, s') \<Rightarrow> (Val sd, s')
                | (Err e, s') \<Rightarrow> (Err e, s'\<lparr>p_cache := (p_cache s')(t := None)\<rparr>)
                | (Pan p, s') \<Rightarrow> (Pan p, s'))))"

subsection \<open>The published descriptors\<close>

text \<open>\<open>ad\<close> is the address of the runtime's type, \<^verbatim>\<open>rtTypePtr\<close> and \<^verbatim>\<open>rvTypePtr\<close>.\<close>

record descs =
  d_sds :: "structDesc mapStructDesc"
  d_pre :: prefetch

definition getStructDesc :: "(rtype \<Rightarrow> 64 word) \<Rightarrow> rtype \<Rightarrow> descs \<Rightarrow> structDesc option" where
  "getStructDesc ad rt s = Get (d_sds s) (ad rt)"

definition createStructDescLocked ::
  "program \<Rightarrow> nat \<Rightarrow> (rtype \<Rightarrow> 64 word) \<Rightarrow> rtype \<Rightarrow> rtype \<Rightarrow> (descErr, structDesc, descs) step" where
  "createStructDescLocked P n ad rv rt s =
     (case Get (d_sds s) (ad rt) of
        Some sd \<Rightarrow> (Val sd, s)
      | None \<Rightarrow>
          (case newStructDescAndPrefetch P n rt (d_pre s) of
             (Val sd, pre) \<Rightarrow>
               (let m = Set (d_sds s) (ad rt) sd
                in (Val sd, \<lparr>d_sds = (if rt_Kind rv = K_Ptr then Set m (ad rv) sd else m), d_pre = pre\<rparr>))
           | (Err e, pre) \<Rightarrow> (Err e, s\<lparr>d_pre := pre\<rparr>)
           | (Pan p, pre) \<Rightarrow> (Pan p, s\<lparr>d_pre := pre\<rparr>)))"

definition createStructDescOf ::
  "program \<Rightarrow> nat \<Rightarrow> (rtype \<Rightarrow> 64 word) \<Rightarrow> rtype \<Rightarrow> (descErr, structDesc, descs) step" where
  "createStructDescOf P n ad rv s =
     (if rt_Kind rv \<noteq> K_Struct then
        if rt_Kind rv \<noteq> K_Ptr then (Err DErrType, s)
        else (case rt_Elem rv of
                Panic p \<Rightarrow> (Pan p, s)
              | Ok rt \<Rightarrow>
                  if rt_Kind rt \<noteq> K_Struct then (Err DErrType, s)
                  else createStructDescLocked P n ad rv rt s)
      else createStructDescLocked P n ad rv rv s)"

definition getOrcreateStructDesc ::
  "program \<Rightarrow> nat \<Rightarrow> (rtype \<Rightarrow> 64 word) \<Rightarrow> rtype \<Rightarrow> (descErr, structDesc, descs) step" where
  "getOrcreateStructDesc P n ad rv s =
     (case getStructDesc ad rv s of
        Some sd \<Rightarrow> (Val sd, s)
      | None \<Rightarrow> createStructDescOf P n ad rv s)"

end
