(* ===== verification/PrefetchCorrect.thy ===== *)
theory PrefetchCorrect
  imports Prefetch
begin

text \<open>
  The prefetch terminates: a fuel above the number of the program's struct types is enough, and
  more fuel changes nothing. When it succeeds, every struct type the returned descriptor can
  reach is linked, to the descriptor that \<^verbatim>\<open>newStructDesc\<close> gives for it.
\<close>

subsection \<open>The struct types a type mentions\<close>

fun structTypes :: "tType \<Rightarrow> rtype list" where
  "structTypes (TType T K V WT tg rt sz al abi isp sim fsz fn) =
     (if T = tMAP then
        (case K of None \<Rightarrow> [] | Some k \<Rightarrow> structTypes k) @ (case V of None \<Rightarrow> [] | Some v \<Rightarrow> structTypes v)
      else if T = tLIST \<or> T = tSET then (case V of None \<Rightarrow> [] | Some v \<Rightarrow> structTypes v)
      else if T = tSTRUCT then [rt] else [])"

definition sdTypes :: "structDesc \<Rightarrow> rtype list" where
  "sdTypes sd = concat (map (\<lambda>f. structTypes (fType f)) (sd_fields sd))"

lemma structTypes_none: "tT t \<notin> set [tSTRUCT, tMAP, tLIST, tSET] \<Longrightarrow> structTypes t = []"
  by (cases t) auto

lemma sbind_Val: "sbind m k s = (Val y, s'') \<longleftrightarrow> (\<exists>x s'. m s = (Val x, s') \<and> k x s' = (Val y, s''))"
  by (auto simp: sbind_def split: prod.split res.split)

subsection \<open>The state only grows\<close>

definition grows :: "prefetch \<Rightarrow> prefetch \<Rightarrow> bool" where
  "grows s s' \<longleftrightarrow> dom (p_cache s) \<subseteq> dom (p_cache s') \<and> dom (p_Sd s) \<subseteq> dom (p_Sd s')"

lemma grows_refl [simp]: "grows s s"
  by (simp add: grows_def)

lemma grows_trans: "grows s s' \<Longrightarrow> grows s' s'' \<Longrightarrow> grows s s''"
  unfolding grows_def by (meson subset_trans)

definition recGrows :: "(rtype \<Rightarrow> (descErr, structDesc, prefetch) step) \<Rightarrow> bool" where
  "recGrows rec \<longleftrightarrow> (\<forall>t s sd s'. rec t s = (Val sd, s') \<longrightarrow> grows s s')"

lemma fetch_grows: "recGrows rec \<Longrightarrow> fetchStructDesc rec t s = (Val u, s') \<Longrightarrow> grows s s'"
proof (induction rec t arbitrary: s s' u rule: fetchStructDesc.induct)
  case (1 rec T K V WT tg rt sz al abi isp sim fsz fn)
  consider (m) "T = tMAP" | (l) "T = tLIST \<or> T = tSET" | (s) "T \<notin> {tMAP, tLIST, tSET}" by blast
  then show ?case
  proof cases
    case m
    then obtain k v s1 where kv: "K = Some k" "V = Some v" "fetchStructDesc rec k s = (Val (), s1)"
      "fetchStructDesc rec v s1 = (Val u, s')"
      using "1.prems"(2) by (auto simp: sbind_Val split: option.splits)
    from "1.IH"(1) [OF m kv(1) "1.prems"(1) kv(3)] "1.IH"(2) [OF m kv(2) "1.prems"(1) kv(4)]
    show ?thesis by (rule grows_trans)
  next
    case l
    then obtain v where v: "V = Some v" "fetchStructDesc rec v s = (Val u, s')"
      using "1.prems"(2) by (auto split: option.splits)
    with "1.IH"(3) l "1.prems"(1) show ?thesis by auto
  next
    case s
    then show ?thesis
      using "1.prems" by (fastforce simp: sbind_Val recGrows_def grows_def split: if_splits)
  qed
qed

lemma fields_grow: "recGrows rec \<Longrightarrow> prefetchFields rec fs s = (Val u, s') \<Longrightarrow> grows s s'"
  by (induction rec fs arbitrary: s s' rule: prefetchFields.induct)
     (auto simp: sreturn_def sbind_Val split: if_splits intro: grows_trans dest: fetch_grows)

lemma prefetch_grows: "recGrows (newStructDescAndPrefetch P n)"
proof (induction n)
  case (Suc n)
  show ?case
    unfolding recGrows_def
  proof (intro allI impI)
    fix t s sd s' assume a: "newStructDescAndPrefetch P (Suc n) t s = (Val sd, s')"
    show "grows s s'"
    proof (cases "p_cache s t")
      case None
      with a obtain sd1 u where "prefetchSubStructDesc (newStructDescAndPrefetch P n) sd1
          (s\<lparr>p_cache := (p_cache s)(t \<mapsto> sd1)\<rparr>) = (Val u, s')"
        by (auto split: res.splits prod.splits)
      from fields_grow [OF Suc this [unfolded prefetchSubStructDesc_def]]
      show ?thesis by (auto simp: grows_def)
    qed (use a in simp)
  qed
qed (simp add: recGrows_def)

subsection \<open>Termination\<close>

text \<open>
  \<open>U\<close> is a finite set of struct types closed under ``a field mentions''. Two recursions agree
  on \<open>U\<close> in the states in which fewer than \<open>n\<close> of its types are not cached, and do not run out
  of fuel there.
\<close>

definition typesIn :: "program \<Rightarrow> rtype set \<Rightarrow> bool" where
  "typesIn P U \<longleftrightarrow> finite U \<and>
     (\<forall>t\<in>U. \<forall>sd. newStructDescOf P t = Val sd \<longrightarrow> set (sdTypes sd) \<subseteq> U) \<and>
     (\<forall>t\<in>U. newStructDescOf P t \<noteq> Pan StackOverflow)"

definition uncached :: "rtype set \<Rightarrow> prefetch \<Rightarrow> nat" where
  "uncached U s = card (U - dom (p_cache s))"

lemma uncached_grows: "finite U \<Longrightarrow> grows s s' \<Longrightarrow> uncached U s' \<le> uncached U s"
  unfolding uncached_def grows_def by (intro card_mono) auto

text \<open>Two outcomes are the same, and not the end of the fuel.\<close>

definition same :: "('e, 'a) res \<times> 's \<Rightarrow> ('e, 'a) res \<times> 's \<Rightarrow> bool" where
  "same r r' \<longleftrightarrow> r = r' \<and> fst r \<noteq> Pan StackOverflow"

lemma same_simps [simp]:
  "same (Val x, s) (Val x, s)" "same (Err e, s) (Err e, s)" "same (Pan NilDeref, s) (Pan NilDeref, s)"
  by (simp_all add: same_def)

lemma same_bind:
  assumes "same (m s) (m' s)" "\<And>x s'. m s = (Val x, s') \<Longrightarrow> same (k x s') (k' x s')"
  shows "same (sbind m k s) (sbind m' k' s)"
  using assms by (auto simp: same_def sbind_def split: prod.splits res.splits)

definition agree :: "rtype set \<Rightarrow> nat \<Rightarrow> (rtype \<Rightarrow> (descErr, structDesc, prefetch) step) \<Rightarrow>
    (rtype \<Rightarrow> (descErr, structDesc, prefetch) step) \<Rightarrow> bool" where
  "agree U n rec rec' \<longleftrightarrow> (\<forall>t\<in>U. \<forall>s. uncached U s < n \<longrightarrow> same (rec t s) (rec' t s))"

lemma fetch_agree:
  assumes "agree U n rec rec'" "finite U" "recGrows rec"
  shows "set (structTypes t) \<subseteq> U \<Longrightarrow> uncached U s < n \<Longrightarrow>
    same (fetchStructDesc rec t s) (fetchStructDesc rec' t s)"
proof (induction t arbitrary: s rule: structTypes.induct)
  case (1 T K V WT tg rt sz al abi isp sim fsz fn)
  consider (m) "T = tMAP" | (l) "T = tLIST \<or> T = tSET" | (s) "T \<notin> {tMAP, tLIST, tSET}" by blast
  then show ?case
  proof cases
    case m
    have V: "same ((case V of None \<Rightarrow> (\<lambda>s. (Pan NilDeref, s)) | Some v \<Rightarrow> fetchStructDesc rec v) s')
        ((case V of None \<Rightarrow> (\<lambda>s. (Pan NilDeref, s)) | Some v \<Rightarrow> fetchStructDesc rec' v) s')"
      if "uncached U s' < n" for s'
      using "1.IH"(2) [OF m _ _ that] m "1.prems" by (cases V) auto
    show ?thesis
    proof (cases K)
      case None
      then show ?thesis using m by (simp add: sbind_def)
    next
      case (Some k)
      have "uncached U s' < n" if "fetchStructDesc rec k s = (Val x, s')" for x s'
        using uncached_grows [OF assms(2) fetch_grows [OF assms(3) that]] "1.prems" by simp
      then show ?thesis
        using "1.IH"(1) [OF m Some] m "1.prems" Some by (auto intro!: same_bind V)
    qed
  next
    case l
    then show ?thesis using "1.IH"(3) "1.prems" by (cases V) auto
  next
    case s
    then show ?thesis
      using "1.prems" assms(1) by (auto simp: agree_def intro!: same_bind)
  qed
qed

lemma fields_agree:
  assumes "agree U n rec rec'" "finite U" "recGrows rec"
  shows "(\<forall>f\<in>set fs. set (structTypes (fType f)) \<subseteq> U) \<Longrightarrow> uncached U s < n \<Longrightarrow>
    same (prefetchFields rec fs s) (prefetchFields rec' fs s)"
proof (induction fs arbitrary: s)
  case (Cons f fs)
  have "uncached U s' < n" if "fetchStructDesc rec (fType f) s = (Val x, s')" for x s'
    using uncached_grows [OF assms(2) fetch_grows [OF assms(3) that]] Cons.prems by simp
  with Cons show ?case
    using fetch_agree [OF assms, of "fType f" s] by (auto intro!: same_bind)
qed (simp add: sreturn_def)

lemma prefetch_agree:
  assumes "typesIn P U" "n \<le> m"
  shows "agree U n (newStructDescAndPrefetch P n) (newStructDescAndPrefetch P m)"
  using assms(2)
proof (induction n arbitrary: m)
  case (Suc n)
  then obtain m' where m: "m = Suc m'" "n \<le> m'" by (cases m) auto
  note IH = Suc.IH [OF m(2)]
  have U: "finite U" using assms(1) by (simp add: typesIn_def)
  show ?case
    unfolding agree_def m(1)
  proof (intro ballI allI impI)
    fix t s assume t: "t \<in> U" and u: "uncached U s < Suc n"
    show "same (newStructDescAndPrefetch P (Suc n) t s) (newStructDescAndPrefetch P (Suc m') t s)"
    proof (cases "p_cache s t = None \<and> (\<exists>sd. newStructDescOf P t = Val sd)")
      case True
      then obtain sd where sd: "p_cache s t = None" "newStructDescOf P t = Val sd" by blast
      let ?s = "s\<lparr>p_cache := (p_cache s)(t \<mapsto> sd)\<rparr>"
      have eq: "U - dom (p_cache ?s) = (U - dom (p_cache s)) - {t}" by auto
      have "t \<in> U - dom (p_cache s)" using t sd by auto
      then have "card ((U - dom (p_cache s)) - {t}) < card (U - dom (p_cache s))"
        using U by (intro card_Diff1_less) auto
      then have lt: "uncached U ?s < n" using u unfolding uncached_def eq by simp
      have "\<forall>f\<in>set (sd_fields sd). set (structTypes (fType f)) \<subseteq> U"
        using assms(1) t sd(2) by (fastforce simp: typesIn_def sdTypes_def)
      from fields_agree [OF IH U prefetch_grows this lt]
      have "same (prefetchSubStructDesc (newStructDescAndPrefetch P n) sd ?s)
          (prefetchSubStructDesc (newStructDescAndPrefetch P m') sd ?s)"
        by (simp add: prefetchSubStructDesc_def)
      with sd show ?thesis by (auto simp: same_def split: prod.splits res.splits)
    next
      case False
      then show ?thesis using assms(1) t
        by (auto simp: typesIn_def same_def split: option.splits res.splits)
    qed
  qed
qed (simp add: agree_def)

subsection \<open>Success links everything\<close>

text \<open>
  The invariant: cached descriptors are what \<^verbatim>\<open>newStructDesc\<close> gives, a linked type is linked
  to its cached descriptor, and the struct types a cached descriptor mentions are linked,
  except for the descriptors still being built (\<open>G\<close>).
\<close>

definition prefetchInv :: "program \<Rightarrow> rtype set \<Rightarrow> prefetch \<Rightarrow> bool" where
  "prefetchInv P G s \<longleftrightarrow>
     (\<forall>t sd. p_cache s t = Some sd \<longrightarrow> newStructDescOf P t = Val sd) \<and>
     (\<forall>t sd. p_Sd s t = Some sd \<longrightarrow> p_cache s t = Some sd) \<and>
     (\<forall>t sd. p_cache s t = Some sd \<and> t \<notin> G \<longrightarrow> (\<forall>rt\<in>set (sdTypes sd). p_Sd s rt \<noteq> None))"

lemma prefetchInvD:
  assumes "prefetchInv P G s"
  shows "p_cache s u = Some x \<Longrightarrow> newStructDescOf P u = Val x"
    and "p_Sd s u = Some x \<Longrightarrow> p_cache s u = Some x"
    and "p_cache s u = Some x \<Longrightarrow> u \<notin> G \<Longrightarrow> rt \<in> set (sdTypes x) \<Longrightarrow> p_Sd s rt \<noteq> None"
  using assms unfolding prefetchInv_def by fast+

lemma prefetchInvI:
  assumes "\<And>u x. p_cache s u = Some x \<Longrightarrow> newStructDescOf P u = Val x"
    and "\<And>u x. p_Sd s u = Some x \<Longrightarrow> p_cache s u = Some x"
    and "\<And>u x rt. p_cache s u = Some x \<Longrightarrow> u \<notin> G \<Longrightarrow> rt \<in> set (sdTypes x) \<Longrightarrow> p_Sd s rt \<noteq> None"
  shows "prefetchInv P G s"
  unfolding prefetchInv_def using assms by fast

definition recLinks :: "program \<Rightarrow> (rtype \<Rightarrow> (descErr, structDesc, prefetch) step) \<Rightarrow> bool" where
  "recLinks P rec \<longleftrightarrow> recGrows rec \<and>
     (\<forall>G t s sd s'. prefetchInv P G s \<longrightarrow> rec t s = (Val sd, s') \<longrightarrow>
        prefetchInv P G s' \<and> p_cache s' t = Some sd)"

lemma grows_linked: "grows s s' \<Longrightarrow> p_Sd s rt \<noteq> None \<Longrightarrow> p_Sd s' rt \<noteq> None"
  by (auto simp: grows_def)

lemma prefetchInv_link:
  assumes "prefetchInv P G s" "p_cache s rt = Some sd"
  shows "prefetchInv P G (s\<lparr>p_Sd := (p_Sd s)(rt \<mapsto> sd)\<rparr>)"
  using assms by (auto simp: prefetchInv_def)

lemma fetch_links:
  assumes "recLinks P rec" "prefetchInv P G s"
  shows "fetchStructDesc rec t s = (Val u, s') \<Longrightarrow>
    prefetchInv P G s' \<and> (\<forall>rt\<in>set (structTypes t). p_Sd s' rt \<noteq> None)"
  using assms(2)
proof (induction t arbitrary: s s' u rule: structTypes.induct)
  case (1 T K V WT tg rt sz al abi isp sim fsz fn)
  consider (m) "T = tMAP" | (l) "T = tLIST \<or> T = tSET" | (s) "T \<notin> {tMAP, tLIST, tSET}" by blast
  then show ?case
  proof cases
    case m
    then obtain k v s1 where kv: "K = Some k" "V = Some v" "fetchStructDesc rec k s = (Val (), s1)"
      "fetchStructDesc rec v s1 = (Val u, s')"
      using "1.prems"(1) by (auto simp: sbind_Val split: option.splits)
    from "1.IH"(1) [OF m kv(1,3) "1.prems"(2)] have 1: "prefetchInv P G s1"
      "\<forall>rt\<in>set (structTypes k). p_Sd s1 rt \<noteq> None" by auto
    from "1.IH"(2) [OF m kv(2,4) 1(1)] have 2: "prefetchInv P G s'"
      "\<forall>rt\<in>set (structTypes v). p_Sd s' rt \<noteq> None" by auto
    have "grows s1 s'" using fetch_grows [OF _ kv(4)] assms(1) by (simp add: recLinks_def)
    with 1 2 m kv(1,2) show ?thesis using grows_linked by (auto; blast)
  next
    case l
    then obtain v where v: "V = Some v" "fetchStructDesc rec v s = (Val u, s')"
      using "1.prems"(1) by (auto split: option.splits)
    with "1.IH"(3) l "1.prems"(2) show ?thesis by auto
  next
    case s
    show ?thesis
    proof (cases "T \<noteq> tSTRUCT \<or> p_Sd s rt \<noteq> None")
      case True
      then show ?thesis using s "1.prems" by auto
    next
      case False
      with s "1.prems"(1) obtain sd s1 where r: "rec rt s = (Val sd, s1)"
        "s' = s1\<lparr>p_Sd := (p_Sd s1)(rt \<mapsto> sd)\<rparr>" by (auto simp: sbind_Val)
      with assms(1) "1.prems"(2) have "prefetchInv P G s1" "p_cache s1 rt = Some sd"
        by (auto simp: recLinks_def)
      from prefetchInv_link [OF this] show ?thesis using r(2) False s by auto
    qed
  qed
qed

lemma fields_link:
  assumes "recLinks P rec"
  shows "prefetchFields rec fs s = (Val u, s') \<Longrightarrow> prefetchInv P G s \<Longrightarrow>
    prefetchInv P G s' \<and> (\<forall>f\<in>set fs. \<forall>rt\<in>set (structTypes (fType f)). p_Sd s' rt \<noteq> None)"
proof (induction fs arbitrary: s)
  case Nil
  then show ?case by (simp add: sreturn_def)
next
  case (Cons f fs)
  show ?case
  proof (cases "tT (fType f) \<in> set [tSTRUCT, tMAP, tLIST, tSET]")
    case True
    with Cons.prems(1) obtain s1 where s1: "fetchStructDesc rec (fType f) s = (Val (), s1)"
      "prefetchFields rec fs s1 = (Val u, s')" by (auto simp: sbind_Val)
    from fetch_links [OF assms Cons.prems(2) s1(1)] have 1: "prefetchInv P G s1"
      "\<forall>rt\<in>set (structTypes (fType f)). p_Sd s1 rt \<noteq> None" by auto
    have "grows s1 s'" using fields_grow [OF _ s1(2)] assms by (simp add: recLinks_def)
    with Cons.IH [OF s1(2) 1(1)] 1(2) show ?thesis using grows_linked by (auto; blast)
  next
    case False
    then show ?thesis using Cons structTypes_none [OF False] by auto
  qed
qed

lemma prefetch_links: "recLinks P (newStructDescAndPrefetch P n)"
proof (induction n)
  case 0
  then show ?case by (simp add: recLinks_def recGrows_def)
next
  case (Suc n)
  have main: "prefetchInv P G s' \<and> p_cache s' t = Some sd"
    if inv: "prefetchInv P G s" and r: "newStructDescAndPrefetch P (Suc n) t s = (Val sd, s')" for G t s sd s'
  proof (cases "p_cache s t")
    case None
    with r obtain u where sd: "newStructDescOf P t = Val sd"
      "prefetchSubStructDesc (newStructDescAndPrefetch P n) sd (s\<lparr>p_cache := (p_cache s)(t \<mapsto> sd)\<rparr>) = (Val u, s')"
      by (auto split: res.splits prod.splits)
    let ?s = "s\<lparr>p_cache := (p_cache s)(t \<mapsto> sd)\<rparr>"
    have "prefetchInv P (insert t G) ?s"
      using inv None sd(1) by (auto simp: prefetchInv_def)
    from fields_link [OF Suc sd(2) [unfolded prefetchSubStructDesc_def] this]
    have l: "prefetchInv P (insert t G) s'" "\<forall>rt\<in>set (sdTypes sd). p_Sd s' rt \<noteq> None"
      by (auto simp: sdTypes_def)
    have "grows ?s s'"
      using fields_grow [OF _ sd(2) [unfolded prefetchSubStructDesc_def]] Suc by (simp add: recLinks_def)
    then obtain x where x: "p_cache s' t = Some x" by (auto simp: grows_def)
    then have "p_cache s' t = Some sd" using prefetchInvD(1) [OF l(1) x] sd(1) by simp
    note pc = this
    note inv' = prefetchInvD [OF l(1)]
    have new: "p_Sd s' rt \<noteq> None" if "p_cache s' u = Some x" "u \<notin> G" "rt \<in> set (sdTypes x)" for u x rt
    proof (cases "u = t")
      case True
      then show ?thesis using that(1,3) pc l(2) by simp
    next
      case False
      then have "u \<notin> insert t G" using that(2) by simp
      from inv'(3) [OF that(1) this that(3)] show ?thesis .
    qed
    have "prefetchInv P G s'" by (rule prefetchInvI [OF inv'(1,2) new])
    with pc show ?thesis by blast
  qed (use inv r in simp)
  show ?case unfolding recLinks_def by (intro conjI allI impI prefetch_grows) (use main in blast)+
qed

text \<open>The struct types the encoder and the decoder can reach from a descriptor.\<close>

inductive reaches :: "program \<Rightarrow> structDesc \<Rightarrow> rtype \<Rightarrow> bool" for P sd where
  direct: "rt \<in> set (sdTypes sd) \<Longrightarrow> reaches P sd rt"
| step: "reaches P sd t \<Longrightarrow> newStructDescOf P t = Val sd' \<Longrightarrow> rt \<in> set (sdTypes sd') \<Longrightarrow> reaches P sd rt"

lemma prefetch_complete:
  assumes "prefetchInv P {} s" "newStructDescAndPrefetch P n t s = (Val sd, s')"
  shows "prefetchInv P {} s' \<and> newStructDescOf P t = Val sd \<and>
    (\<forall>rt. reaches P sd rt \<longrightarrow> (\<exists>sd'. p_Sd s' rt = Some sd' \<and> newStructDescOf P rt = Val sd'))"
proof -
  have inv: "prefetchInv P {} s'" and t: "p_cache s' t = Some sd"
    using prefetch_links [of P n] assms unfolding recLinks_def by blast+
  have linked: "\<exists>sd'. p_Sd s' rt = Some sd' \<and> p_cache s' rt = Some sd' \<and> newStructDescOf P rt = Val sd'"
    if "p_Sd s' rt \<noteq> None" for rt
    using inv that by (fastforce simp: prefetchInv_def)
  have "\<exists>sd'. p_Sd s' rt = Some sd' \<and> p_cache s' rt = Some sd' \<and> newStructDescOf P rt = Val sd'"
    if "reaches P sd rt" for rt
    using that
  proof induction
    case (direct rt)
    have "p_Sd s' rt \<noteq> None" using inv t direct unfolding prefetchInv_def by blast
    then show ?case by (rule linked)
  next
    case (step u sd' rt)
    then have "p_cache s' u = Some sd'" by auto
    then have "p_Sd s' rt \<noteq> None" using inv step(3) unfolding prefetchInv_def by blast
    then show ?case by (rule linked)
  qed
  moreover have "newStructDescOf P t = Val sd" using inv t by (simp add: prefetchInv_def)
  ultimately show ?thesis using inv by blast
qed

end
