(* ===== verification/TypeParserCorrect.thy ===== *)
theory TypeParserCorrect
  imports TypeParser
begin

text \<open>
  What \<^verbatim>\<open>ParseType\<close> guarantees on any input: the positions stay within the tag, the
  descriptor it returns describes the Go type it was given (\<open>tyOf\<close>) and has a valid shape, an
  error points into the tag, and the only panic is the one on nested pointers.
\<close>

subsection \<open>Tokens and positions\<close>

lemma scan_bounds: "i \<le> length src \<Longrightarrow> i \<le> scan P src i \<and> scan P src i \<le> length src"
  by (induction P src i rule: scan.induct) (subst (1 2) scan.simps, auto)

text \<open>Where an error may point to.\<close>

definition errPos :: "string \<Rightarrow> terr \<Rightarrow> bool" where
  "errPos def e = (case e of SyntaxError p s r \<Rightarrow> p \<le> length def \<and> s = def
     | SetList p s t \<Rightarrow> p \<le> length def \<and> s = def | _ \<Rightarrow> True)"

lemma errPos_simps [simp]:
  "errPos def (SyntaxError p s r) \<longleftrightarrow> p \<le> length def \<and> s = def"
  "errPos def (SetList p s t) \<longleftrightarrow> p \<le> length def \<and> s = def"
  "errPos def (TypeError vt m)" "errPos def (UseOther vt m)" "errPos def (UseSlice vt et)"
  by (simp_all add: errPos_def)

text \<open>A token ends after it starts, and is empty only at the end of the source.\<close>

definition token :: "string \<Rightarrow> nat \<Rightarrow> bool \<Rightarrow> string \<times> nat \<Rightarrow> bool" where
  "token def i eofok = (\<lambda>(tk, j). i \<le> j \<and> j \<le> length def \<and> (tk = [] \<longrightarrow> eofok) \<and>
     (tk \<noteq> [] \<longrightarrow> i < j))"

lemma readToken_good:
  assumes "i \<le> length src"
  shows "good (token src i eofok) (errPos src) (\<lambda>p. False) (readToken src i eofok)"
proof -
  define q where "q = scan isSpace src i"
  define p where "p = (if isident0 (src ! q) then scan isident src (Suc q) else Suc q)"
  have q: "i \<le> q" "q \<le> length src" using scan_bounds [OF assms] by (auto simp: q_def)
  show ?thesis
  proof (cases "q = length src")
    case True
    then show ?thesis using assms by (simp add: readToken_def q_def [symmetric] token_def)
  next
    case False
    then have lt: "q < length src" using q by simp
    then have p: "Suc q \<le> p" "p \<le> length src"
      using scan_bounds [of "Suc q" src isident] by (auto simp: p_def)
    have "readToken src i eofok = Val (take (p - q) (drop q src), p)"
      using lt False by (simp add: readToken_def q_def [symmetric] p_def [symmetric])
    then show ?thesis using p q lt by (auto simp: token_def)
  qed
qed

lemma token_D:
  "token def i e (tk, j) \<Longrightarrow> i \<le> j \<and> j \<le> length def"
  "token def i False (tk, j) \<Longrightarrow> \<exists>c. index tk 0 = Ok c"
  by (auto simp: token_def index_def)

lemma mkMistyped_pos: "p \<le> length def \<Longrightarrow> errPos def (mkMistyped (p - n) def tv tag vt)"
  by (auto simp: mkMistyped_def)

lemma good_token:
  assumes "i \<le> length def"
    "\<And>tk j. token def i e (tk, j) \<Longrightarrow> i \<le> j \<Longrightarrow> j \<le> length def \<Longrightarrow> good p (errPos def) r (k (tk, j))"
  shows "good p (errPos def) r (rbind (readToken def i e) k)"
proof (rule good_rbind)
  show "good (token def i e) (errPos def) r (readToken def i e)"
    by (rule good_mono [OF readToken_good [OF assms(1)]]) auto
  show "good p (errPos def) r (k x)" if "token def i e x" for x
    using assms(2) that token_D(1) by (cases x) fastforce
qed

lemma doMatchStruct_good:
  assumes "i \<le> length def"
  shows "good (\<lambda>(ok, tv', j). i \<le> j \<and> j \<le> length def) (errPos def) (\<lambda>p. False) (doMatchStruct vt def i tv)"
  unfolding doMatchStruct_def
  using assms
  by (intro good_token) (auto intro!: good_token dest: token_D(2))

text \<open>What \<open>matchTag\<close> may turn a tag into.\<close>

lemma matchTag_good:
  assumes "i \<le> length def"
  shows "good (\<lambda>(tag', j). i \<le> j \<and> j \<le> length def \<and>
      (tag' = tag \<or> tag = T_i64 \<and> vt \<noteq> i64type \<and> tag' = T_enum)) (errPos def) (\<lambda>p. False)
    (matchTag vt def i tag)"
proof (cases "def = []")
  case False
  let ?p = "\<lambda>(tag', j). i \<le> j \<and> j \<le> length def \<and>
      (tag' = tag \<or> tag = T_i64 \<and> vt \<noteq> i64type \<and> tag' = T_enum)"
  define K where "K = (\<lambda>tv j. rbind (doMatchStruct vt def j tv) (\<lambda>(ok, tv, i).
        if \<not> ok then Err (mkMistyped (i - length tv) def tv tag vt)
        else Val (if tag = T_i64 \<and> vt \<noteq> i64type then T_enum else tag, i)))"
  have K: "good ?p (errPos def) (\<lambda>p. False) (K tv j)" if "i \<le> j" "j \<le> length def" for j tv
    unfolding K_def
    by (rule good_rbind [OF doMatchStruct_good]) (use that in \<open>auto intro: mkMistyped_pos\<close>)
  have "matchTag vt def i tag = rbind (readToken def i False) (\<lambda>(tv, i).
        if contains (keywordTab tag) tv then Val (tag, i)
        else rbind (lift_go (index tv 0)) (\<lambda>c.
        if \<not> isident0 c then Err (mkMistyped (i - length tv) def tv tag vt) else K tv i))"
    by (simp only: matchTag_def K_def False if_False)
  with assms K show ?thesis by (auto intro!: good_token mkMistyped_pos dest!: token_D(2))
qed (use assms in \<open>simp add: matchTag_def\<close>)

lemma expect_good:
  "i \<le> length def \<Longrightarrow> good (\<lambda>j. i < j \<and> j \<le> length def) (errPos def) (\<lambda>p. False) (expect c def i)"
  unfolding expect_def by (intro good_token) (auto simp: token_def)

subsection \<open>The descriptor describes the Go type\<close>

text \<open>The tag of a type without elements.\<close>

definition basicTagOf :: "kind \<Rightarrow> Tag option" where
  "basicTagOf k =
     (if k = K_Bool then Some T_bool else if k = K_Int8 then Some T_i8
      else if k = K_Int16 then Some T_i16 else if k = K_Int32 then Some T_i32
      else if k = K_Int64 \<or> k = K_Int then Some T_i64 else if k = K_Float64 then Some T_double
      else if k = K_String then Some T_string else None)"

fun tyOf :: "rtype \<Rightarrow> Type \<Rightarrow> bool" where
  "tyOf (RBasic k p n) ty \<longleftrightarrow>
     (\<exists>t. ty = Type t None None (RBasic k p n) \<and>
        (basicTagOf k = Some t \<or> basicTagOf k = Some T_i64 \<and> RBasic k p n \<noteq> i64type \<and> t = T_enum))"
| "tyOf (RStruct i n) ty \<longleftrightarrow> ty = Type T_struct None None (RStruct i n)"
| "tyOf (RPtr e) ty \<longleftrightarrow>
     (\<exists>v. ty = Type T_pointer None (Some v) (RPtr e) \<and> tyOf e v \<and> ty_T v \<noteq> T_pointer)"
| "tyOf (RSlice n e) ty \<longleftrightarrow>
     (if e = bytetype then ty = Type T_binary None None (RSlice n e)
      else \<exists>t v. ty = Type t None (Some v) (RSlice n e) \<and> (t = T_set \<or> t = T_list) \<and> tyOf e v \<and>
        Type_IsValueType v = Ok True)"
| "tyOf (RMap n k v) ty \<longleftrightarrow>
     (\<exists>K V. ty = Type T_map (Some K) (Some V) (RMap n k v) \<and> tyOf k K \<and> tyOf v V \<and>
        Type_IsKeyType K = Ok True \<and> Type_IsValueType V = Ok True)"
| "tyOf (RArray n l e) ty \<longleftrightarrow> False"

lemma basicTagOf_tags: "basicTagOf k = Some t \<Longrightarrow>
    t \<in> set [T_bool, T_i8, T_i16, T_i32, T_i64, T_double, T_string]"
  by (auto simp: basicTagOf_def split: if_splits)

lemma tyOf_S: "tyOf vt ty \<Longrightarrow> ty_S ty = vt"
  by (cases vt) (auto split: if_splits)

lemma tyOf_pointer: "tyOf vt ty \<Longrightarrow> ty_T ty = T_pointer \<longleftrightarrow> (\<exists>e. vt = RPtr e)"
  by (cases vt) (auto split: if_splits dest!: basicTagOf_tags)

lemma tyOf_struct: "tyOf vt ty \<Longrightarrow> ty_T ty = T_struct \<longleftrightarrow> (\<exists>i n. vt = RStruct i n)"
  by (cases vt) (auto split: if_splits dest!: basicTagOf_tags)

lemma tyOf_valid: "tyOf vt ty \<Longrightarrow> valid_Type ty"
  by (induction vt arbitrary: ty) (auto split: if_splits dest!: basicTagOf_tags)

text \<open>The checks of keys and values do not panic on such a descriptor.\<close>

lemma valid_checks:
  assumes "valid_Type ty"
  shows "\<exists>ok. Type_IsValueType ty = Ok ok" "\<exists>ok. Type_IsKeyType ty = Ok ok"
proof -
  obtain t k v s where ty: "ty = Type t k v s" by (cases ty)
  have "t = T_pointer \<Longrightarrow> v \<noteq> None" using assms by (auto simp: ty split: option.splits)
  then show "\<exists>ok. Type_IsValueType ty = Ok ok" "\<exists>ok. Type_IsKeyType ty = Ok ok"
    by (auto simp: ty Type_IsValueType_def Type_IsKeyType_def ty_deref_def)
qed

lemma kindTag_basic:
  "kindTag (RBasic k p n) = Val tag \<Longrightarrow> basicTagOf k = Some tag"
  by (auto simp: basicTagOf_def T_int_def split: if_splits)

text \<open>A pointer to a pointer somewhere in the type.\<close>

fun nestedPtr :: "rtype \<Rightarrow> bool" where
  "nestedPtr (RPtr e) \<longleftrightarrow> rt_Kind e = K_Ptr \<or> nestedPtr e"
| "nestedPtr (RSlice n e) \<longleftrightarrow> nestedPtr e"
| "nestedPtr (RMap n k v) \<longleftrightarrow> nestedPtr k \<or> nestedPtr v"
| "nestedPtr vt \<longleftrightarrow> False"

text \<open>Go has no basic type of a composed kind.\<close>

fun goType :: "rtype \<Rightarrow> bool" where
  "goType (RBasic k p n) \<longleftrightarrow> k \<notin> set [K_Array, K_Map, K_Ptr, K_Slice, K_Struct]"
| "goType (RPtr e) \<longleftrightarrow> goType e"
| "goType (RSlice n e) \<longleftrightarrow> goType e"
| "goType (RArray n l e) \<longleftrightarrow> goType e"
| "goType (RMap n k v) \<longleftrightarrow> goType k \<and> goType v"
| "goType (RStruct i n) \<longleftrightarrow> True"

text \<open>The contract of \<^verbatim>\<open>doParseType\<close>.\<close>

definition parsed :: "rtype \<Rightarrow> string \<Rightarrow> nat \<Rightarrow> Type \<times> nat \<Rightarrow> bool" where
  "parsed vt def i = (\<lambda>(ty, j). tyOf vt ty \<and> i \<le> j \<and> j \<le> length def)"

abbreviation parses :: "rtype \<Rightarrow> string \<Rightarrow> nat \<Rightarrow> bool \<Rightarrow> (terr, Type \<times> nat) res \<Rightarrow> bool" where
  "parses vt def i allowPtrs \<equiv> good (parsed vt def i) (errPos def)
     (\<lambda>p. p = NilDeref \<and> (nestedPtr vt \<or> \<not> allowPtrs \<and> rt_Kind vt = K_Ptr))"

text \<open>The steps of the parser, one rule each.\<close>

lemma good_expect:
  assumes "i \<le> length def" "\<And>j. i < j \<Longrightarrow> j \<le> length def \<Longrightarrow> good p (errPos def) r (k j)"
  shows "good p (errPos def) r (rbind (expect c def i) k)"
  by (rule good_rbind, rule good_mono [OF expect_good [OF assms(1)]]) (use assms(2) in auto)

lemma good_expect_if:
  assumes "i \<le> length def" "\<And>j. i \<le> j \<Longrightarrow> j \<le> length def \<Longrightarrow> good p (errPos def) r (k j)"
  shows "good p (errPos def) r (rbind (if def = [] then Val i else expect c def i) k)"
  using assms by (auto intro!: good_expect)

lemma good_elem:
  assumes "parses e def i True m" "i \<le> length def" "nestedPtr e \<Longrightarrow> r NilDeref"
    "\<And>V j ok ok'. tyOf e V \<Longrightarrow> i \<le> j \<Longrightarrow> j \<le> length def \<Longrightarrow> Type_IsValueType V = Ok ok \<Longrightarrow>
       Type_IsKeyType V = Ok ok' \<Longrightarrow> good p (errPos def) r (k V j)"
  shows "good p (errPos def) r (rbind m (\<lambda>(V, j). k V j))"
proof (rule good_rbind)
  show "good (parsed e def i) (errPos def) r m"
    by (rule good_mono [OF assms(1)]) (use assms(3) in auto)
  show "good p (errPos def) r (case x of (V, j) \<Rightarrow> k V j)" if "parsed e def i x" for x
  proof -
    obtain V j where x: "x = (V, j)" by (cases x)
    with that have V: "tyOf e V" "i \<le> j" "j \<le> length def" by (simp_all add: parsed_def)
    with valid_checks [OF tyOf_valid [OF V(1)]] assms(4) x show ?thesis by auto
  qed
qed

lemma good_match:
  assumes "i \<le> length def"
    "\<And>tag' j. i \<le> j \<Longrightarrow> j \<le> length def \<Longrightarrow>
      tag' = tag \<or> tag = T_i64 \<and> vt \<noteq> i64type \<and> tag' = T_enum \<Longrightarrow> good p (errPos def) r (k tag' j)"
  shows "good p (errPos def) r (rbind (matchTag vt def i tag) (\<lambda>(tag', j). k tag' j))"
  by (rule good_rbind, rule good_mono [OF matchTag_good [OF assms(1)]]) (use assms(2) in auto)

lemma good_token2:
  assumes "i \<le> length def"
    "\<And>tk j. i \<le> j \<Longrightarrow> j \<le> length def \<Longrightarrow> good p (errPos def) r (k tk j)"
  shows "good p (errPos def) r (rbind (readToken def i e) (\<lambda>(tk, j). k tk j))"
  using assms by (intro good_token) auto

lemma good_lift: "m = Ok x \<Longrightarrow> good p q r (k x) \<Longrightarrow> good p q r (rbind (lift_go m) k)"
  by simp

lemma good_if: "(c \<Longrightarrow> good p q r a) \<Longrightarrow> (\<not> c \<Longrightarrow> good p q r b) \<Longrightarrow> good p q r (if c then a else b)"
  by simp

text \<open>The choice between set and list.\<close>

lemma good_tag:
  assumes "q e" "\<And>tag. tag = T_set \<or> tag = T_list \<Longrightarrow> good p q r (k tag)"
  shows "good p q r (rbind (if A then Val T_set else if B then Val T_list else Err e) k)"
  using assms by simp

lemmas good_steps = good_if good_match good_token2 good_expect good_expect_if good_lift

lemma doParseType_good: "i \<le> length def \<Longrightarrow> goType vt \<Longrightarrow> parses vt def i ap (doParseType vt def i ap)"
proof (induction vt arbitrary: i ap)
  case (RBasic k p n)
  have "parses (RBasic k p n) def i ap
      (rbind (matchTag (RBasic k p n) def i tag) (\<lambda>(tag, j). Val (Type tag None None (RBasic k p n), j)))"
    if "kindTag (RBasic k p n) = Val tag" for tag
    by (rule good_rbind, rule good_mono [OF matchTag_good [OF RBasic(1)]])
       (use kindTag_basic [OF that] in \<open>auto simp: parsed_def\<close>)
  moreover have "good (\<lambda>t. True) (errPos def) (\<lambda>p. False) (kindTag (RBasic k p n))" by simp
  ultimately show ?case
    by (cases "kindTag (RBasic k p n)") (simp_all del: kindTag.simps)
next
  case (RStruct j n)
  show ?case
    by simp (rule good_rbind, rule good_mono [OF matchTag_good [OF RStruct(1)]], auto simp: parsed_def)
next
  case (RArray n l e)
  then show ?case by simp
next
  case (RPtr e)
  show ?case
  proof (cases ap)
    case True
    have e: "parses e def i False (doParseType e def i False)"
      using RPtr.IH [of i False] RPtr.prems by simp
    have "parses (RPtr e) def i ap (rbind (doParseType e def i False) (\<lambda>(V, i).
        Val (Type T_pointer None (Some V) (RPtr e), i)))"
    proof (cases "rt_Kind e = K_Ptr")
      case True
      then obtain e' where "e = RPtr e'" using RPtr.prems by (cases e) auto
      then show ?thesis using \<open>ap\<close> by simp
    next
      case False
      show ?thesis
        by (rule good_rbind, rule good_mono [OF e])
           (use False in \<open>auto simp: parsed_def tyOf_pointer\<close>)
    qed
    then show ?thesis using True by simp
  qed simp
next
  case (RSlice n e)
  show ?case
  proof (cases "e = bytetype")
    case True
    show ?thesis
      by (simp add: True) (rule good_rbind, rule good_mono [OF matchTag_good [OF RSlice.prems(1)]],
          auto simp: parsed_def True)
  next
    case False
    have e: "parses e def j True (doParseType e def j True)" if "j \<le> length def" for j
      using RSlice.IH [OF that, of True] RSlice.prems(2) by simp
    have "parses (RSlice n e) def i ap (doParseSlice (\<lambda>i. doParseType e def i True) (RSlice n e) def i)"
      unfolding doParseSlice_def
      by (rule good_token2 good_tag good_expect good_elem e good_lift RSlice.prems(1) | assumption |
          simp add: parsed_def False)+
    then show ?thesis using False RSlice.prems(1) by auto
  qed
next
  case (RMap n k v)
  have k: "parses k def j True (doParseType k def j True)" "parses v def j True (doParseType v def j True)"
    if "j \<le> length def" for j
    using RMap.IH(1) [OF that, of True] RMap.IH(2) [OF that, of True] RMap.prems(2) by simp_all
  show ?case
    unfolding doParseType.simps
    by (rule good_steps good_elem k RMap.prems(1) | assumption | simp add: parsed_def)+
qed

end
