(* ===== verification/TypeSyntax.thy ===== *)
theory TypeSyntax
  imports TypeParserCorrect
begin

text \<open>
  The two textual forms of a type: the descriptor of the struct tag, which \<^verbatim>\<open>ParseType\<close>
  reads, and \<^verbatim>\<open>Type.String()\<close>, the key of \<^verbatim>\<open>newTType\<close>'s cache. Parsing the descriptor gives
  back the type, and \<^verbatim>\<open>String()\<close> with the Go type identifies it.
\<close>

subsection \<open>Reading a token\<close>

lemma scan_stop: "\<not> (p < length src \<and> P (src ! p)) \<Longrightarrow> scan P src p = p"
  by (subst scan.simps) auto

lemma scan_run: "\<forall>c\<in>set w. P c \<Longrightarrow> rest = [] \<or> \<not> P (hd rest) \<Longrightarrow>
    scan P (pre @ w @ rest) (length pre) = length pre + length w"
proof (induction w arbitrary: pre)
  case Nil
  then show ?case by (intro scan_stop [THEN trans]) (auto simp: hd_conv_nth nth_append)
next
  case (Cons c w)
  from Cons.IH [of "pre @ [c]"] Cons.prems show ?case
    by (subst scan.simps) simp
qed

definition isName :: "string \<Rightarrow> bool" where
  "isName w \<longleftrightarrow> (case w of [] \<Rightarrow> False | c # cs \<Rightarrow> isident0 c \<and> (\<forall>d\<in>set cs. isident d))"

lemma isName_nonempty: "isName w \<Longrightarrow> w \<noteq> []"
  by (auto simp: isName_def)

lemma isident0_isSpace: "isident0 c \<Longrightarrow> \<not> isSpace c"
  by (auto simp: isident0_def isSpace_def Let_def)

text \<open>The source \<open>def\<close> has the text \<open>w\<close> at position \<open>i\<close>, and \<open>rest\<close> after it.\<close>

definition textAt :: "string \<Rightarrow> nat \<Rightarrow> string \<Rightarrow> bool" where
  "textAt def i w \<longleftrightarrow> i \<le> length def \<and> drop i def = w"

lemma textAt_append: "textAt def i (u @ w) \<Longrightarrow> textAt def (i + length u) w"
proof -
  assume a: "textAt def i (u @ w)"
  then have "length def - i = length u + length w" by (metis textAt_def length_append length_drop)
  moreover have "drop (length u) (drop i def) = w" using a by (simp add: textAt_def)
  ultimately show ?thesis using a by (auto simp: textAt_def add.commute)
qed

lemma textAt_split: "textAt def i w \<Longrightarrow> def = take i def @ w \<and> length (take i def) = i"
  by (auto simp: textAt_def)

lemma readToken_identifier:
  assumes "textAt def i (w @ rest)" "isName w" "rest = [] \<or> \<not> isident (hd rest)"
  shows "readToken def i e = Val (w, i + length w)"
proof -
  define pre where "pre = take i def"
  have d: "def = pre @ w @ rest" "i = length pre" using textAt_split [OF assms(1)] by (simp_all add: pre_def)
  from assms(2) obtain c cs where w: "w = c # cs" "isident0 c" "\<forall>d\<in>set cs. isident d"
    by (auto simp: isName_def split: list.splits)
  have "scan isSpace def i = i"
    using isident0_isSpace [OF w(2)] w(1) d by (intro scan_stop) simp
  moreover have "scan isident def (Suc i) = i + length w"
    using scan_run [OF w(3) assms(3), of "pre @ [c]"] w(1) d by simp
  ultimately show ?thesis using w d by (simp add: readToken_def)
qed

lemma readToken_punct:
  assumes "textAt def i (c # rest)" "\<not> isSpace c" "\<not> isident0 c"
  shows "readToken def i e = Val ([c], Suc i)"
proof -
  define pre where "pre = take i def"
  have d: "def = pre @ c # rest" "i = length pre" using textAt_split [OF assms(1)] by (simp_all add: pre_def)
  have "scan isSpace def i = i" using assms(2) d by (intro scan_stop) simp
  then show ?thesis using assms(3) d by (simp add: readToken_def)
qed

lemma readToken_end: "textAt def i [] \<Longrightarrow> readToken def i True = Val ([], i)"
  by (simp add: readToken_def textAt_def scan_stop)

text \<open>What may follow a type: the end of the tag, or a delimiter.\<close>

definition delimited :: "string \<Rightarrow> bool" where
  "delimited rest \<longleftrightarrow> rest = [] \<or> hd rest = CHR '':'' \<or> hd rest = CHR ''>''"

lemma char_classes [simp]:
  "\<not> isident CHR '':''" "\<not> isident CHR ''>''" "\<not> isident CHR ''<''" "\<not> isident CHR ''.''"
  "\<not> isident0 CHR '':''" "\<not> isident0 CHR ''>''" "\<not> isident0 CHR ''<''" "\<not> isident0 CHR ''.''"
  "\<not> isSpace CHR '':''" "\<not> isSpace CHR ''>''" "\<not> isSpace CHR ''<''" "\<not> isSpace CHR ''.''"
  by (simp_all add: isident_def isident0_def isSpace_def)

lemma delimited_not_ident: "delimited rest \<Longrightarrow> rest = [] \<or> \<not> isident (hd rest)"
  by (auto simp: delimited_def)

lemma expect_char:
  "textAt def i (c # rest) \<Longrightarrow> \<not> isSpace c \<Longrightarrow> \<not> isident0 c \<Longrightarrow> expect c def i = Val (Suc i)"
  by (simp add: expect_def readToken_punct)

subsection \<open>The syntax of tags\<close>

text \<open>
  What \<^verbatim>\<open>thriftgo\<close> writes: keywords, the name of a struct or an enum, with \<open>q\<close> the package
  that qualifies it (empty for none); a pointer is not marked.
\<close>

definition tagName :: "(rtype \<Rightarrow> string) \<Rightarrow> rtype \<Rightarrow> string" where
  "tagName q s = (if q s = [] then rt_Name s else q s @ ''.'' @ rt_Name s)"

fun tagSyntax :: "(rtype \<Rightarrow> string) \<Rightarrow> Type \<Rightarrow> string" where
  "tagSyntax q (Type t k v s) =
     (if t = T_bool then ''bool'' else if t = T_i8 then ''i8'' else if t = T_double then ''double''
      else if t = T_i16 then ''i16'' else if t = T_i32 then ''i32'' else if t = T_i64 then ''i64''
      else if t = T_string then ''string'' else if t = T_binary then ''binary''
      else if t = T_struct \<or> t = T_enum then tagName q s
      else (case (k, v) of
          (Some k', Some v') \<Rightarrow> ''map<'' @ tagSyntax q k' @ '':'' @ tagSyntax q v' @ ''>''
        | (None, Some v') \<Rightarrow>
            if t = T_set then ''set<'' @ tagSyntax q v' @ ''>''
            else if t = T_list then ''list<'' @ tagSyntax q v' @ ''>''
            else tagSyntax q v'
        | _ \<Rightarrow> []))"

text \<open>
  Names the parser can read: identifiers that it does not take for a keyword. Since it looks
  for the token anywhere in the keyword, those are the ones that are not part of it.
\<close>

definition nameOK :: "(rtype \<Rightarrow> string) \<Rightarrow> rtype \<Rightarrow> string \<Rightarrow> bool" where
  "nameOK q s kw \<longleftrightarrow> isName (rt_Name s) \<and>
     (if q s = [] then \<not> contains kw (rt_Name s) else isName (q s) \<and> \<not> contains kw (q s))"

fun namesOK :: "(rtype \<Rightarrow> string) \<Rightarrow> Type \<Rightarrow> bool" where
  "namesOK q (Type t k v s) \<longleftrightarrow>
     (t = T_struct \<longrightarrow> nameOK q s ''struct'') \<and> (t = T_enum \<longrightarrow> nameOK q s ''i64'') \<and>
     (case k of None \<Rightarrow> True | Some k' \<Rightarrow> namesOK q k') \<and>
     (case v of None \<Rightarrow> True | Some v' \<Rightarrow> namesOK q v')"

lemma identifier_keywords [simp]:
  "isName ''bool''" "isName ''i8''" "isName ''double''" "isName ''i16''"
  "isName ''i32''" "isName ''i64''" "isName ''string''" "isName ''binary''"
  "isName ''map''" "isName ''set''" "isName ''list''"
  by (simp_all add: isName_def isident_def isident0_def)

lemma matchTag_keyword:
  assumes "textAt def i (w @ rest)" "isName w" "delimited rest \<or> hd rest = CHR ''<''"
    "contains (keywordTab tag) w"
  shows "matchTag vt def i tag = Val (tag, i + length w)"
proof -
  have "rest = [] \<or> \<not> isident (hd rest)" using assms(3) by (auto simp: delimited_def)
  from readToken_identifier [OF assms(1,2) this] assms(4) assms(1,2) show ?thesis
    by (cases "def = []") (auto simp: matchTag_def textAt_def isName_def)
qed

text \<open>A name, qualified or not.\<close>

lemma doMatchStruct_name:
  assumes "textAt def i rest" "delimited rest" "rt_Name vt \<noteq> []"
  shows "doMatchStruct vt def i (rt_Name vt) = Val (True, rt_Name vt, i)"
proof (cases rest)
  case Nil
  then show ?thesis using readToken_end assms by (simp add: doMatchStruct_def)
next
  case (Cons c cs)
  then have "c = CHR '':'' \<or> c = CHR ''>''" using assms(2) by (auto simp: delimited_def)
  with readToken_punct [of def i c cs] assms Cons show ?thesis
    by (auto simp: doMatchStruct_def)
qed

lemma doMatchStruct_qualified:
  assumes "textAt def i (''.'' @ rt_Name vt @ rest)" "delimited rest" "isName (rt_Name vt)"
  shows "doMatchStruct vt def i tv = Val (True, rt_Name vt, Suc i + length (rt_Name vt))"
proof -
  have "textAt def (Suc i) (rt_Name vt @ rest)" using textAt_append [of def i "''.''"] assms(1) by simp
  from readToken_identifier [OF this assms(3) delimited_not_ident [OF assms(2)]]
    readToken_punct [of def i "CHR ''.''"] assms(1,3)
  show ?thesis
    by (auto simp: doMatchStruct_def isName_def index_def split: list.splits)
qed

lemma matchTag_name:
  assumes "textAt def i (tagName q vt @ rest)" "delimited rest" "nameOK q vt (keywordTab tag)"
  shows "matchTag vt def i tag =
    Val (if tag = T_i64 \<and> vt \<noteq> i64type then T_enum else tag, i + length (tagName q vt))"
proof -
  have id: "isName (rt_Name vt)" using assms(3) by (simp add: nameOK_def)
  have ne: "def \<noteq> []" using assms(1) id by (auto simp: textAt_def tagName_def isName_def split: if_splits)
  have idx: "\<exists>c. index w 0 = Ok c \<and> isident0 c" if "isName w" for w
    using that by (auto simp: isName_def split: list.splits)
  show ?thesis
  proof (cases "q vt = []")
    case True
    then have a: "textAt def i (rt_Name vt @ rest)" using assms(1) by (simp add: tagName_def)
    have "doMatchStruct vt def (i + length (rt_Name vt)) (rt_Name vt) =
        Val (True, rt_Name vt, i + length (rt_Name vt))"
      using doMatchStruct_name [OF textAt_append [OF a] assms(2)] id isName_nonempty by blast
    with readToken_identifier [OF a id delimited_not_ident [OF assms(2)]] True ne assms(3) idx [OF id]
    show ?thesis by (auto simp: matchTag_def nameOK_def tagName_def)
  next
    case False
    then have a: "textAt def i (q vt @ ''.'' @ rt_Name vt @ rest)" and iq: "isName (q vt)"
      using assms(1,3) by (simp_all add: tagName_def nameOK_def)
    have "doMatchStruct vt def (i + length (q vt)) (q vt) =
        Val (True, rt_Name vt, Suc (i + length (q vt)) + length (rt_Name vt))"
      by (rule doMatchStruct_qualified [OF textAt_append [OF a] assms(2) id])
    with readToken_identifier [OF a iq] False ne assms(3) idx [OF iq]
    show ?thesis by (auto simp: matchTag_def nameOK_def tagName_def)
  qed
qed

subsection \<open>Parsing the tag of a type\<close>

text \<open>The types without elements.\<close>

lemma parse_basic:
  assumes "tyOf (RBasic k p n) ty" "namesOK q ty" "textAt def i (tagSyntax q ty @ rest)" "delimited rest"
  shows "doParseType (RBasic k p n) def i ap = Val (ty, i + length (tagSyntax q ty))"
proof -
  let ?vt = "RBasic k p n"
  from assms(1) obtain t where ty: "ty = Type t None None ?vt"
    and t: "basicTagOf k = Some t \<or> basicTagOf k = Some T_i64 \<and> ?vt \<noteq> i64type \<and> t = T_enum" by auto
  have kt: "kindTag ?vt = Val tag" if "basicTagOf k = Some tag" for tag
    using that by (auto simp: basicTagOf_def T_int_def split: if_splits)
  show ?thesis
  proof (cases "t = T_enum")
    case True
    then have "basicTagOf k = Some T_i64" "?vt \<noteq> i64type" using t basicTagOf_tags by fastforce+
    moreover have "nameOK q ?vt (keywordTab T_i64)" using assms(2) ty True by (simp add: keywordTab_def)
    ultimately show ?thesis
      using matchTag_name [of def i q ?vt rest T_i64] assms(3,4) ty True kt by simp
  next
    case False
    then have k: "basicTagOf k = Some t" using t by blast
    have "isName (tagSyntax q ty) \<and> contains (keywordTab t) (tagSyntax q ty)"
      using basicTagOf_tags [OF k] ty by (auto simp: keywordTab_def)
    with matchTag_keyword [OF assms(3)] assms(4) kt [OF k] ty show ?thesis by simp
  qed
qed

lemma tagSyntax_composed:
  "tagSyntax q (Type T_map (Some K) (Some V) s) =
     ''map'' @ CHR ''<'' # tagSyntax q K @ CHR '':'' # tagSyntax q V @ ''>''"
  "tagSyntax q (Type T_set None (Some V) s) = ''set'' @ CHR ''<'' # tagSyntax q V @ ''>''"
  "tagSyntax q (Type T_list None (Some V) s) = ''list'' @ CHR ''<'' # tagSyntax q V @ ''>''"
  "tagSyntax q (Type T_pointer None (Some V) s) = tagSyntax q V"
  by simp_all

text \<open>
  The text \<open>w\<close> is read as a descriptor \<open>ty\<close> of the Go type \<open>vt\<close>, wherever it stands and
  whatever delimiter follows; a pointer only where pointers are allowed.
\<close>

definition parses :: "rtype \<Rightarrow> string \<Rightarrow> Type \<Rightarrow> bool" where
  "parses vt w ty \<longleftrightarrow>
     (\<forall>def i rest ap. textAt def i (w @ rest) \<longrightarrow> delimited rest \<longrightarrow> (rt_Kind vt = K_Ptr \<longrightarrow> ap) \<longrightarrow>
        doParseType vt def i ap = Val (ty, i + length w))"

lemma parsesI:
  "(\<And>def i rest ap. textAt def i (w @ rest) \<Longrightarrow> delimited rest \<Longrightarrow> (rt_Kind vt = K_Ptr \<Longrightarrow> ap) \<Longrightarrow>
      doParseType vt def i ap = Val (ty, i + length w)) \<Longrightarrow> parses vt w ty"
  by (auto simp: parses_def)

lemma parsesD:
  "parses vt w ty \<Longrightarrow> textAt def i (w @ rest) \<Longrightarrow> delimited rest \<Longrightarrow> (rt_Kind vt = K_Ptr \<Longrightarrow> ap) \<Longrightarrow>
   doParseType vt def i ap = Val (ty, i + length w)"
  by (auto simp: parses_def)

lemma parses_ParseType: "parses vt w ty \<Longrightarrow> ParseType vt w = Val ty"
  using parsesD [of vt w ty w 0 "[]" True] by (simp add: ParseType_def textAt_def delimited_def)

lemma parses_pointer:
  "parses e w v \<Longrightarrow> rt_Kind e \<noteq> K_Ptr \<Longrightarrow> parses (RPtr e) w (Type T_pointer None (Some v) (RPtr e))"
  by (auto simp: parses_def)

lemma parses_keyword:
  assumes "kindTag vt = Val tag" "isName w" "contains (keywordTab tag) w" "vt = RBasic k p n"
  shows "parses vt w (Type tag None None vt)"
  by (rule parsesI) (use assms matchTag_keyword [where w = w and tag = tag] in simp)

lemma parses_slice:
  assumes "parses e w v" "Type_IsValueType v = Ok True" "e \<noteq> bytetype"
    and kw: "kw = (if t = T_set then ''set'' else ''list'')" "t = T_set \<or> t = T_list"
  shows "parses (RSlice n e) (kw @ CHR ''<'' # w @ ''>'') (Type t None (Some v) (RSlice n e))"
proof (rule parsesI)
  fix def i rest ap
  assume "textAt def i ((kw @ CHR ''<'' # w @ ''>'') @ rest)" "delimited rest"
  then have at: "textAt def i (kw @ CHR ''<'' # w @ CHR ''>'' # rest)" by simp
  define i1 where "i1 = i + length kw"
  define i3 where "i3 = Suc i1 + length w"
  have 1: "textAt def i1 (CHR ''<'' # w @ CHR ''>'' # rest)" unfolding i1_def by (rule textAt_append [OF at])
  have 2: "textAt def (Suc i1) (w @ CHR ''>'' # rest)" using textAt_append [of def i1 "''<''"] 1 by simp
  have 3: "textAt def i3 (CHR ''>'' # rest)" unfolding i3_def by (rule textAt_append [OF 2])
  have "readToken def i False = Val (kw, i1)"
    using readToken_identifier [OF at] kw(1) by (simp add: i1_def)
  moreover have "expect CHR ''<'' def i1 = Val (Suc i1)" "expect CHR ''>'' def i3 = Val (Suc i3)"
    using expect_char [OF 1] expect_char [OF 3] by simp_all
  moreover have "doParseType e def (Suc i1) True = Val (v, i3)"
    using parsesD [OF assms(1) 2] by (simp add: delimited_def i3_def)
  moreover have "def \<noteq> []" using at kw(1) by (auto simp: textAt_def split: if_splits)
  ultimately show "doParseType (RSlice n e) def i ap =
      Val (Type t None (Some v) (RSlice n e), i + length (kw @ CHR ''<'' # w @ ''>''))"
    using assms(2,3) kw by (auto simp: doParseSlice_def i1_def i3_def)
qed

lemma parses_map:
  assumes "parses k wk K" "parses v wv V" "Type_IsKeyType K = Ok True" "Type_IsValueType V = Ok True"
  shows "parses (RMap n k v) (''map'' @ CHR ''<'' # wk @ CHR '':'' # wv @ ''>'')
    (Type T_map (Some K) (Some V) (RMap n k v))"
proof (rule parsesI)
  fix def i rest ap
  assume "textAt def i ((''map'' @ CHR ''<'' # wk @ CHR '':'' # wv @ ''>'') @ rest)" "delimited rest"
  then have at: "textAt def i (''map'' @ CHR ''<'' # wk @ CHR '':'' # wv @ CHR ''>'' # rest)" by simp
  define i1 where "i1 = Suc (i + 3)"
  define i2 where "i2 = i1 + length wk"
  define i3 where "i3 = Suc i2 + length wv"
  have 0: "textAt def (i + 3) (CHR ''<'' # wk @ CHR '':'' # wv @ CHR ''>'' # rest)"
    using textAt_append [OF at] by (simp add: numeral_3_eq_3)
  have 1: "textAt def i1 (wk @ CHR '':'' # wv @ CHR ''>'' # rest)"
    using textAt_append [of def "i + 3" "''<''"] 0 by (simp add: i1_def)
  have 2: "textAt def i2 (CHR '':'' # wv @ CHR ''>'' # rest)" unfolding i2_def by (rule textAt_append [OF 1])
  have 3: "textAt def (Suc i2) (wv @ CHR ''>'' # rest)" using textAt_append [of def i2 "'':''"] 2 by simp
  have 4: "textAt def i3 (CHR ''>'' # rest)" unfolding i3_def by (rule textAt_append [OF 3])
  have "matchTag (RMap n k v) def i T_map = Val (T_map, i + 3)"
    using matchTag_keyword [OF at] by (simp add: keywordTab_def)
  moreover have "expect CHR ''<'' def (i + 3) = Val i1" "expect CHR '':'' def i2 = Val (Suc i2)"
    "expect CHR ''>'' def i3 = Val (Suc i3)"
    using expect_char [OF 0] expect_char [OF 2] expect_char [OF 4] by (simp_all add: i1_def)
  moreover have "doParseType k def i1 True = Val (K, i2)"
    using parsesD [OF assms(1) 1] by (simp add: delimited_def i2_def)
  moreover have "doParseType v def (Suc i2) True = Val (V, i3)"
    using parsesD [OF assms(2) 3] by (simp add: delimited_def i3_def)
  moreover have "def \<noteq> []" using at by (auto simp: textAt_def)
  ultimately show "doParseType (RMap n k v) def i ap = Val (Type T_map (Some K) (Some V) (RMap n k v),
      i + length (''map'' @ CHR ''<'' # wk @ CHR '':'' # wv @ ''>''))"
    using assms(3,4) by (simp add: i1_def i2_def i3_def)
qed

lemma parse_syntax:
  "tyOf vt ty \<Longrightarrow> namesOK q ty \<Longrightarrow> parses vt (tagSyntax q ty) ty"
proof (induction vt arbitrary: ty)
  case (RBasic k p n)
  then show ?case by (intro parsesI parse_basic)
next
  case (RStruct j n)
  then show ?case
    using matchTag_name [of _ _ q "RStruct j n" _ T_struct] by (auto simp: parses_def keywordTab_def)
next
  case (RArray n l e)
  then show ?case by simp
next
  case (RPtr e)
  then obtain v where v: "ty = Type T_pointer None (Some v) (RPtr e)" "tyOf e v" "ty_T v \<noteq> T_pointer"
    by auto
  have "rt_Kind e \<noteq> K_Ptr"
    using v(2,3) tyOf_pointer [OF v(2)] basicTagOf_def by (cases e) auto
  with RPtr.IH [OF v(2)] RPtr.prems v parses_pointer show ?case by simp
next
  case (RSlice n e)
  show ?case
  proof (cases "e = bytetype")
    case True
    with RSlice.prems matchTag_keyword [of _ _ "''binary''" _ T_binary "RSlice n e"]
    show ?thesis by (auto simp: parses_def keywordTab_def)
  next
    case False
    with RSlice.prems(1) obtain t v where v: "ty = Type t None (Some v) (RSlice n e)"
      "t = T_set \<or> t = T_list" "tyOf e v" "Type_IsValueType v = Ok True" by auto
    with parses_slice [OF RSlice.IH [OF v(3)] v(4) False refl v(2)] RSlice.prems(2)
    show ?thesis by (auto simp: tagSyntax_composed simp del: tagSyntax.simps)
  qed
next
  case (RMap n k v)
  then obtain K V where ty: "ty = Type T_map (Some K) (Some V) (RMap n k v)" "tyOf k K" "tyOf v V"
    "Type_IsKeyType K = Ok True" "Type_IsValueType V = Ok True" by auto
  from parses_map [OF RMap.IH(1) [OF ty(2)] RMap.IH(2) [OF ty(3)] ty(4,5)] RMap.prems(2) ty(1)
  show ?case by (simp add: tagSyntax_composed del: tagSyntax.simps)
qed

subsection \<open>\<^verbatim>\<open>Type.String()\<close>\<close>

text \<open>\<^verbatim>\<open>strconv.Itoa\<close> of the tag in \<^verbatim>\<open>Type(Tag(%d))\<close>.\<close>

function decimal :: "nat \<Rightarrow> string" where
  "decimal n = (if n < 10 then [char_of (48 + n)] else decimal (n div 10) @ [char_of (48 + n mod 10)])"
  by pat_completeness auto
termination by (relation "measure id") auto

declare decimal.simps [simp del]

fun Type_String :: "Type \<Rightarrow> string go" where
  "Type_String (Type t k v s) =
     (if t = T_bool then Ok ''bool'' else if t = T_i8 then Ok ''i8''
      else if t = T_double then Ok ''double'' else if t = T_i16 then Ok ''i16''
      else if t = T_i32 then Ok ''i32'' else if t = T_i64 then Ok ''i64''
      else if t = T_string then Ok ''string'' else if t = T_struct then Ok (rt_Name s)
      else if t = T_map then
        gobind (case k of None \<Rightarrow> Panic NilDeref | Some k' \<Rightarrow> Type_String k') (\<lambda>a.
        gobind (case v of None \<Rightarrow> Panic NilDeref | Some v' \<Rightarrow> Type_String v') (\<lambda>b.
        Ok (''map<'' @ a @ '':'' @ b @ ''>'')))
      else if t = T_set then
        gobind (case v of None \<Rightarrow> Panic NilDeref | Some v' \<Rightarrow> Type_String v') (\<lambda>a. Ok (''set<'' @ a @ ''>''))
      else if t = T_list then
        gobind (case v of None \<Rightarrow> Panic NilDeref | Some v' \<Rightarrow> Type_String v') (\<lambda>a. Ok (''list<'' @ a @ ''>''))
      else if t = T_enum then Ok ''enum''
      else if t = T_binary then Ok ''binary''
      else if t = T_pointer then
        gobind (case v of None \<Rightarrow> Panic NilDeref | Some v' \<Rightarrow> Type_String v') (\<lambda>a. Ok (CHR ''*'' # a))
      else Ok (''Type(Tag('' @ decimal (unat t) @ ''))''))"

text \<open>The printed form of a type without elements, of the same Go type.\<close>

lemma String_basic:
  assumes "tyOf (RBasic k p n) ty1" "tyOf (RBasic k p n) ty2"
  shows "ty1 = ty2 \<or> (\<exists>a b. Type_String ty1 = Ok a \<and> Type_String ty2 = Ok b \<and>
    (a = ''i64'' \<and> b = ''enum'' \<or> a = ''enum'' \<and> b = ''i64''))"
  using assms by auto

lemma Type_String_Ok: "tyOf vt ty \<Longrightarrow> \<exists>a. Type_String ty = Ok a"
  by (induction vt arbitrary: ty) (force split: if_splits dest!: basicTagOf_tags)+

text \<open>A key ends at the first colon that two keys of the same Go type share.\<close>

lemma String_key:
  assumes "tyOf k K1" "tyOf k K2" "Type_IsKeyType K1 = Ok True" "Type_String K1 = Ok a"
    "Type_String K2 = Ok b" "a @ CHR '':'' # x = b @ CHR '':'' # y"
  shows "K1 = K2 \<and> x = y"
proof (cases k)
  case (RBasic kd p n)
  from String_basic [of kd p n K1 K2] assms RBasic show ?thesis by auto
next
  case (RPtr e)
  then obtain v1 v2 where v: "K1 = Type T_pointer None (Some v1) (RPtr e)" "tyOf e v1"
    "K2 = Type T_pointer None (Some v2) (RPtr e)" "tyOf e v2"
    using assms(1,2) by auto
  then have "ty_T v1 = T_struct" using assms(3) by (auto simp: Type_IsKeyType_def ty_deref_def)
  then obtain i n where "e = RStruct i n" using tyOf_struct [OF v(2)] by blast
  then show ?thesis using v assms(4-6) by auto
next
  case (RSlice n e)
  then show ?thesis using assms(1,3) by (auto simp: Type_IsKeyType_def split: if_splits)
qed (use assms in \<open>auto simp: Type_IsKeyType_def\<close>)

lemma String_inj:
  "tyOf vt ty1 \<Longrightarrow> tyOf vt ty2 \<Longrightarrow> Type_String ty1 = Type_String ty2 \<Longrightarrow> ty1 = ty2"
proof (induction vt arbitrary: ty1 ty2)
  case (RBasic k p n)
  from String_basic [OF RBasic(1,2)] RBasic(3) show ?case by auto
next
  case (RPtr e)
  then obtain v1 v2 where v: "ty1 = Type T_pointer None (Some v1) (RPtr e)" "tyOf e v1"
    "ty2 = Type T_pointer None (Some v2) (RPtr e)" "tyOf e v2" by auto
  obtain a b where "Type_String v1 = Ok a" "Type_String v2 = Ok b"
    using Type_String_Ok v(2,4) by blast
  with RPtr.IH [OF v(2,4)] RPtr.prems(3) v(1,3) show ?case by simp
next
  case (RSlice n e)
  show ?case
  proof (cases "e = bytetype")
    case False
    with RSlice.prems(1,2) obtain t1 v1 t2 v2 where v:
      "ty1 = Type t1 None (Some v1) (RSlice n e)" "t1 = T_set \<or> t1 = T_list" "tyOf e v1"
      "ty2 = Type t2 None (Some v2) (RSlice n e)" "t2 = T_set \<or> t2 = T_list" "tyOf e v2"
      by auto
    obtain a b where "Type_String v1 = Ok a" "Type_String v2 = Ok b"
      using Type_String_Ok v(3,6) by blast
    with RSlice.IH [OF v(3,6)] RSlice.prems(3) v(1,2,4,5) show ?thesis by auto
  qed (use RSlice.prems in simp)
next
  case (RMap n k v)
  then obtain K1 V1 K2 V2 where kv:
    "ty1 = Type T_map (Some K1) (Some V1) (RMap n k v)" "tyOf k K1" "tyOf v V1"
    "ty2 = Type T_map (Some K2) (Some V2) (RMap n k v)" "tyOf k K2" "tyOf v V2"
    "Type_IsKeyType K1 = Ok True" by auto
  obtain a1 b1 a2 b2 where s: "Type_String K1 = Ok a1" "Type_String V1 = Ok b1"
    "Type_String K2 = Ok a2" "Type_String V2 = Ok b2"
    using Type_String_Ok [OF kv(2)] Type_String_Ok [OF kv(3)] Type_String_Ok [OF kv(5)]
      Type_String_Ok [OF kv(6)] by blast
  then have "a1 @ CHR '':'' # b1 @ ''>'' = a2 @ CHR '':'' # b2 @ ''>''"
    using RMap.prems(3) kv(1,4) by simp
  from String_key [OF kv(2,5,7) s(1,3) this] have "K1 = K2" "b1 = b2" by auto
  with RMap.IH(2) [OF kv(3,6)] s kv(1,4) show ?case by simp
qed auto

end
