(* ===== verification/ResolverCorrect.thy ===== *)
theory ResolverCorrect
  imports Resolver TypeSyntax DescCorrect "HOL-Library.Multiset"
begin

text \<open>
  What the resolver guarantees: on success it has one field per tagged field of the struct,
  with a type that describes the Go type, distinct ids in increasing order, and the rules on
  pointers and on \<^verbatim>\<open>nocopy\<close> kept; its only panic is the parser's. With that, the descriptor
  \<^verbatim>\<open>newStructDesc\<close> builds from its result is well-formed.
\<close>

subsection \<open>Trimming\<close>

definition graphic :: "char \<Rightarrow> bool" where
  "graphic c \<longleftrightarrow> (let n = of_char c :: nat in 33 \<le> n \<and> n < 127)"

lemma trimWith_graphic:
  assumes "\<forall>w\<in>set ws. w \<noteq> [] \<longrightarrow> \<not> graphic (hd w)" "s = [] \<or> graphic (hd s)"
  shows "trimWith ws s = s"
proof -
  have "find (\<lambda>w. w \<noteq> [] \<and> s \<noteq> [] \<and> take (length w) s = w) ws = None"
    using assms by (force simp: find_None_iff dest: arg_cong [of _ _ hd])
  then show ?thesis by (subst trimWith.simps) simp
qed

lemma utf8Spaces_ends: "w \<in> set utf8Spaces \<Longrightarrow> \<not> graphic (hd w) \<and> \<not> graphic (last w)"
  by (auto simp: utf8Spaces_def graphic_def of_char_of)

text \<open>A string whose first and last bytes are printable ASCII is trimmed already.\<close>

lemma TrimSpace_graphic: "s = [] \<or> graphic (hd s) \<and> graphic (last s) \<Longrightarrow> TrimSpace s = s"
  unfolding TrimSpace_def
  by (subst (1 2) trimWith_graphic) (auto simp: utf8Spaces_ends hd_rev)

subsection \<open>One field\<close>

definition taggedField :: "structField \<Rightarrow> bool" where
  "taggedField sf \<longleftrightarrow> \<not> sf_Anonymous sf \<and> sf_PkgPath sf = [] \<and> lookupStructTag (sf_Tag sf) \<noteq> None"

definition structPtr :: "Type \<Rightarrow> bool" where
  "structPtr ty \<longleftrightarrow> (case ty_V ty of Some v \<Rightarrow> ty_T v = T_struct | None \<Rightarrow> False)"

definition resolvedFrom :: "gval option \<Rightarrow> structField \<Rightarrow> Field \<Rightarrow> bool" where
  "resolvedFrom mem sf f \<longleftrightarrow>
     F_off f = sf_Offset sf \<and> tyOf (sf_Type sf) (F_Type f) \<and>
     (ty_T (F_Type f) = T_pointer \<longrightarrow> F_Spec f = Optional \<or> structPtr (F_Type f)) \<and>
     (F_NoCopy f \<longrightarrow> Type_Tag (F_Type f) = Ok T_string) \<and>
     (case mem of None \<Rightarrow> F_Default f = None | Some m \<Rightarrow> fieldAt mem (sf_Offset sf) = Ok (F_Default f))"

text \<open>The struct after \<^verbatim>\<open>InitDefault\<close> has a cell for each field.\<close>

definition hasCell :: "gval option \<Rightarrow> structField \<Rightarrow> bool" where
  "hasCell mem sf \<longleftrightarrow> mem = None \<or> (\<exists>v. fieldAt mem (sf_Offset sf) = Ok v)"

lemma parseDigits_le: "n \<le> 65535 \<Longrightarrow> good (\<lambda>m. m \<le> 65535) (\<lambda>e. True) (\<lambda>p. False) (parseDigits s n)"
  by (induction s n rule: parseDigits.induct) (auto simp: Let_def)

lemma ParseUint16_le: "good (\<lambda>m. m \<le> 65535) (\<lambda>e. True) (\<lambda>p. False) (ParseUint16 s)"
  by (simp add: ParseUint16_def parseDigits_le)

lemma Type_Tag_Ok: "valid_Type ty \<Longrightarrow> \<exists>t. Type_Tag ty = Ok t"
  by (induction ty rule: Type_Tag.induct) (auto split: option.splits if_splits)

lemma good_wrap: "good p (\<lambda>e. True) r m \<Longrightarrow> good p (\<lambda>e. True) r (wrap_err w m)"
  by (cases m) auto

lemma scanOptions_good:
  "valid_Type pt \<Longrightarrow> (fv \<Longrightarrow> Type_Tag pt = Ok T_string) \<Longrightarrow>
   good (\<lambda>nc. nc \<longrightarrow> Type_Tag pt = Ok T_string) (\<lambda>e. True) (\<lambda>p. False) (scanOptions name pt ft fv)"
proof (induction name pt ft fv rule: scanOptions.induct)
  case (2 name pt opt ft fv)
  from Type_Tag_Ok [OF 2(2)] obtain t where "Type_Tag pt = Ok t" by blast
  with 2 show ?case by auto
qed simp

lemma ParseType_good:
  assumes "goType vt"
  shows "good (tyOf vt) (errPos def) (\<lambda>p. p = NilDeref \<and> nestedPtr vt) (ParseType vt def)"
  unfolding ParseType_def
  by (rule good_rbind, rule good_mono [OF doParseType_good [OF _ assms]]) (auto simp: parsed_def)

lemma good_bind_True:
  "good p' (\<lambda>e. True) r' m \<Longrightarrow> (\<And>p. r' p \<Longrightarrow> r p) \<Longrightarrow> (\<And>x. m = Val x \<Longrightarrow> p' x \<Longrightarrow> good p (\<lambda>e. True) r (k x)) \<Longrightarrow>
   good p (\<lambda>e. True) r (rbind m k)"
  by (cases m) auto

lemma resolveField_good:
  assumes "goType (sf_Type sf)" "hasCell mem sf"
  shows "good (\<lambda>r. case r of
      None \<Rightarrow> \<not> taggedField sf
    | Some (n, f) \<Rightarrow> taggedField sf \<and> n \<notin> ids \<and> n \<le> 65535 \<and> F_ID f = of_nat n \<and> resolvedFrom mem sf f)
    (\<lambda>e. True) (\<lambda>p. p = NilDeref \<and> nestedPtr (sf_Type sf)) (resolveField mem ids sf)" (is "good ?p _ ?r _")
proof (cases "taggedField sf")
  case False
  then show ?thesis by (auto simp: taggedField_def resolveField_def)
next
  case True
  then obtain vs where vs: "lookupStructTag (sf_Tag sf) = Some vs" by (auto simp: taggedField_def)
  show ?thesis
  proof (cases vs)
    case Nil
    then show ?thesis using vs True by (simp add: resolveField_def taggedField_def)
  next
    case (Cons f0 ft0)
    obtain tv1 ft1 where n1: "nextValue ''default'' ft0 = (tv1, ft1)" by fastforce
    obtain tv2 ft2 where n2: "nextValue [] ft1 = (tv2, ft2)" by fastforce
    have eq: "resolveField mem ids sf =
       rbind (wrap_err (InvalidFieldNumber (sf_Name sf)) (ParseUint16 f0)) (\<lambda>n.
       if n \<in> ids then Err (DuplicatedID n (sf_Name sf))
       else rbind (parseRequiredness (sf_Name sf) tv1) (\<lambda>rx.
       rbind (wrap_err BadDescriptor (ParseType (sf_Type sf) tv2)) (\<lambda>pt.
       rbind (if rx \<noteq> Optional \<and> ty_T pt = T_pointer
              then rbind (lift_go (ty_deref (ty_V pt))) (\<lambda>v. Val (ty_T v \<noteq> T_struct))
              else Val False) (\<lambda>bad.
       if bad then Err (OnlyOptionalPtr (sf_Name sf))
       else rbind (scanOptions (sf_Name sf) pt ft2 False) (\<lambda>nocopy.
       rbind (case mem of None \<Rightarrow> Val None
              | Some _ \<Rightarrow> lift_go (fieldAt mem (sf_Offset sf))) (\<lambda>rv.
       Val (Some (n, \<lparr>F_off = sf_Offset sf, F_ID = of_nat n, F_Type = pt,
              F_NoCopy = nocopy, F_Spec = rx, F_Default = rv\<rparr>))))))))"
      using True vs Cons n1 n2 by (simp add: resolveField_def taggedField_def cong: if_cong)
    have ty: "good (tyOf (sf_Type sf)) (\<lambda>e. True) ?r (wrap_err BadDescriptor (ParseType (sf_Type sf) tv2))"
      by (rule good_wrap, rule good_mono [OF ParseType_good [OF assms(1)]]) auto
    have bad: "good (\<lambda>bad. \<not> bad \<longrightarrow> ty_T pt = T_pointer \<longrightarrow> rx = Optional \<or> structPtr pt) (\<lambda>e. True) (\<lambda>p. False)
       (if rx \<noteq> Optional \<and> ty_T pt = T_pointer
              then rbind (lift_go (ty_deref (ty_V pt))) (\<lambda>v. Val (ty_T v \<noteq> T_struct))
              else Val False)" if "tyOf (sf_Type sf) pt" for rx pt
      using tyOf_valid [OF that] by (cases pt) (auto simp: structPtr_def ty_deref_def split: option.splits)
    have def: "good (\<lambda>rv. case mem of None \<Rightarrow> rv = None | Some m \<Rightarrow> fieldAt mem (sf_Offset sf) = Ok rv)
       (\<lambda>e. True) (\<lambda>p. False)
       (case mem of None \<Rightarrow> Val None | Some _ \<Rightarrow> lift_go (fieldAt mem (sf_Offset sf)))"
      using assms(2) by (auto simp: hasCell_def split: option.splits)
    show ?thesis
      unfolding eq
      apply (rule good_bind_True [OF good_wrap [OF ParseUint16_le]], simp)
      apply (rule good_if, simp)
      apply (rule good_bind_True [where p' = "\<lambda>x. True" and r' = "\<lambda>x. False"], simp add: parseRequiredness_def, simp)
      apply (rule good_bind_True [OF ty], simp)
      apply (rule good_bind_True [OF bad], assumption, simp)
      apply (rule good_if, simp)
      apply (rule good_bind_True [OF scanOptions_good], erule tyOf_valid, simp, simp)
      apply (rule good_bind_True [OF def], simp)
      using True by (cases mem) (simp_all add: resolvedFrom_def)
  qed
qed

subsection \<open>All fields\<close>

lemma resolveLoop_good:
  assumes "\<And>sf. sf \<in> set sfs \<Longrightarrow> goType (sf_Type sf) \<and> hasCell mem sf"
    "ids \<subseteq> {..65535}" "F_ID ` set ret \<subseteq> of_nat ` ids" "distinct (map F_ID ret)"
  shows "good (\<lambda>ret'. distinct (map F_ID ret') \<and>
      (\<exists>fs. ret' = ret @ fs \<and> list_all2 (resolvedFrom mem) (filter taggedField sfs) fs))
    (\<lambda>e. True) (\<lambda>p. p = NilDeref \<and> (\<exists>sf\<in>set sfs. nestedPtr (sf_Type sf))) (resolveLoop mem sfs ids ret)"
  using assms
proof (induction sfs arbitrary: ids ret)
  case Nil
  then show ?case by simp
next
  case (Cons sf sfs)
  have sf: "goType (sf_Type sf)" "hasCell mem sf" using Cons.prems(1) by auto
  show ?case
    unfolding resolveLoop.simps
  proof (rule good_bind_True [OF resolveField_good [OF sf]], simp, goal_cases)
    case (1 x)
    note x = 1
    show ?case
    proof (cases x)
      case None
      then have "\<not> taggedField sf" using x by simp
      moreover from Cons.IH [OF _ Cons.prems(2-4)] Cons.prems(1)
      have "good (\<lambda>ret'. distinct (map F_ID ret') \<and>
          (\<exists>fs. ret' = ret @ fs \<and> list_all2 (resolvedFrom mem) (filter taggedField sfs) fs))
        (\<lambda>e. True) (\<lambda>p. p = NilDeref \<and> (\<exists>sf\<in>set sfs. nestedPtr (sf_Type sf))) (resolveLoop mem sfs ids ret)"
        by auto
      ultimately show ?thesis using None by (auto elim: good_mono)
    next
      case (Some nf)
      then obtain n f where nf: "x = Some (n, f)" by (cases nf) auto
      with x have f: "taggedField sf" "n \<notin> ids" "n \<le> 65535" "F_ID f = of_nat n" "resolvedFrom mem sf f"
        by auto
      have new: "F_ID f \<notin> F_ID ` set ret"
      proof
        assume "F_ID f \<in> F_ID ` set ret"
        then obtain m where m: "m \<in> ids" "(of_nat n :: 16 word) = of_nat m"
          using Cons.prems(3) f(4) by auto
        have "unat (of_nat k :: 16 word) = k" if "k \<le> 65535" for k
          by (rule unat_of_nat_lt) (use that in simp)
        then have "n = m" using m Cons.prems(2) f(3) by (metis atMost_iff subsetD)
        with m f(2) show False by simp
      qed
      have "F_ID ` set (ret @ [f]) \<subseteq> of_nat ` insert n ids" using Cons.prems(3) f(4) by auto
      from Cons.IH [OF _ _ this] Cons.prems f new
      have "good (\<lambda>ret'. distinct (map F_ID ret') \<and>
          (\<exists>fs. ret' = (ret @ [f]) @ fs \<and> list_all2 (resolvedFrom mem) (filter taggedField sfs) fs))
        (\<lambda>e. True) (\<lambda>p. p = NilDeref \<and> (\<exists>sf\<in>set sfs. nestedPtr (sf_Type sf)))
        (resolveLoop mem sfs (insert n ids) (ret @ [f]))"
        by auto
      then show ?thesis using nf f(1,5) by (auto elim!: good_mono)
    qed
  qed
qed

definition initMem :: "goStruct \<Rightarrow> gval option" where
  "initMem g = (case gs_init g of None \<Rightarrow> None | Some f \<Rightarrow> Some (f (gs_zero g)))"

lemma sort_key_distinct:
  fixes k :: "'a \<Rightarrow> 'b::linorder"
  assumes "distinct (map k xs)"
  shows "sorted_wrt (<) (map k (sort_key k xs))" "distinct (map k (sort_key k xs))"
proof -
  have "mset (map k (sort_key k xs)) = mset (map k xs)" by simp
  then show d: "distinct (map k (sort_key k xs))" using assms by (metis mset_eq_imp_distinct_iff)
  then show "sorted_wrt (<) (map k (sort_key k xs))" by (simp add: strict_sorted_iff)
qed

lemma DoResolveFields_good:
  assumes "\<And>sf. sf \<in> set sfs \<Longrightarrow> goType (sf_Type sf) \<and> hasCell (initMem g) sf"
  shows "good (\<lambda>ff. sorted_wrt (<) (map F_ID ff) \<and>
      (\<exists>fs. mset ff = mset fs \<and> list_all2 (resolvedFrom (initMem g)) (filter taggedField sfs) fs))
    (\<lambda>e. True) (\<lambda>p. p = NilDeref \<and> (\<exists>sf\<in>set sfs. nestedPtr (sf_Type sf))) (DoResolveFields g sfs)"
proof -
  have "good (\<lambda>ret'. distinct (map F_ID ret') \<and>
      (\<exists>fs. ret' = [] @ fs \<and> list_all2 (resolvedFrom (initMem g)) (filter taggedField sfs) fs))
    (\<lambda>e. True) (\<lambda>p. p = NilDeref \<and> (\<exists>sf\<in>set sfs. nestedPtr (sf_Type sf)))
    (resolveLoop (initMem g) sfs {} [])"
    by (rule resolveLoop_good) (use assms in auto)
  then show ?thesis
    unfolding DoResolveFields_def initMem_def [symmetric] Let_def
    by (rule good_bind_True) (auto intro: sort_key_distinct)
qed

subsection \<open>From the Go types to the codec's conditions\<close>

text \<open>
  The Go types the codec supports (\<open>supT\<close> on descriptors): no pointer to a slice or a map, no
  map from a scalar to \<^verbatim>\<open>[]byte\<close>, and the structs are known to \<open>env\<close>.
\<close>

fun supGo :: "bool \<Rightarrow> env \<Rightarrow> rtype \<Rightarrow> bool" where
  "supGo bv env (RBasic k p n) \<longleftrightarrow> True"
| "supGo bv env (RStruct i n) \<longleftrightarrow> bv \<and> env i \<noteq> None"
| "supGo bv env (RPtr e) \<longleftrightarrow>
     (case e of RBasic k p n \<Rightarrow> True | RStruct i n \<Rightarrow> env i \<noteq> None | _ \<Rightarrow> False)"
| "supGo bv env (RSlice n e) \<longleftrightarrow> e = bytetype \<or> supGo bv env e"
| "supGo bv env (RMap n k v) \<longleftrightarrow> supGo bv env k \<and> supGo bv env v \<and>
     ((\<exists>n. v = RSlice n bytetype) \<longrightarrow> (\<exists>e. k = RPtr e))"
| "supGo bv env (RArray n l e) \<longleftrightarrow> False"

lemma tyOf_basic_tag: "tyOf (RBasic k p n) ty \<Longrightarrow> basicTag (ty_T ty) \<and> (k = K_String \<longleftrightarrow> ty_T ty = T_string)"
  by (auto simp: basicTag_def basicTagOf_def split: if_splits)

lemma tyOf_supT: "goType vt \<Longrightarrow> tyOf vt ty \<Longrightarrow> supGo bv env vt \<Longrightarrow> supT bv env ty"
proof (induction vt arbitrary: ty bv)
  case (RBasic k p n)
  then show ?case using tyOf_basic_tag [OF RBasic(2)] by (auto simp: abi_kinds_def)
next
  case (RPtr e)
  then obtain v where v: "ty = Type T_pointer None (Some v) (RPtr e)" "tyOf e v" "ty_T v \<noteq> T_pointer"
    by auto
  have "supGo True env e" using RPtr.prems(3) by (auto split: rtype.splits)
  then have "supT True env v" using RPtr.IH [OF _ v(2)] RPtr.prems(1) by simp
  moreover have "basicTag (ty_T v) \<or> ty_T v = T_struct \<and> struct_id (ty_S v) = struct_id (RPtr e)"
  proof (cases e)
    case (RBasic k p n)
    then show ?thesis using tyOf_basic_tag v(2) by blast
  next
    case (RStruct i n)
    then show ?thesis using v(2) by simp
  qed (use RPtr.prems(3) in auto)
  ultimately show ?case using v(1) by (simp add: basicTag_def abi_kinds_def)
next
  case (RSlice n e)
  show ?case
  proof (cases "e = bytetype")
    case False
    with RSlice.prems obtain t v where v: "ty = Type t None (Some v) (RSlice n e)"
      "t = T_set \<or> t = T_list" "tyOf e v" "Type_IsValueType v = Ok True" by auto
    with RSlice.IH [OF _ v(3)] RSlice.prems False show ?thesis by (auto simp: basicTag_def abi_kinds_def)
  qed (use RSlice.prems in \<open>simp add: basicTag_def abi_kinds_def\<close>)
next
  case (RMap n k v)
  then obtain K V where ty: "ty = Type T_map (Some K) (Some V) (RMap n k v)" "tyOf k K" "tyOf v V"
    "Type_IsKeyType K = Ok True" "Type_IsValueType V = Ok True" by auto
  have "supT bv env K" "supT bv env V"
    using RMap.IH(1) [OF _ ty(2)] RMap.IH(2) [OF _ ty(3)] RMap.prems by simp_all
  moreover have "ty_T K = T_pointer" if "ty_T V = T_binary"
  proof -
    have "\<exists>n. v = RSlice n bytetype"
      using ty(3) that by (cases v) (auto split: if_splits dest!: basicTagOf_tags)
    then show ?thesis using RMap.prems(3) ty(2) by auto
  qed
  ultimately show ?case using ty by (simp add: basicTag_def abi_kinds_def)
qed (auto simp: basicTag_def abi_kinds_def)

text \<open>A default value the user's \<^verbatim>\<open>InitDefault\<close> may set: one of the field's type.\<close>

definition defaultOK :: "Field \<Rightarrow> bool" where
  "defaultOK f \<longleftrightarrow> (case deref_default (F_Default f) of None \<Rightarrow> True
     | Some d \<Rightarrow> simpleTypes (ttype_of (F_Type f)) \<longrightarrow> confSimple True (rep_type (F_Type f)) d)"

lemma structPtr_ttype: "tyOf vt ty \<Longrightarrow> ty_T ty = T_pointer \<Longrightarrow> structPtr ty \<Longrightarrow> ttype_of ty = tSTRUCT"
  by (cases ty) (auto simp: structPtr_def ttype_of_struct split: option.splits)

lemma resolvedFrom_supField:
  assumes "resolvedFrom mem sf f" "goType (sf_Type sf)" "supGo bv env (sf_Type sf)" "defaultOK f"
  shows "supField bv env f"
proof -
  have ty: "tyOf (sf_Type sf) (F_Type f)" using assms(1) by (simp add: resolvedFrom_def)
  have sup: "supT bv env (F_Type f)" by (rule tyOf_supT [OF assms(2) ty assms(3)])
  have "F_NoCopy f \<longrightarrow> ttype_of (F_Type f) = tSTRING"
    using assms(1) supT_tag [OF sup] by (auto simp: resolvedFrom_def split: if_splits)
  with sup assms(1,4) structPtr_ttype [OF ty] show ?thesis
    by (auto simp: supField_def resolvedFrom_def defaultOK_def)
qed

text \<open>The conditions on a struct type, on the side of Go.\<close>

definition supFields :: "bool \<Rightarrow> env \<Rightarrow> goStruct \<Rightarrow> structField list \<Rightarrow> bool" where
  "supFields bv env g sfs \<longleftrightarrow>
     (\<forall>sf\<in>set sfs. goType (sf_Type sf) \<and> hasCell (initMem g) sf \<and> (taggedField sf \<longrightarrow> supGo bv env (sf_Type sf))) \<and>
     distinct (map sf_Offset sfs) \<and>
     (case gs_unknown g of None \<Rightarrow> True | Some (r, off) \<Rightarrow> off \<notin> sf_Offset ` set (filter taggedField sfs))"

lemma list_all2_in: "list_all2 P xs ys \<Longrightarrow> y \<in> set ys \<Longrightarrow> \<exists>x\<in>set xs. P x y"
  by (auto simp: list_all2_conv_all_nth in_set_conv_nth) (metis nth_mem)

lemma resolved_supStruct:
  assumes "DoResolveFields g sfs = Val ff" "supFields bv env g sfs"
    "\<And>f. f \<in> set ff \<Longrightarrow> F_ID f \<noteq> 0xffff \<and> defaultOK f"
  shows "supStruct bv env g ff"
proof -
  note sup = assms(2) [unfolded supFields_def]
  from DoResolveFields_good [of sfs g] assms(1) sup obtain fs where
    ff: "sorted_wrt (<) (map F_ID ff)" "mset ff = mset fs"
      "list_all2 (resolvedFrom (initMem g)) (filter taggedField sfs) fs"
    by auto
  have set: "set ff = set fs" using ff(2) by (metis set_mset_mset)
  have off: "map F_off fs = map sf_Offset (filter taggedField sfs)"
    using ff(3) by (intro nth_equalityI) (auto simp: list_all2_conv_all_nth resolvedFrom_def)
  have "distinct (map sf_Offset (filter taggedField sfs))"
    using sup by (simp add: distinct_map_filter)
  then have "distinct (map F_off ff)"
    using off ff(2) by (metis mset_eq_imp_distinct_iff mset_map)
  moreover have "F_off ` set ff = sf_Offset ` set (filter taggedField sfs)"
    using arg_cong [OF off, of List.set] set by simp
  moreover have "supField bv env f" if "f \<in> set ff" for f
  proof -
    from list_all2_in [OF ff(3)] that set obtain sf where
      sf: "sf \<in> set sfs" "taggedField sf" "resolvedFrom (initMem g) sf f" by auto
    with sup assms(3) [OF that] resolvedFrom_supField [OF sf(3)] show ?thesis by blast
  qed
  moreover have "distinct (map F_ID ff)" using ff(1) strict_sorted_iff by blast
  ultimately show ?thesis using sup assms(3) by (auto simp: supStruct_def split: option.splits)
qed

end
