(* ===== verification/Program.thy ===== *)
theory Program
  imports PrefetchCorrect ResolverCorrect
begin

text \<open>
  From the Go types of a program to the codec: \<open>env_of\<close> gives each struct type the descriptor
  \<^verbatim>\<open>newStructDesc\<close> builds for it, which is the environment the encoder and the decoder are
  modelled with. For the types the codec supports it is well-formed, and the descriptors that
  \<^verbatim>\<open>getOrcreateStructDesc\<close> finds or makes, with the links the prefetch left, are those of the
  environment.
\<close>

subsection \<open>The environment of a program\<close>

definition env_of :: "program \<Rightarrow> env" where
  "env_of P i = (case newStructDescOf P (RStruct i []) of Val sd \<Rightarrow> Some sd | _ \<Rightarrow> None)"

lemma newStructDescOf_struct: "newStructDescOf P (RStruct i n) = newStructDescOf P (RStruct i [])"
  by (simp add: newStructDescOf_def)

lemma newStructDescOf_ptr: "newStructDescOf P (RPtr (RStruct i n)) = newStructDescOf P (RStruct i [])"
  by (simp add: newStructDescOf_def)

lemma newStructDescOf_id:
  "newStructDescOf P rt = Val sd \<Longrightarrow> \<exists>i. struct_id rt = Some i \<and> env_of P i = Some sd"
proof -
  assume a: "newStructDescOf P rt = Val sd"
  have env: "env_of P i = Some sd" if "newStructDescOf P (RStruct i []) = Val sd" for i
    using that by (simp add: env_of_def)
  show ?thesis
  proof (cases rt rule: struct_id.cases)
    case (1 i n)
    then show ?thesis using a env newStructDescOf_struct [of P i n] by simp
  next
    case (2 i n)
    then show ?thesis using a env newStructDescOf_ptr [of P i n] by simp
  qed (use a in \<open>auto simp: newStructDescOf_def split: if_splits\<close>)
qed

text \<open>
  The program's struct types are supported: those whose fields resolve have Go types the codec
  supports, no field id 65535, and defaults of the fields' types.
\<close>

definition wfProgram :: "bool \<Rightarrow> program \<Rightarrow> bool" where
  "wfProgram bv P \<longleftrightarrow>
     (\<forall>i. case pr_struct P i of (g, sfs) \<Rightarrow>
        \<forall>ff. DoResolveFields g sfs = Val ff \<longrightarrow>
          supFields bv (env_of P) g sfs \<and> (\<forall>f\<in>set ff. F_ID f \<noteq> 0xffff \<and> defaultOK f))"

lemma newStructDescOf_resolved:
  assumes "newStructDescOf P (RStruct i n) = Val sd"
  obtains g sfs ff where "pr_struct P i = (g, sfs)" "DoResolveFields g sfs = Val ff"
    "newStructDesc (pr_lay P) g ff = Ok sd"
  using assms by (auto simp: newStructDescOf_def res_iff split: prod.splits)

lemma program_wf:
  assumes "wfProgram bv P" shows "wfEnv bv (env_of P)"
proof (unfold wfEnv_def, intro allI impI)
  fix i sd assume "env_of P i = Some sd"
  then have "newStructDescOf P (RStruct i []) = Val sd" by (simp add: env_of_def split: res.splits)
  then obtain g sfs ff where r: "pr_struct P i = (g, sfs)" "DoResolveFields g sfs = Val ff"
    "newStructDesc (pr_lay P) g ff = Ok sd" by (rule newStructDescOf_resolved)
  with assms have "supFields bv (env_of P) g sfs" "\<And>f. f \<in> set ff \<Longrightarrow> F_ID f \<noteq> 0xffff \<and> defaultOK f"
    by (auto simp: wfProgram_def split: prod.splits)
  from newStructDesc_wf [OF resolved_supStruct [OF r(2) this], of "pr_lay P"] r(3)
  show "wfSd bv (env_of P) sd" by auto
qed

subsection \<open>The published descriptors\<close>

text \<open>
  \<open>U\<close> are the types whose address is looked up: those of the program's objects and, for a
  pointer, the struct type it points to. The runtime gives each its own address.
\<close>

definition addresses :: "(rtype \<Rightarrow> 64 word) \<Rightarrow> rtype set \<Rightarrow> bool" where
  "addresses ad U \<longleftrightarrow> inj_on ad U \<and> (\<forall>e. RPtr e \<in> U \<longrightarrow> e \<in> U)"

definition descOf :: "program \<Rightarrow> (rtype \<Rightarrow> 64 word) \<Rightarrow> rtype set \<Rightarrow> 64 word \<Rightarrow> structDesc option" where
  "descOf P ad U a =
     (if a \<in> ad ` U then (case newStructDescOf P (the_inv_into U ad a) of Val sd \<Rightarrow> Some sd | _ \<Rightarrow> None)
      else None)"

definition descInv :: "program \<Rightarrow> (rtype \<Rightarrow> 64 word) \<Rightarrow> rtype set \<Rightarrow> descs \<Rightarrow> bool" where
  "descInv P ad U s \<longleftrightarrow> prefetchInv P {} (d_pre s) \<and> dc.consistent (descOf P ad U) (d_sds s) \<and>
     (\<forall>a sd rt. Get (d_sds s) a = Some sd \<longrightarrow> reaches P sd rt \<longrightarrow> p_Sd (d_pre s) rt \<noteq> None)"

lemma descOf_ad: "addresses ad U \<Longrightarrow> rt \<in> U \<Longrightarrow> descOf P ad U (ad rt) = Some sd \<longleftrightarrow> newStructDescOf P rt = Val sd"
  by (auto simp: descOf_def addresses_def the_inv_into_f_f split: res.splits)

lemma descInv_publish:
  assumes "addresses ad U" "descInv P ad U s" "newStructDescOf P rt = Val sd" "rt \<in> U"
    "\<And>r. reaches P sd r \<Longrightarrow> p_Sd (d_pre s) r \<noteq> None"
  shows "descInv P ad U (s\<lparr>d_sds := Set (d_sds s) (ad rt) sd\<rparr>)"
  using assms
  by (auto simp: descInv_def descOf_ad Get_Set intro!: dc.consistent_update split: if_splits)

lemma descInv_grows:
  assumes "descInv P ad U s" "prefetchInv P {} pre" "grows (d_pre s) pre"
  shows "descInv P ad U (s\<lparr>d_pre := pre\<rparr>)"
proof -
  have "p_Sd pre rt \<noteq> None" if "Get (d_sds s) a = Some sd" "reaches P sd rt" for a sd rt
    using assms(1) that grows_linked [OF assms(3)] unfolding descInv_def by blast
  then show ?thesis using assms(1,2) unfolding descInv_def by simp
qed

definition linkedDesc :: "program \<Rightarrow> structDesc \<Rightarrow> descs \<Rightarrow> bool" where
  "linkedDesc P sd s \<longleftrightarrow> (\<forall>rt. reaches P sd rt \<longrightarrow> p_Sd (d_pre s) rt \<noteq> None)"

lemma createStructDescLocked_ok:
  assumes ad: "addresses ad U" "rv \<in> U" and inv: "descInv P ad U s"
    and rv: "rv = rt \<or> rv = RPtr rt" "rt = RStruct i n"
    and r: "createStructDescLocked P m ad rv rt s = (Val sd, s')"
  shows "descInv P ad U s' \<and> newStructDescOf P rt = Val sd \<and> linkedDesc P sd s'"
proof -
  have rt: "rt \<in> U" using ad rv(1) by (auto simp: addresses_def)
  show ?thesis
  proof (cases "Get (d_sds s) (ad rt)")
    case (Some x)
    then have x: "x = sd" "s' = s" using r by (simp_all add: createStructDescLocked_def)
    have "descOf P ad U (ad rt) = Some sd" using inv Some x by (auto simp: descInv_def intro: dc.hit)
    then show ?thesis
      using inv Some x descOf_ad [OF ad(1) rt] by (auto simp: descInv_def linkedDesc_def)
  next
    case None
    obtain x pre where xp: "newStructDescAndPrefetch P m rt (d_pre s) = (x, pre)" by fastforce
    with r None have x: "x = Val sd" by (cases x) (simp_all add: createStructDescLocked_def Let_def)
    have p: "newStructDescAndPrefetch P m rt (d_pre s) = (Val sd, pre)" using xp x by simp
    have s': "s' = \<lparr>d_sds = (if rt_Kind rv = K_Ptr then Set (Set (d_sds s) (ad rt) sd) (ad rv) sd
        else Set (d_sds s) (ad rt) sd), d_pre = pre\<rparr>"
      using r None p by (simp add: createStructDescLocked_def Let_def)
    have inv0: "prefetchInv P {} (d_pre s)" using inv by (simp add: descInv_def)
    from prefetch_complete [OF inv0 p] have pre: "prefetchInv P {} pre" "newStructDescOf P rt = Val sd"
      "\<And>r. reaches P sd r \<Longrightarrow> p_Sd pre r \<noteq> None" by auto
    have g: "grows (d_pre s) pre" using prefetch_grows p by (auto simp: recGrows_def)
    define s1 where "s1 = s\<lparr>d_pre := pre\<rparr>"
    define s2 where "s2 = s1\<lparr>d_sds := Set (d_sds s1) (ad rt) sd\<rparr>"
    have 1: "descInv P ad U s1" unfolding s1_def by (rule descInv_grows [OF inv pre(1) g])
    have 2: "descInv P ad U s2"
      unfolding s2_def by (rule descInv_publish [OF ad(1) 1 pre(2) rt]) (simp add: s1_def pre(3))
    have ptr: "newStructDescOf P (RPtr rt) = Val sd"
      using pre(2) newStructDescOf_ptr [of P i n] newStructDescOf_struct [of P i n] unfolding rv(2) by simp
    have "descInv P ad U (s2\<lparr>d_sds := Set (d_sds s2) (ad (RPtr rt)) sd\<rparr>)" if "RPtr rt \<in> U"
      by (rule descInv_publish [OF ad(1) 2 ptr that]) (simp add: s1_def s2_def pre(3))
    then have "descInv P ad U s'"
      using 2 rv ad(2) s' by (cases s) (auto simp: s1_def s2_def)
    moreover have "d_pre s' = pre" using s' by simp
    ultimately show ?thesis using pre by (auto simp: linkedDesc_def)
  qed
qed

lemma getOrcreateStructDesc_ok:
  assumes "addresses ad U" "rv \<in> U" "descInv P ad U s" "goType rv"
    "getOrcreateStructDesc P m ad rv s = (Val sd, s')"
  shows "descInv P ad U s' \<and> createStructDesc (env_of P) rv = Inr sd \<and> linkedDesc P sd s'"
proof -
  have env: "createStructDesc (env_of P) rv = Inr sd" if "newStructDescOf P rv = Val sd"
  proof -
    from newStructDescOf_id [OF that] obtain i where "struct_id rv = Some i" "env_of P i = Some sd" by blast
    then show ?thesis
      by (cases rv rule: struct_id.cases) (simp_all add: createStructDesc_def find_desc_def)
  qed
  show ?thesis
  proof (cases "getStructDesc ad rv s")
    case (Some x)
    then have x: "x = sd" "s' = s" using assms(5) by (simp_all add: getOrcreateStructDesc_def)
    have "descOf P ad U (ad rv) = Some sd"
      using assms(3) Some x by (auto simp: descInv_def getStructDesc_def intro: dc.hit)
    then show ?thesis
      using assms(3) Some x env descOf_ad [OF assms(1,2)]
      by (auto simp: descInv_def linkedDesc_def getStructDesc_def)
  next
    case None
    then have c: "createStructDescOf P m ad rv s = (Val sd, s')"
      using assms(5) by (simp add: getOrcreateStructDesc_def)
    consider i n where "rv = RStruct i n" | i n where "rv = RPtr (RStruct i n)"
    proof -
      from c have "rt_Kind rv = K_Struct \<or> (\<exists>e. rv = RPtr e \<and> rt_Kind e = K_Struct)"
        using assms(4) by (cases rv) (auto simp: createStructDescOf_def split: if_splits)
      moreover have "\<exists>i n. e = RStruct i n" if "rt_Kind e = K_Struct" "goType e" for e
        using that by (cases e) auto
      ultimately show ?thesis using assms(4) that by fastforce
    qed
    then show ?thesis
    proof cases
      case 1
      with c have "createStructDescLocked P m ad rv rv s = (Val sd, s')"
        by (simp add: createStructDescOf_def)
      from createStructDescLocked_ok [OF assms(1,2,3) _ _ this] 1 env show ?thesis by simp
    next
      case 2
      with c have "createStructDescLocked P m ad rv (RStruct i n) s = (Val sd, s')"
        by (simp add: createStructDescOf_def)
      from createStructDescLocked_ok [OF assms(1,2,3) _ refl this] 2 env show ?thesis
        using newStructDescOf_ptr [of P i n] newStructDescOf_struct [of P i n] by simp
    qed
  qed
qed

text \<open>The empty state.\<close>

definition noDescs :: descs where
  "noDescs = \<lparr>d_sds = newMapStructDesc, d_pre = \<lparr>p_cache = Map.empty, p_Sd = Map.empty\<rparr>\<rparr>"

lemma descInv_noDescs: "descInv P ad U noDescs"
  by (simp add: descInv_def noDescs_def prefetchInv_def dc.consistent_empty dm.lookup_empty)

end
