(* ===== verification/ExampleProgram.thy ===== *)
theory ExampleProgram
  imports Program Example
begin

text \<open>
  The example of theory \<open>Example\<close> from its Go source: the struct with its tags, as
  \<^verbatim>\<open>thriftgo\<close> writes them, resolves to the fields used there, so that the environment of the
  program is the one of the other examples.
\<close>

definition goField :: "string \<Rightarrow> rtype \<Rightarrow> string \<Rightarrow> nat \<Rightarrow> structField" where
  "goField nm t tag off = \<lparr>sf_Name = nm, sf_PkgPath = [], sf_Type = t, sf_Tag = [(''frugal'', tag)],
     sf_Offset = off, sf_Anonymous = False\<rparr>"

definition node_fields :: "structField list" where
  "node_fields =
     [goField ''Id'' go_int32 ''1,required,i32'' 0, goField ''Name'' go_string ''2,optional,string'' 8,
      goField ''Xs'' (RSlice [] i64type) ''3,default,list<i64>'' 24,
      goField ''M'' (RMap [] go_string go_Color) ''4,default,map<string:demo.Color>'' 48,
      goField ''Next'' (RPtr go_Node) ''5,optional,Node'' 56,
      goField ''Blob'' (RSlice [] bytetype) ''6,default,binary'' 64,
      \<lparr>sf_Name = ''_unknownFields'', sf_PkgPath = ''demo'', sf_Type = RSlice [] bytetype, sf_Tag = [],
       sf_Offset = 88, sf_Anonymous = False\<rparr>]"

text \<open>A struct with a field of an unsupported type, for the identities the program does not use.\<close>

definition go_uint32 :: rtype where "go_uint32 = RBasic K_Uint32 [] ''uint32''"

definition bad_struct :: "goStruct \<times> structField list" where
  "bad_struct = (\<lparr>gs_rt = RStruct 1 ''Bad'', gs_zero = VStruct [(0, VI32 0)], gs_init = None,
     gs_unknown = None\<rparr>, [goField ''U'' go_uint32 ''1,default'' 0])"

definition ex_prog :: program where
  "ex_prog = \<lparr>pr_lay = ex_lay, pr_struct = (\<lambda>i. if i = 0 then (ex_g, node_fields) else bad_struct)\<rparr>"

lemmas parse_simps = ParseType_def matchTag_def readToken_def scan.simps isSpace_def isident_def
  isident0_def keywordTab_def expect_def T_int_def doMatchStruct_def doParseSlice_def
  Type_IsKeyType_def Type_IsValueType_def ty_deref_def

lemma ex_parse:
  "ParseType go_int32 ''i32'' = Val ty_i32" "ParseType go_string ''string'' = Val ty_string"
  "ParseType (RSlice [] i64type) ''list<i64>'' = Val ty_xs"
  "ParseType (RMap [] go_string go_Color) ''map<string:demo.Color>'' = Val ty_m"
  "ParseType (RPtr go_Node) ''Node'' = Val ty_next"
  "ParseType (RSlice [] bytetype) ''binary'' = Val ty_blob"
  by (simp_all add: parse_simps ty_defs)

lemma ex_tags:
  "lookupStructTag [(''frugal'', ''1,required,i32'')] =
     Some [''1'', ''required'', ''i32'']"
  "lookupStructTag [(''frugal'', ''2,optional,string'')] =
     Some [''2'', ''optional'', ''string'']"
  "lookupStructTag [(''frugal'', ''3,default,list<i64>'')] =
     Some [''3'', ''default'', ''list<i64>'']"
  "lookupStructTag [(''frugal'', ''4,default,map<string:demo.Color>'')] =
     Some [''4'', ''default'', ''map<string:demo.Color>'']"
  "lookupStructTag [(''frugal'', ''5,optional,Node'')] =
     Some [''5'', ''optional'', ''Node'']"
  "lookupStructTag [(''frugal'', ''6,default,binary'')] =
     Some [''6'', ''default'', ''binary'']"
  "lookupStructTag [(''frugal'', ''1,default'')] =
     Some [''1'', ''default'']"
  by (simp_all add: lookupStructTag_def trimSpaces_def TrimSpace_graphic graphic_def)

lemma ex_untagged: "lookupStructTag [] = None"
  by (simp add: lookupStructTag_def)

lemma ex_tys: "ty_T ty_i32 = T_i32" "ty_T ty_xs = T_list" "ty_T ty_m = T_map" "ty_T ty_blob = T_binary"
  by (simp_all add: ty_defs)

lemma ex_init: "initMem ex_g = Some (VStruct [(0, VI32 0), (8, VString [110]), (24, VSlice None),
    (48, VMap None), (56, VPtr None), (64, VBytes None), (88, VBytes None)])"
  by (simp add: initMem_def ex_g_def node_init_def node_def)

lemma ex_digits: "ParseUint16 ''1'' = Val 1" "ParseUint16 ''2'' = Val 2" "ParseUint16 ''3'' = Val 3"
  "ParseUint16 ''4'' = Val 4" "ParseUint16 ''5'' = Val 5" "ParseUint16 ''6'' = Val 6"
  by (simp_all add: ParseUint16_def)

lemma ex_resolve: "DoResolveFields ex_g node_fields = Val ex_ff"
proof -
  have "resolveLoop (initMem ex_g) node_fields {} [] = Val ex_ff"
    by (simp add: node_fields_def goField_def resolveField_def ex_tags nextValue_def
        ex_digits parseRequiredness_def ex_parse ex_init ex_ff_def mkField_def ex_tys
        del: One_nat_def)
  then show ?thesis
    by (simp add: DoResolveFields_def initMem_def [symmetric] ex_ff_def mkField_def insort_key.simps)
qed

lemma ex_bad: "DoResolveFields (fst bad_struct) (snd bad_struct) =
    Err (BadDescriptor (UseOther go_uint32 ''int32''))"
  by (simp add: bad_struct_def DoResolveFields_def goField_def resolveField_def ex_tags
      nextValue_def ex_digits parseRequiredness_def ParseType_def go_uint32_def del: One_nat_def)

lemma ex_env_of: "env_of ex_prog = ex_env"
proof
  fix i
  show "env_of ex_prog i = ex_env i"
  proof (cases "i = 0")
    case True
    then show ?thesis
      using ex_newStructDesc
      by (simp add: env_of_def newStructDescOf_def ex_prog_def ex_resolve ex_env_def)
  next
    case False
    then show ?thesis
      using ex_bad
      by (simp add: env_of_def newStructDescOf_def ex_prog_def ex_env_def case_prod_unfold)
  qed
qed

lemma gs_unknown_ex: "gs_unknown ex_g = Some (RSlice [] bytetype, 88)"
  by (simp add: ex_g_def)

lemma ex_wfProgram: "wfProgram False ex_prog"
proof -
  have "supFields False (env_of ex_prog) ex_g node_fields \<and> (\<forall>f\<in>set ex_ff. F_ID f \<noteq> 0xffff \<and> defaultOK f)"
    unfolding ex_env_of
    by (simp add: supFields_def node_fields_def goField_def hasCell_def ex_init ex_env_def ty_defs
        gs_unknown_ex ex_ff_def mkField_def defaultOK_def confSimple_def rep_type_def simpleTypes_def
        taggedField_def ex_tags ex_untagged)
  then show ?thesis
    using ex_bad by (auto simp: wfProgram_def ex_prog_def ex_resolve case_prod_unfold)
qed

end
