(* ===== verification/ProgramProps.thy ===== *)
theory ProgramProps
  imports ExampleProgram
begin

text \<open>
  The properties of the tag parser, the resolver and the construction of the descriptors, with
  their witnesses on the example program.
\<close>

subsection \<open>The tag parser\<close>

text \<open>
  C25. The descriptor \<^verbatim>\<open>ParseType\<close> returns describes the Go type it was given: the tags match
  the Go kinds, element by element, \<^verbatim>\<open>S\<close> is the Go type, map keys and elements pass the checks,
  and there is no pointer to a pointer.
\<close>

theorem ParseType_sound:
  assumes "goType vt" "ParseType vt def = Val ty"
  shows "tyOf vt ty \<and> valid_Type ty \<and> ty_S ty = vt"
  using ParseType_good [OF assms(1), of def] assms(2) tyOf_valid tyOf_S by auto

theorem ParseType_sound_witness: "tyOf (RPtr go_Node) ty_next \<and> valid_Type ty_next \<and> ty_S ty_next = RPtr go_Node"
  using ParseType_sound [of "RPtr go_Node" "''Node''" ty_next] ex_parse by (simp add: go_Node_def)

text \<open>
  C26. On a Go type without nested pointers \<^verbatim>\<open>ParseType\<close> does not panic, whatever the tag, and
  the position of a syntax error lies within the tag.
\<close>

theorem ParseType_bounds:
  assumes "goType vt" "\<not> nestedPtr vt"
  shows "case ParseType vt def of
     Val ty \<Rightarrow> True
   | Err e \<Rightarrow> (case e of SyntaxError p s r \<Rightarrow> p \<le> length def \<and> s = def
               | SetList p s t \<Rightarrow> p \<le> length def \<and> s = def | _ \<Rightarrow> True)
   | Pan p \<Rightarrow> False"
  using ParseType_good [OF assms(1), of def] assms(2)
  by (cases "ParseType vt def") (auto simp: errPos_def split: terr.splits)

theorem ParseType_bounds_witness:
  "case ParseType (RSlice [] go_string) ''list<string'' of
     Val ty \<Rightarrow> True
   | Err e \<Rightarrow> (case e of SyntaxError p s r \<Rightarrow> p \<le> length ''list<string'' \<and> s = ''list<string''
               | SetList p s t \<Rightarrow> p \<le> length ''list<string'' \<and> s = ''list<string'' | _ \<Rightarrow> True)
   | Pan p \<Rightarrow> False"
  by (rule ParseType_bounds) (simp_all add: go_string_def)

text \<open>
  A pointer to a pointer is meant to be rejected with an error, but making that
  error dereferences the nil \<^verbatim>\<open>ret.V\<close>, so the parser panics on every such type.
\<close>

lemma ParseType_nested_pointer: "ParseType (RPtr (RPtr e)) def = Pan NilDeref"
  by (simp add: ParseType_def)

text \<open>
  C27. The syntax \<^verbatim>\<open>thriftgo\<close> writes into the tags is read back: for a type that describes a Go
  type and whose struct and enum names are identifiers that are not part of a keyword, with or
  without a package, parsing its descriptor gives the type.
\<close>

theorem ParseType_roundtrip:
  assumes "tyOf vt ty" "namesOK q ty"
  shows "ParseType vt (tagSyntax q ty) = Val ty"
  by (rule parses_ParseType [OF parse_syntax [OF assms]])

theorem ParseType_roundtrip_witness:
  "tagSyntax (\<lambda>s. ''demo'') ty_m = ''map<string:demo.Color>'' \<and>
   ParseType (RMap [] go_string go_Color) ''map<string:demo.Color>'' = Val ty_m"
proof -
  have ty: "tyOf (RMap [] go_string go_Color) ty_m"
    by (simp add: ty_defs basicTagOf_def Type_IsKeyType_def Type_IsValueType_def)
  have q: "namesOK (\<lambda>s. ''demo'') ty_m"
    by (simp add: ty_defs nameOK_def isName_def isident_def isident0_def)
  have s: "tagSyntax (\<lambda>s. ''demo'') ty_m = ''map<string:demo.Color>''"
    by (simp add: ty_defs tagName_def)
  from ParseType_roundtrip [OF ty q] s show ?thesis by simp
qed

text \<open>
  C28. The cache key of \<^verbatim>\<open>newTType\<close> tells types apart: two descriptors of one Go type that
  print the same are the same (\<^verbatim>\<open>set<i32>\<close> and \<^verbatim>\<open>list<i32>\<close> are both \<^verbatim>\<open>[]int32\<close>, but print
  differently).
\<close>

theorem cache_key_injective:
  assumes "tyOf vt ty1" "tyOf vt ty2" "Type_String ty1 = Type_String ty2"
  shows "ty1 = ty2"
  by (rule String_inj [OF assms])

theorem cache_key_injective_witness:
  "(Type T_list None (Some (Type T_i64 None None i64type)) (RSlice [] i64type)) = ty_xs"
  by (rule cache_key_injective [of "RSlice [] i64type"])
     (simp_all add: ty_defs basicTagOf_def Type_IsValueType_def)

subsection \<open>The resolver\<close>

text \<open>
  C29. On success \<^verbatim>\<open>DoResolveFields\<close> returns one field for each exported, tagged field of the
  struct: with its offset and a type that describes its Go type, a pointer only if the field is
  optional or points to a struct, \<^verbatim>\<open>nocopy\<close> only for strings; the ids strictly increase.
\<close>

theorem DoResolveFields_sound:
  assumes "\<forall>sf\<in>set sfs. goType (sf_Type sf) \<and> hasCell (initMem g) sf"
    "DoResolveFields g sfs = Val ff"
  shows "sorted_wrt (<) (map F_ID ff) \<and>
    (\<exists>fs. mset ff = mset fs \<and> list_all2 (resolvedFrom (initMem g)) (filter taggedField sfs) fs)"
  using DoResolveFields_good [of sfs g] assms by auto

theorem DoResolveFields_sound_witness:
  "sorted_wrt (<) (map F_ID ex_ff) \<and>
    (\<exists>fs. mset ex_ff = mset fs \<and> list_all2 (resolvedFrom (initMem ex_g)) (filter taggedField node_fields) fs)"
proof (rule DoResolveFields_sound [OF _ ex_resolve])
  show "\<forall>sf\<in>set node_fields. goType (sf_Type sf) \<and> hasCell (initMem ex_g) sf"
    by (simp add: node_fields_def goField_def hasCell_def ex_init ty_defs)
qed

text \<open>
  C30. From the Go source to the codec: when every struct type of a program is supported, the
  descriptors that \<^verbatim>\<open>newStructDesc\<close> builds from the resolved fields are well-formed, which is
  what the theorems on the encoder and the decoder assume.
\<close>

theorem program_descriptors_wf:
  assumes "wfProgram bv P"
  shows "wfEnv bv (env_of P)"
  by (rule program_wf [OF assms])

theorem program_descriptors_wf_witness: "wfEnv False (env_of ex_prog)"
  by (rule program_descriptors_wf [OF ex_wfProgram])

text \<open>
  C31. A finding: a field id 65535 is valid in Thrift and accepted by the resolver, but
  \<^verbatim>\<open>maxFieldID+1\<close> wraps to 0 in \<^verbatim>\<open>uint16\<close>, so the index table is empty and filling it panics:
  no struct with such a field ever gets a descriptor.
\<close>

theorem field_id_65535:
  assumes "f \<in> set ff" "F_ID f = 0xffff"
  shows "\<exists>p. newStructDesc lay g ff = Panic p"
proof -
  have "maxFieldID ff \<le> 0xffff" 
    using unsigned_less [where ?'a = nat, of "maxFieldID ff"] by (simp add: word_le_nat_alt)
  with maxFieldID_ge [OF assms(1)] assms(2) have "maxFieldID ff = 0xffff" by simp
  moreover obtain f0 ff0 where "ff = f0 # ff0" using assms(1) by (cases ff) auto
  ultimately have "\<exists>p. fill_fields lay ff 0 (replicate (unat (maxFieldID ff + 1)) (-1)) [] = Panic p"
    by (cases "fromDefsField lay f0") (simp_all add: fill_fields.simps(2))
  then show ?thesis by (auto simp: newStructDesc_def fromDefsFields_def Let_def)
qed

theorem field_id_65535_witness:
  "\<exists>p. newStructDesc ex_lay ex_g [mkField 0 65535 ty_i32 Required None] = Panic p"
  by (rule field_id_65535 [of "mkField 0 65535 ty_i32 Required None"]) (simp_all add: mkField_def)

end
