(* ===== verification/PrefetchProps.thy ===== *)
theory PrefetchProps
  imports ExampleProgram
begin

text \<open>
  The properties of the descriptor graph: termination of the prefetch, completeness of the
  links, transparency of the published descriptors, and what an error leaves behind.
\<close>

definition noPrefetch :: prefetch where
  "noPrefetch = \<lparr>p_cache = Map.empty, p_Sd = Map.empty\<rparr>"

lemma noPrefetch_inv: "prefetchInv P {} noPrefetch"
  by (simp add: prefetchInv_def noPrefetch_def)

text \<open>
  C32. The prefetch terminates on recursive types: when the struct types that can be reached
  lie in a finite set, any fuel above their number gives the same result and state, and it is
  not the end of the fuel.
\<close>

theorem prefetch_terminates:
  assumes "typesIn P U" "t \<in> U"
  shows "\<exists>r s'. r \<noteq> Pan StackOverflow \<and> (\<forall>n>card U. newStructDescAndPrefetch P n t s = (r, s'))"
proof -
  have lt: "uncached U s < Suc (card U)"
    using assms(1) card_mono [of U "U - dom (p_cache s)"]
    by (auto simp: uncached_def typesIn_def less_Suc_eq_le)
  have "same (newStructDescAndPrefetch P (Suc (card U)) t s) (newStructDescAndPrefetch P n t s)"
    if "n > card U" for n
    using prefetch_agree [OF assms(1), of "Suc (card U)" n] that assms(2) lt
    unfolding agree_def by simp
  then have "fst (newStructDescAndPrefetch P (Suc (card U)) t s) \<noteq> Pan StackOverflow \<and>
      (\<forall>n>card U. newStructDescAndPrefetch P n t s = newStructDescAndPrefetch P (Suc (card U)) t s)"
    unfolding same_def by (metis lessI)
  then show ?thesis
    by (cases "newStructDescAndPrefetch P (Suc (card U)) t s") auto
qed

lemma ex_sdTypes: "sdTypes ex_sd = [RPtr go_Node]"
  by (simp add: sdTypes_def ex_sd_eq mkF_def tt_defs ty_defs)

lemma ex_descOf:
  "newStructDescOf ex_prog go_Node = Val ex_sd" "newStructDescOf ex_prog (RPtr go_Node) = Val ex_sd"
  using ex_newStructDesc by (simp_all add: newStructDescOf_def ex_prog_def ex_resolve go_Node_def)

lemma ex_typesIn: "typesIn ex_prog {go_Node, RPtr go_Node}"
  by (simp add: typesIn_def ex_descOf ex_sdTypes)

theorem prefetch_terminates_witness:
  "\<exists>r s'. r \<noteq> Pan StackOverflow \<and>
     (\<forall>n>card {go_Node, RPtr go_Node}. newStructDescAndPrefetch ex_prog n go_Node noPrefetch = (r, s'))"
  by (rule prefetch_terminates [OF ex_typesIn]) simp

lemma ex_prefetch:
  "newStructDescAndPrefetch ex_prog 3 go_Node noPrefetch =
     (Val ex_sd, \<lparr>p_cache = [go_Node \<mapsto> ex_sd, RPtr go_Node \<mapsto> ex_sd], p_Sd = [RPtr go_Node \<mapsto> ex_sd]\<rparr>)"
proof -
  have three: "3 = Suc (Suc (Suc 0))" by simp
  have f: "sd_fields ex_sd =
      [mkF 0 1 tt_i32 Required (Some (VI32 0)), mkF 8 2 tt_string Optional (Some (VString [110])),
       mkF 24 3 tt_xs Default (Some (VSlice None)), mkF 48 4 tt_m Default (Some (VMap None)),
       mkF 56 5 tt_next Optional None, mkF 64 6 tt_blob Default (Some (VBytes None))]"
    by (simp add: ex_sd_eq)
  have ne: "go_Node \<noteq> RPtr go_Node" "RPtr go_Node \<noteq> go_Node" by (simp_all add: go_Node_def)
  have t: "fetchStructDesc rec tt_xs s = (Val (), s)" "fetchStructDesc rec tt_m s = (Val (), s)"
    "fetchStructDesc rec tt_next s = (if p_Sd s (RPtr go_Node) \<noteq> None then (Val (), s)
        else sbind (rec (RPtr go_Node)) (\<lambda>sd s. (Val (), s\<lparr>p_Sd := (p_Sd s)(RPtr go_Node \<mapsto> sd)\<rparr>)) s)"
    for rec s
    by (simp_all add: tt_defs ty_defs sbind_def)
  show ?thesis
    unfolding three noPrefetch_def
    by (simp add: ex_descOf prefetchSubStructDesc_def f mkF_def sbind_def sreturn_def t ne)
qed

text \<open>
  The states of the caches when no prefetch has failed yet. A failed one may leave a type
  linked to a descriptor whose own fields are not, see C35.
\<close>

inductive prefetched :: "program \<Rightarrow> prefetch \<Rightarrow> bool" for P where
  start: "prefetched P noPrefetch"
| success: "prefetched P s \<Longrightarrow> newStructDescAndPrefetch P n t s = (Val sd, s') \<Longrightarrow> prefetched P s'"

lemma prefetched_inv: "prefetched P s \<Longrightarrow> prefetchInv P {} s"
proof (induction rule: prefetched.induct)
  case start
  show ?case by (rule noPrefetch_inv)
next
  case (success s n t sd s')
  from prefetch_complete [OF success.IH success.hyps(2)] show ?case by simp
qed

text \<open>
  C33. As long as no prefetch has failed: when a prefetch succeeds, every struct type that the
  encoder or the decoder can reach from the returned descriptor has its \<^verbatim>\<open>t.Sd\<close> set, to the
  descriptor of that type. After a failed prefetch this does not hold, see C35.
\<close>

theorem prefetch_links_reachable:
  assumes "prefetched P s" "newStructDescAndPrefetch P n t s = (Val sd, s')"
  shows "newStructDescOf P t = Val sd \<and>
    (\<forall>rt. reaches P sd rt \<longrightarrow> (\<exists>sd'. p_Sd s' rt = Some sd' \<and> newStructDescOf P rt = Val sd'))"
  using prefetch_complete [OF prefetched_inv [OF assms(1)] assms(2)] by blast

theorem prefetch_links_reachable_witness:
  "\<exists>sd' s'. newStructDescAndPrefetch ex_prog 3 go_Node noPrefetch = (Val ex_sd, s') \<and>
    reaches ex_prog ex_sd (RPtr go_Node) \<and> p_Sd s' (RPtr go_Node) = Some sd'"
proof -
  have r: "reaches ex_prog ex_sd (RPtr go_Node)" by (rule reaches.direct) (simp add: ex_sdTypes)
  with prefetch_links_reachable [OF prefetched.start ex_prefetch] ex_prefetch show ?thesis by blast
qed

text \<open>
  C34. The published descriptors are transparent: with distinct addresses for the types, what
  \<^verbatim>\<open>getOrcreateStructDesc\<close> returns, found or made, is the descriptor of the type, as without
  the cache; it is linked, and the invariant of the caches is kept.
\<close>

theorem getOrcreateStructDesc_transparent:
  assumes "addresses ad U" "rv \<in> U" "descInv P ad U s" "goType rv"
    "getOrcreateStructDesc P m ad rv s = (Val sd, s')"
  shows "createStructDesc (env_of P) rv = Inr sd \<and> descInv P ad U s' \<and>
    (\<forall>rt. reaches P sd rt \<longrightarrow> p_Sd (d_pre s') rt \<noteq> None)"
  using getOrcreateStructDesc_ok [OF assms] by (simp add: linkedDesc_def)

definition ex_ad :: "rtype \<Rightarrow> 64 word" where
  "ex_ad rt = (case rt of RPtr e \<Rightarrow> 0x10008 | _ \<Rightarrow> 8)"

theorem getOrcreateStructDesc_transparent_witness:
  "\<exists>s'. getOrcreateStructDesc ex_prog 3 ex_ad (RPtr go_Node) noDescs = (Val ex_sd, s') \<and>
    createStructDesc (env_of ex_prog) (RPtr go_Node) = Inr ex_sd \<and>
    (\<forall>rt. reaches ex_prog ex_sd rt \<longrightarrow> p_Sd (d_pre s') rt \<noteq> None)"
proof -
  let ?U = "{go_Node, RPtr go_Node}"
  have a: "addresses ex_ad ?U" by (auto simp: addresses_def ex_ad_def go_Node_def)
  have g: "goType (RPtr go_Node)" by (simp add: go_Node_def)
  obtain s' where s': "getOrcreateStructDesc ex_prog 3 ex_ad (RPtr go_Node) noDescs = (Val ex_sd, s')"
    using ex_prefetch
    by (simp add: getOrcreateStructDesc_def getStructDesc_def createStructDescOf_def
        createStructDescLocked_def noDescs_def noPrefetch_def go_Node_def dm.lookup_empty Let_def)
  from getOrcreateStructDesc_transparent [OF a _ descInv_noDescs g s'] s' show ?thesis by blast
qed

subsection \<open>After an error\<close>

text \<open>
  Three structs: \<^verbatim>\<open>A\<close> has a field of its own type and one of type \<^verbatim>\<open>*Bad\<close>, \<^verbatim>\<open>X\<close> has a field of
  type \<^verbatim>\<open>*A\<close>, and \<^verbatim>\<open>Bad\<close> has a field of an unsupported type.
\<close>

definition go_A :: rtype where "go_A = RStruct 0 ''A''"
definition go_Bad :: rtype where "go_Bad = RStruct 1 ''Bad''"
definition go_X :: rtype where "go_X = RStruct 2 ''X''"

definition plain_struct :: "rtype \<Rightarrow> goStruct" where
  "plain_struct t = \<lparr>gs_rt = t, gs_zero = VStruct [(0, VPtr None), (8, VPtr None)], gs_init = None,
     gs_unknown = None\<rparr>"

definition tricky :: program where
  "tricky = \<lparr>pr_lay = (\<lambda>i. (16, 8)),
     pr_struct = (\<lambda>i.
       if i = 0 then (plain_struct go_A, [goField ''Self'' (RPtr go_A) ''1,optional'' 0,
                                           goField ''B'' (RPtr go_Bad) ''2,optional'' 8])
       else if i = 1 then bad_struct
       else (plain_struct go_X, [goField ''A'' (RPtr go_A) ''1,optional'' 0]))\<rparr>"

definition ptrField :: "nat \<Rightarrow> nat \<Rightarrow> rtype \<Rightarrow> tField" where
  "ptrField off i t = \<lparr>fID = of_nat i, fOffset = off,
     fType = TType tSTRUCT None
       (Some (TType tSTRUCT None None tSTRUCT T_struct t 16 8 (Some t) False False 0 AppendStruct))
       tSTRUCT T_pointer (RPtr t) 8 8 (Some (RPtr t)) True False 0 AppendStruct,
     fSpec = Optional, fDefault = None, fNoCopy = False, fCanSkipEncodeIfNil = True, fCanSkipIfDefault = False\<rparr>"

lemma tricky_tags: "lookupStructTag [(''frugal'', ''1,optional'')] = Some [''1'', ''optional'']"
  "lookupStructTag [(''frugal'', ''2,optional'')] = Some [''2'', ''optional'']"
  by (simp_all add: lookupStructTag_def trimSpaces_def TrimSpace_graphic graphic_def)

definition ptrResolved :: "nat \<Rightarrow> nat \<Rightarrow> rtype \<Rightarrow> Field" where
  "ptrResolved off i t = \<lparr>F_off = off, F_ID = of_nat i,
     F_Type = Type T_pointer None (Some (Type T_struct None None t)) (RPtr t), F_NoCopy = False,
     F_Spec = Optional, F_Default = None\<rparr>"

lemma tricky_parse: "ParseType (RPtr (RStruct i n)) [] =
    Val (Type T_pointer None (Some (Type T_struct None None (RStruct i n))) (RPtr (RStruct i n)))"
  by (simp add: ParseType_def matchTag_def)

lemma tricky_resolve:
  "DoResolveFields (plain_struct go_A) [goField ''Self'' (RPtr go_A) ''1,optional'' 0,
      goField ''B'' (RPtr go_Bad) ''2,optional'' 8] = Val [ptrResolved 0 1 go_A, ptrResolved 8 2 go_Bad]"
  "DoResolveFields (plain_struct go_X) [goField ''A'' (RPtr go_A) ''1,optional'' 0] =
     Val [ptrResolved 0 1 go_A]"
  by (simp_all add: DoResolveFields_def plain_struct_def goField_def resolveField_def tricky_tags
      nextValue_def ex_digits parseRequiredness_def tricky_parse go_A_def go_Bad_def ptrResolved_def
      del: One_nat_def)

lemma tricky_newTType:
  "fromDefsField (\<lambda>i. (16, 8)) (ptrResolved off k (RStruct i n)) = Ok (ptrField off k (RStruct i n))"
  by (simp add: fromDefsField_def ptrResolved_def newTType.simps pick_AppendFunc_def abi_kinds_def
      simpleTypes_def typeToSize_def ptrField_def)

lemma newStructDesc_fields:
  assumes "fill_fields lay ff 0 (replicate (unat (maxFieldID ff + 1)) (-1)) [] = Ok (idx, xs)"
    "gs_init g = None" "gs_unknown g = None"
  shows "\<exists>sd. newStructDesc lay g ff = Ok sd \<and> sd_fields sd = xs"
  using assms
  by (auto simp: newStructDesc_def fromDefsFields_def Let_def split: prod.split)

lemma tricky_index: "(replicate 3 (-1 :: int))[Suc 0 := 0, 2 := 1] = [-1, 0, 1]"
  "(replicate 2 (-1 :: int))[Suc 0 := 0] = [-1, 0]"
  by (simp_all add: eval_nat_numeral)

lemma ptrResolved_id [simp]: "F_ID (ptrResolved off i t) = of_nat i"
  by (simp add: ptrResolved_def)

lemma tricky_descs:
  "\<exists>sdA. newStructDescOf tricky go_A = Val sdA \<and> newStructDescOf tricky (RPtr go_A) = Val sdA \<and>
     sd_fields sdA = [ptrField 0 1 go_A, ptrField 8 2 go_Bad]"
  "\<exists>sdX. newStructDescOf tricky go_X = Val sdX \<and> sd_fields sdX = [ptrField 0 1 go_A]"
  "newStructDescOf tricky (RPtr go_Bad) =
     Err (DErrResolve (BadDescriptor (UseOther go_uint32 ''int32'')))"
proof -
  have 1: "\<exists>sd. newStructDesc (\<lambda>i. (16, 8)) (plain_struct go_A) [ptrResolved 0 1 go_A, ptrResolved 8 2 go_Bad] =
      Ok sd \<and> sd_fields sd = [ptrField 0 1 go_A, ptrField 8 2 go_Bad]"
    by (rule newStructDesc_fields [where idx = "[-1, 0, 1]"])
       (simp_all add: maxFieldID_def fill_fields.simps(2) tricky_newTType go_A_def go_Bad_def
         plain_struct_def tricky_index)
  have 2: "\<exists>sd. newStructDesc (\<lambda>i. (16, 8)) (plain_struct go_X) [ptrResolved 0 1 go_A] =
      Ok sd \<and> sd_fields sd = [ptrField 0 1 go_A]"
    by (rule newStructDesc_fields [where idx = "[-1, 0]"])
       (simp_all add: maxFieldID_def fill_fields.simps(2) tricky_newTType go_A_def plain_struct_def
         tricky_index)
  show "\<exists>sdA. newStructDescOf tricky go_A = Val sdA \<and> newStructDescOf tricky (RPtr go_A) = Val sdA \<and>
     sd_fields sdA = [ptrField 0 1 go_A, ptrField 8 2 go_Bad]"
    using 1 tricky_resolve(1) by (auto simp: newStructDescOf_def tricky_def go_A_def)
  show "\<exists>sdX. newStructDescOf tricky go_X = Val sdX \<and> sd_fields sdX = [ptrField 0 1 go_A]"
    using 2 tricky_resolve(2) by (auto simp: newStructDescOf_def tricky_def go_X_def)
  show "newStructDescOf tricky (RPtr go_Bad) =
     Err (DErrResolve (BadDescriptor (UseOther go_uint32 ''int32'')))"
    using ex_bad by (simp add: newStructDescOf_def tricky_def go_Bad_def case_prod_unfold)
qed

text \<open>
  C35. A finding: an error is forgotten. Getting the descriptor of \<^verbatim>\<open>X\<close> fails, since \<^verbatim>\<open>X\<close> reaches
  \<^verbatim>\<open>Bad\<close>; but the failed attempt has linked \<^verbatim>\<open>*A\<close> to a descriptor of \<^verbatim>\<open>A\<close> whose field of type
  \<^verbatim>\<open>*Bad\<close> is not linked, and only the cache entries are deleted. The same call then succeeds,
  and the encoder meets the nil \<^verbatim>\<open>t.Sd\<close> of \<^verbatim>\<open>*Bad\<close>.
\<close>

theorem prefetch_error_forgotten:
  "\<exists>e s1 sd s2. newStructDescAndPrefetch tricky 4 go_X noPrefetch = (Err e, s1) \<and>
     newStructDescAndPrefetch tricky 4 go_X s1 = (Val sd, s2) \<and>
     reaches tricky sd (RPtr go_Bad) \<and> p_Sd s2 (RPtr go_Bad) = None"
proof -
  obtain sdA sdX where sd: "newStructDescOf tricky (RPtr go_A) = Val sdA"
    "sd_fields sdA = [ptrField 0 1 go_A, ptrField 8 2 go_Bad]"
    "newStructDescOf tricky go_X = Val sdX" "sd_fields sdX = [ptrField 0 1 go_A]"
    using tricky_descs by blast
  let ?e = "DErrResolve (BadDescriptor (UseOther go_uint32 ''int32''))"
  have four: "4 = Suc (Suc (Suc (Suc 0)))" by simp
  have ne: "RPtr go_A \<noteq> RPtr go_Bad" "go_X \<noteq> RPtr go_A" "go_X \<noteq> RPtr go_Bad"
    "RPtr go_Bad \<noteq> RPtr go_A" "RPtr go_A \<noteq> go_X" "RPtr go_Bad \<noteq> go_X"
    "go_A \<noteq> go_Bad" "go_Bad \<noteq> go_A"
    by (simp_all add: go_A_def go_Bad_def go_X_def)
  let ?s1 = "\<lparr>p_cache = Map.empty, p_Sd = [RPtr go_A \<mapsto> sdA]\<rparr>"
  let ?s2 = "\<lparr>p_cache = [go_X \<mapsto> sdX], p_Sd = [RPtr go_A \<mapsto> sdA]\<rparr>"
  have 1: "newStructDescAndPrefetch tricky 4 go_X noPrefetch = (Err ?e, ?s1)"
    unfolding four noPrefetch_def
    by (simp add: sd tricky_descs(3) prefetchSubStructDesc_def ptrField_def sbind_def sreturn_def ne
        fun_upd_twist)
  have 2: "newStructDescAndPrefetch tricky 4 go_X ?s1 = (Val sdX, ?s2)"
    unfolding four
    by (simp add: sd prefetchSubStructDesc_def ptrField_def sbind_def sreturn_def)
  have "reaches tricky sdX (RPtr go_A)" by (rule reaches.direct) (simp add: sdTypes_def sd ptrField_def)
  then have "reaches tricky sdX (RPtr go_Bad)"
    by (rule reaches.step [OF _ sd(1)]) (simp add: sdTypes_def sd ptrField_def)
  with 1 2 ne show ?thesis by force
qed

end
