(* ===== verification/ComponentProps.thy ===== *)
theory ComponentProps
  imports DecodeProps DescMap DescCorrect
begin

text \<open>
  The contracts of the components the codec is built on, over the code's own definitions: the
  set of required fields, the unknown fields, the allocator, the descriptor map, the type
  descriptors and the field table; and the bound on what a length in the input can allocate.
\<close>

subsection \<open>Sets of fields, unknown fields, memory\<close>

text \<open>
  C15. Required fields: clearing the required ids in a set from the pool, whatever it holds, and
  ticking off the ids that were seen, the tests find exactly whether all required ones were.
\<close>

theorem bitset_required:
  assumes "bitset_ok s"
  shows "(\<forall>r\<in>set rs. bitset_test r (fold bitset_set ids (fold bitset_unset rs s))) \<longleftrightarrow>
    set rs \<subseteq> set ids"
  by (rule bs.required_seen [OF assms])

theorem bitset_required_witness:
  "list_all (\<lambda>r. bitset_test r
      (fold bitset_set [64, 0xffff, 2, 1] (fold bitset_unset [1, 64, 0xffff] (replicate 1024 (-1))))) [1, 64, 0xffff]"
  using bitset_required [of "replicate 1024 (-1)" "[1, 64, 0xffff]" "[64, 0xffff, 2, 1]"]
  by (simp add: bitset_ok_def)

text \<open>
  C16. Unknown fields: resetting a record from the pool, adding ranges of the input and copying
  gives those ranges in order, without a gap, whatever the fresh memory held.
\<close>

theorem unknown_fields_copied:
  assumes "\<forall>(o', s)\<in>set rs. o' + s \<le> length b" "\<forall>n. length (junk n) = n"
  shows "uf_Copy junk b (fold (\<lambda>(o', s). uf_Add o' s) rs (uf_Reset p)) =
    Ok (concat (map (\<lambda>(o', s). take s (drop o' b)) rs))"
proof -
  have "uf_ok b (fold (\<lambda>(o', s). uf_Add o' s) rs q) \<and>
      uf_bytes b (fold (\<lambda>(o', s). uf_Add o' s) rs q) =
        uf_bytes b q @ concat (map (\<lambda>(o', s). take s (drop o' b)) rs)" if "uf_ok b q" for q
    using assms(1) that
    by (induction rs arbitrary: q) (auto simp: uf_ok_Add uf_bytes_Add split: prod.splits)
  from this [OF uf_ok_Reset] show ?thesis
    using uf_Copy_bytes assms(2) by (simp add: uf_bytes_Reset)
qed

theorem unknown_fields_copied_witness:
  "uf_Copy (\<lambda>n. replicate n 0xaa) [1, 2, 3, 4, 5] (fold (\<lambda>(o', s). uf_Add o' s) [(3, 2), (0, 1)]
     (uf_Reset \<lparr>uf_sz = 7, uf_offs = [(9, 9)]\<rparr>)) = Ok [4, 5, 1]"
  using unknown_fields_copied [of "[(3, 2), (0, 1)]" "[1, 2, 3, 4, 5]" "\<lambda>n. replicate n 0xaa"]
  by simp

text \<open>
  C17. The allocator: a block is aligned, lies in the span and does not overlap what was handed
  out before from it, or comes from a fresh span taken because it did not fit; no address
  computation wraps around.
\<close>

theorem span_Malloc_safe:
  assumes "span_ok s" "mallocgc_ok mg" "n + 2 ^ k < 2 ^ 62" "k < 62"
    "span_Malloc mg s n (2 ^ k) = (s', a)"
  shows "span_ok s' \<and> unat a mod 2 ^ k = 0 \<and> in_span s' (unat a) n \<and>
    (s_b s' = s_b s \<and> s_n s' = s_n s \<and> unat (s_b s) + s_p s \<le> unat a \<or>
     s_b s' = mg (s_n s') \<and> s_p s + n + (2 ^ k - 1) > s_n s)"
  using span_Malloc_spec [OF assms] by blast

theorem span_Malloc_safe_witness:
  "\<exists>s' a. span_Malloc (\<lambda>sz. 0x1000) \<lparr>s_p = 5, s_b = 0x1003, s_n = 2048\<rparr> 16 8 = (s', a) \<and> unat a mod 8 = 0"
proof -
  obtain s' a where r: "span_Malloc (\<lambda>sz. 0x1000) \<lparr>s_p = 5, s_b = 0x1003, s_n = 2048\<rparr> 16 (2 ^ 3) = (s', a)"
    by (metis surj_pair)
  have "span_ok \<lparr>s_p = 5, s_b = 0x1003, s_n = 2048\<rparr>" "mallocgc_ok (\<lambda>sz. 0x1000)"
    by (simp_all add: span_ok_def mallocgc_ok_def)
  from span_Malloc_safe [OF this _ _ r] r show ?thesis by auto
qed

subsection \<open>Descriptors\<close>

text \<open>
  C18. The descriptor map holds what was last set: after any sequence of \<^verbatim>\<open>Set\<close>s, whichever
  addresses share a bucket, \<^verbatim>\<open>Get\<close> is the finite map of the sequence.
\<close>

theorem descmap_refines:
  "Get (fold (\<lambda>(a, sd) m. Set m a sd) ads newMapStructDesc) = map_of (rev ads)"
  using dm.lookup_abs [of ads newMapStructDesc] by (simp add: dm.lookup_empty fun_eq_iff map_add_def
      split: option.splits)

text \<open>
  C19. The descriptor of a supported struct has one field per resolved field, and
  \<^verbatim>\<open>GetField\<close> on its index table is the search by id, for every 16-bit id: it never panics,
  and an id of no field gives nil.
\<close>

theorem GetField_finds:
  assumes "supStruct bv env g ff"
  shows "\<exists>sd. newStructDesc lay g ff = Ok sd \<and> list_all2 (describes bv env) ff (sd_fields sd) \<and>
    (\<forall>fid. GetField sd fid = Ok (find (\<lambda>f. fID f = fid) (sd_fields sd)))"
  using newStructDesc_wf [OF assms, of lay] GetField_find by (auto simp: wfSd_def)

theorem GetField_finds_witness:
  "GetField ex_sd 0xffff = Ok (find (\<lambda>f. fID f = 0xffff) (sd_fields ex_sd))"
  using GetField_finds [OF ex_supStruct, of ex_lay] ex_newStructDesc by auto

subsection \<open>What a length can allocate\<close>

lemma decodeElems_length:
  "decodeElems cx dt et b l i d = LOk j cs d' \<or> decodeElems cx dt et b l i d = LErr j e cs d' \<Longrightarrow>
   length cs = l"
proof (induction l arbitrary: i d j cs e d')
  case (Suc l)
  from Suc.prems show ?case
    by (auto split: go.splits dres.splits lres.splits dest: Suc.IH [OF disjI1] Suc.IH [OF disjI2])
qed simp

lemma setMapIndex_length: "length (setMapIndex kt m k v) \<le> Suc (length m)"
  by (induction kt m k v rule: setMapIndex.induct) auto

lemma decodeEntries_length:
  "decodeEntries cx dt kt vt b l i kc vc m d = MOk j kc' vc' m' d' \<Longrightarrow> length m' \<le> length m + l"
proof (induction l arbitrary: i kc vc m d)
  case (Suc l)
  from Suc.prems obtain i2 kc2 vc2 k v d2 where
    r: "decodeEntries cx dt kt vt b l i2 kc2 vc2 (setMapIndex kt m k v) d2 = MOk j kc' vc' m' d'"
    by (auto simp: Let_def split: go.splits dres.splits)
  from Suc.IH [OF r] setMapIndex_length [of kt m k v] show ?case by linarith
qed simp

lemma ex_le_nat: "\<not> int N < x \<Longrightarrow> Q (nat x) \<Longrightarrow> \<exists>l\<le>N. Q l"
  by (rule exI [of _ "nat x"]) simp

text \<open>The two requests for memory of a list of \<open>l\<close> elements: the slice, and what pointers point to.\<close>

definition elemsAlloc :: "dctx \<Rightarrow> tType \<Rightarrow> nat \<Rightarrow> dstate \<Rightarrow> dstate go" where
  "elemsAlloc cx et l d =
     mallocElems cx et l (d_Malloc cx (l * tSize et) (tAlign et) (tMallocAbiType et) d)"

definition listOf :: "lres \<Rightarrow> dres" where
  "listOf r = (case r of
       LPanic p \<Rightarrow> DPanic p
     | LErr i e cs d \<Rightarrow> DErr i e (VSlice (Some cs)) d
     | LOk i cs d \<Rightarrow> DOk i (VSlice (Some cs)) d)"

text \<open>The ways a list comes out.\<close>

lemma decodeList_outcomes:
  assumes "tV t = Some et" "minWireSize (tWT et) > 0"
  shows "(\<exists>i e. decodeList cx dt t b c d = DErr i e c d) \<or>
   decodeList cx dt t b c d = DOk 5 (VSlice (Some [])) d \<or>
   (\<exists>l. l \<le> (length b - 5) div minWireSize (tWT et) \<and>
      decodeList cx dt t b c d = dgo (elemsAlloc cx et l d) (\<lambda>d2. listOf (decodeElems cx dt et b l 5 d2)))"
proof (cases "length b < 5")
  case True
  then show ?thesis by (simp add: decodeList_def listHeaderLen_def)
next
  case False
  then obtain tp l where "index b 0 = Ok tp" "gobind (sliceFrom b 1) beLen = Ok l"
    using beUint32_complete [of "drop 1 b"] by (cases b) (auto simp: index_def beLen_def)
  with False assms(2) show ?thesis
    unfolding decodeList_def dgo_def Let_def elemsAlloc_def listOf_def [symmetric] assms(1) tt_deref_Some
    by (auto simp: listHeaderLen_def nat_le_iff intro!: exI [of _ "nat l"])
qed

text \<open>
  C20. The length of a list in the input is checked before anything is allocated. Decoding a
  list either fails with the object and the decoder's memory as they were, or gives an empty
  list without touching the memory, or makes its requests for a number of elements that the
  rest of the input can hold, counting each by its smallest encoding, and fills that many,
  whether it is decoded in full, left half decoded by an error, or stopped by a panic.
\<close>

theorem list_alloc_bounded:
  assumes "tV t = Some et" "minWireSize (tWT et) > 0"
  shows "(\<exists>i e. decodeList cx dt t b c d = DErr i e c d) \<or>
   decodeList cx dt t b c d = DOk 5 (VSlice (Some [])) d \<or>
   (\<exists>l. l * minWireSize (tWT et) \<le> length b - 5 \<and>
      decodeList cx dt t b c d = dgo (elemsAlloc cx et l d) (\<lambda>d2. listOf (decodeElems cx dt et b l 5 d2)) \<and>
      (\<forall>i cs d'. decodeList cx dt t b c d = DOk i (VSlice (Some cs)) d' \<or>
         (\<exists>e. decodeList cx dt t b c d = DErr i e (VSlice (Some cs)) d') \<longrightarrow> length cs = l))"
  using decodeList_outcomes [OF assms, of cx dt b c d]
proof (elim disjE exE conjE)
  fix l
  assume l: "l \<le> (length b - 5) div minWireSize (tWT et)"
    and r: "decodeList cx dt t b c d = dgo (elemsAlloc cx et l d) (\<lambda>d2. listOf (decodeElems cx dt et b l 5 d2))"
  have "l * minWireSize (tWT et) \<le> length b - 5"
    using l by (meson div_times_less_eq_dividend le_trans mult_le_mono1)
  moreover have "length cs = l" if "decodeList cx dt t b c d = DOk i (VSlice (Some cs)) d' \<or>
      (\<exists>e. decodeList cx dt t b c d = DErr i e (VSlice (Some cs)) d')" for i cs d'
  proof -
    from that obtain d2 e where "decodeElems cx dt et b l 5 d2 = LOk i cs d' \<or>
        decodeElems cx dt et b l 5 d2 = LErr i e cs d'"
      unfolding r by (cases "elemsAlloc cx et l d") (auto simp: dgo_def listOf_def split: lres.splits)
    then show ?thesis by (rule decodeElems_length)
  qed
  ultimately have "\<exists>l. l * minWireSize (tWT et) \<le> length b - 5 \<and>
      decodeList cx dt t b c d = dgo (elemsAlloc cx et l d) (\<lambda>d2. listOf (decodeElems cx dt et b l 5 d2)) \<and>
      (\<forall>i cs d'. decodeList cx dt t b c d = DOk i (VSlice (Some cs)) d' \<or>
         (\<exists>e. decodeList cx dt t b c d = DErr i e (VSlice (Some cs)) d') \<longrightarrow> length cs = l)"
    using r by blast
  then show ?thesis by blast
qed auto

definition ex_list :: bytes where "ex_list = [10, 0, 0, 0, 1, 0, 0, 0, 0, 0, 0, 0, 7]"

lemma ex_decodeList:
  "\<exists>cs d'. decodeList ex_cx dt tt_xs ex_list (VSlice None) ex_d = DOk 13 (VSlice (Some cs)) d'"
proof -
  have b: "index ex_list 0 = Ok 10" "length ex_list = 13"
    "sliceFrom ex_list 1 = Ok [0, 0, 0, 1, 0, 0, 0, 0, 0, 0, 0, 7]"
    "sliceFrom ex_list 5 = Ok [0, 0, 0, 0, 0, 0, 0, 7]"
    by (simp_all add: ex_list_def index_def sliceFrom_def)
  have l: "beLen [0, 0, 0, 1, 0, 0, 0, 0, 0, 0, 0, 7] = Ok 1"
    by (simp add: beLen_def beUint32_Cons)
  have t: "tV tt_xs = Some tt_i64" "tWT tt_i64 = tI64" "minWireSize tI64 = 8" "tIsPointer tt_i64 = False"
    "tFixedSize tt_i64 = 8" "tT tt_i64 = tI64"
    by (simp_all add: tt_defs minWireSize_def typeToSize_def)
  have e: "\<exists>cs d'. decodeElems ex_cx dt tt_i64 ex_list (Suc 0) 5 d = LOk 13 cs d'" for d
    by (simp add: elemCell_def t decodeAt_def dgo_def b decodeFixedSizeTypes_def beUint64_def)
  show ?thesis
    unfolding decodeList_def dgo_def b l t
    using e by (auto simp: l t listHeaderLen_def mallocElems_def Let_def split: lres.splits)
       (metis lres.distinct lres.inject)+
qed

theorem list_alloc_bounded_witness:
  "\<exists>cs d' l. decodeList ex_cx (decodeType ex_cx 1) tt_xs ex_list (VSlice None) ex_d = DOk 13 (VSlice (Some cs)) d' \<and>
     length cs = l \<and> l * 8 \<le> length ex_list - 5 \<and> elemsAlloc ex_cx tt_i64 l ex_d \<noteq> Panic NilDeref"
proof -
  obtain cs d' where r: "decodeList ex_cx (decodeType ex_cx 1) tt_xs ex_list (VSlice None) ex_d = DOk 13 (VSlice (Some cs)) d'"
    using ex_decodeList by blast
  have t: "tV tt_xs = Some tt_i64" "minWireSize (tWT tt_i64) = 8" by (simp_all add: minWireSize_def)
  have m: "minWireSize (tWT tt_i64) > 0" using t(2) by simp
  from list_alloc_bounded [OF t(1) m, of ex_cx "decodeType ex_cx 1" ex_list "VSlice None" ex_d] r t(2)
  obtain l where "l * 8 \<le> length ex_list - 5" "length cs = l"
    "dgo (elemsAlloc ex_cx tt_i64 l ex_d) (\<lambda>d2. listOf (decodeElems ex_cx (decodeType ex_cx 1) tt_i64 ex_list l 5 d2)) =
      DOk 13 (VSlice (Some cs)) d'" by auto
  with r show ?thesis by (cases "elemsAlloc ex_cx tt_i64 l ex_d") (auto simp: dgo_def)
qed

text \<open>
  C21. And so is the number of entries of a map.
\<close>

theorem map_alloc_bounded:
  assumes "decodeMap cx dt t b c d = DOk i (VMap (Some (n, m))) d'" "tK t = Some kt" "tV t = Some vt"
  shows "n * (minWireSize (tWT kt) + minWireSize (tWT vt)) \<le> length b - 6"
proof -
  let ?w = "minWireSize (tWT kt) + minWireSize (tWT vt)"
  have "\<exists>l\<le>(length b - 6) div ?w. \<exists>kc vc d kc' vc' d'.
      decodeEntries cx dt kt vt b l 6 kc vc [] d = MOk i kc' vc' m d' \<and> n = length m"
    using assms unfolding decodeMap_def
    by (auto simp: dgo_def Let_def tt_deref_def nat_le_iff mapHeaderLen_def intro!: ex_le_nat
        split: if_splits go.splits mres.splits prod.splits) blast+
  then have "n \<le> (length b - 6) div ?w" using decodeEntries_length by fastforce
  then show ?thesis by (metis div_times_less_eq_dividend le_trans mult_le_mono1)
qed

definition ex_map :: bytes where "ex_map = [11, 8, 0, 0, 0, 1, 0, 0, 0, 1, 97, 0, 0, 0, 5]"

lemma ex_decodeMap:
  "\<exists>n m d'. decodeMap ex_cx (decodeType ex_cx 1) tt_m ex_map (VMap None) ex_d = DOk 15 (VMap (Some (n, m))) d'"
proof -
  have b: "index ex_map 0 = Ok 11" "index ex_map 1 = Ok 8" "length ex_map = 15"
    "sliceFrom ex_map 2 = Ok [0, 0, 0, 1, 0, 0, 0, 1, 97, 0, 0, 0, 5]"
    "sliceFrom ex_map 6 = Ok [0, 0, 0, 1, 97, 0, 0, 0, 5]" "sliceFrom ex_map 11 = Ok [0, 0, 0, 5]"
    by (simp_all add: ex_map_def index_def sliceFrom_def)
  have l: "beLen (0 # 0 # 0 # 1 # bs) = Ok 1" for bs by (simp add: beLen_def beUint32_Cons)
  have t: "tK tt_m = Some tt_string" "tV tt_m = Some tt_Color" "tWT tt_string = tSTRING" "tWT tt_Color = tI32"
    "minWireSize tSTRING = 4" "minWireSize tI32 = 4" "tIsPointer tt_string = False" "tIsPointer tt_Color = False"
    "tFixedSize tt_string = 0" "tFixedSize tt_Color = 4" "tT tt_string = tSTRING" "tT tt_Color = tENUM"
    by (simp_all add: tt_defs minWireSize_def typeToSize_def)
  have e: "\<exists>kc' vc' m d'. decodeEntries ex_cx (decodeType ex_cx 1) tt_string tt_Color ex_map (Suc 0) 6 kc vc [] d =
      MOk 15 kc' vc' m d'" for kc vc d
  proof -
    have s: "\<exists>v d'. decodeType ex_cx 1 tt_string [0, 0, 0, 1, 97, 0, 0, 0, 5] kc d = DOk 5 v d'"
      by (simp add: decodeTypeBody_def t decodeString_def strHeaderLen_def l dgo_def)
    have n: "6 + 5 = (11 :: nat)" "11 + 4 = (15 :: nat)" by simp_all
    from s show ?thesis
      by (auto simp: elemCell_def t decodeAt_def dgo_def b decodeFixedSizeTypes_def beUint32_def n Let_def)
  qed
  obtain kc vc d2 where g: "getTmp ex_cx tt_m tt_string tt_Color ex_d = ((kc, vc), d2)"
    by (metis prod.exhaust)
  obtain kc' vc' m d' where m: "decodeEntries ex_cx (decodeType ex_cx 1) tt_string tt_Color ex_map (Suc 0) 6 kc vc [] d2 =
      MOk 15 kc' vc' m d'" using e by blast
  show ?thesis
    unfolding decodeMap_def dgo_def b t
    using m by (simp add: l t g mapHeaderLen_def mallocElems_def dgo_def del: One_nat_def decodeEntries.simps)
qed

theorem map_alloc_bounded_witness:
  "\<exists>n m d'. decodeMap ex_cx (decodeType ex_cx 1) tt_m ex_map (VMap None) ex_d = DOk 15 (VMap (Some (n, m))) d' \<and>
     n * (minWireSize tSTRING + minWireSize tI32) \<le> length ex_map - 6"
proof -
  obtain n m d' where
    r: "decodeMap ex_cx (decodeType ex_cx 1) tt_m ex_map (VMap None) ex_d = DOk 15 (VMap (Some (n, m))) d'"
    using ex_decodeMap by blast
  from map_alloc_bounded [OF r, of tt_string tt_Color] r show ?thesis by (simp add: tt_defs)
qed

end
