(* ===== verification/Utils.thy ===== *)
theory Utils
  imports Prefetch TypeSyntax TypeParserCorrect Equivalence
begin

text \<open>
  The helpers: the names of wire types (\<^verbatim>\<open>ttype.go\<close>), the name of a missing field and the
  check of a set for duplicates (\<^verbatim>\<open>internal/reflect/utils.go\<close>), the fixed wire size of a Go
  type (\<^verbatim>\<open>internal/defs/sizes.go\<close>), and the printing of options and requiredness
  (\<^verbatim>\<open>internal/defs/resolver.go\<close>).
\<close>

subsection \<open>Names\<close>

definition t2s :: "ttype \<Rightarrow> string" where
  "t2s t =
     (if t = tBOOL then ''BOOL'' else if t = tBYTE then ''I08'' else if t = tI16 then ''I16''
      else if t = tI32 then ''I32'' else if t = tI64 then ''I64'' else if t = tDOUBLE then ''DOUBLE''
      else if t = tSTRING then ''STRING'' else if t = tSTRUCT then ''STRUCT''
      else if t = tMAP then ''MAP'' else if t = tSET then ''SET'' else if t = tLIST then ''LIST''
      else if t = tENUM then ''ENUM'' else [])"

definition ttype2str :: "ttype \<Rightarrow> string" where
  "ttype2str t = (if t2s t = [] then ''unknown['' @ decimal (unat t) @ '']'' else t2s t)"

definition Requiredness_String :: "Requiredness \<Rightarrow> string" where
  "Requiredness_String r =
     (case r of Default \<Rightarrow> ''default'' | Required \<Rightarrow> ''required'' | Optional \<Rightarrow> ''optional'')"

text \<open>\<^verbatim>\<open>Options\<close> are a bit set with the one bit \<^verbatim>\<open>NoCopy\<close>.\<close>

definition Options_String :: "8 word \<Rightarrow> string" where
  "Options_String o' = (if o' AND 1 \<noteq> 0 then ''{nocopy}'' else ''{}'')"

text \<open>The first field at an offset.\<close>

fun findName :: "structField list \<Rightarrow> nat \<Rightarrow> string" where
  "findName [] off = ''unknown''"
| "findName (f # fs) off = (if sf_Offset f = off then sf_Name f else findName fs off)"

fun lookupFieldName :: "program \<Rightarrow> rtype \<Rightarrow> nat \<Rightarrow> string go" where
  "lookupFieldName P (RPtr e) off = lookupFieldName P e off"
| "lookupFieldName P (RStruct i n) off = Ok (findName (snd (pr_struct P i)) off)"
| "lookupFieldName P rt off = Panic (ExplicitPanic ''reflect: NumField of non-struct type'')"

subsection \<open>Sets without duplicates\<close>

text \<open>The two loops of \<^verbatim>\<open>checkUnique\<close>; \<open>eq\<close> is the \<^verbatim>\<open>==\<close> of the element type.\<close>

fun uniqueFrom :: "('a \<Rightarrow> 'a \<Rightarrow> bool go) \<Rightarrow> 'a \<Rightarrow> 'a list \<Rightarrow> bool go" where
  "uniqueFrom eq v [] = Ok True"
| "uniqueFrom eq v (w # ws) = gobind (eq v w) (\<lambda>e. if e then Ok False else uniqueFrom eq v ws)"

fun checkUnique :: "('a \<Rightarrow> 'a \<Rightarrow> bool go) \<Rightarrow> 'a list \<Rightarrow> bool go" where
  "checkUnique eq [] = Ok True"
| "checkUnique eq (v # vs) = gobind (uniqueFrom eq v vs) (\<lambda>u. if u then checkUnique eq vs else Ok False)"

text \<open>
  The elements of \<^verbatim>\<open>unsafe.Slice((*T)(h.Data), h.Len)\<close>: slots of exactly the type of the
  case, placed by its size.
\<close>

definition cellEq :: "(gval \<Rightarrow> 'a go) \<Rightarrow> ('a \<Rightarrow> 'a \<Rightarrow> bool) \<Rightarrow> gval \<Rightarrow> gval \<Rightarrow> bool go" where
  "cellEq rd eq a b = gobind (rd a) (\<lambda>x. gobind (rd b) (\<lambda>y. Ok (eq x y)))"

text \<open>\<open>Some rt\<close> is the error that names the type of the elements.\<close>

definition checkUniqueness :: "tType \<Rightarrow> gval list \<Rightarrow> rtype option go" where
  "checkUniqueness t vs =
     (let report = (\<lambda>m. gobind m (\<lambda>uniq. Ok (if uniq then None else Some (tRT t))))
      in if tT t = tBOOL then report (checkUnique (cellEq asBool (=)) vs)
      else if tT t = tBYTE then report (checkUnique (cellEq asByte (=)) vs)
      else if tT t = tI16 then report (checkUnique (cellEq asUint16 (=)) vs)
      else if tT t = tI32 then report (checkUnique (cellEq asUint32 (=)) vs)
      else if tT t = tI64 \<or> tT t = tENUM then report (checkUnique (cellEq asInt64 (=)) vs)
      else if tT t = tDOUBLE then report (checkUnique (cellEq asUint64 f64_eq) vs)
      else if tT t = tSTRING then report (checkUnique (cellEq asString (=)) vs)
      else Ok None)"

lemma checkUnique_sorted_wrt:
  assumes "\<And>a b. a \<in> set vs \<Longrightarrow> b \<in> set vs \<Longrightarrow> eq a b = Ok (E a b)"
  shows "checkUnique eq vs = Ok (sorted_wrt (\<lambda>a b. \<not> E a b) vs)"
  using assms
proof (induction vs)
  case (Cons v vs)
  have "uniqueFrom eq v ws = Ok (\<forall>w\<in>set ws. \<not> E v w)" if "set ws \<subseteq> set vs" for ws
    using that Cons.prems by (induction ws) auto
  with Cons show ?case by simp
qed simp

text \<open>What two elements of a set are compared by: IEEE equality for doubles, else equality.\<close>

definition sameElem :: "tType \<Rightarrow> gval \<Rightarrow> gval \<Rightarrow> bool" where
  "sameElem t a b =
     (case (a, b) of
        (VI64 x, VI64 y) \<Rightarrow> if tT t = tDOUBLE then f64_eq x y else x = y
      | _ \<Rightarrow> a = b)"

text \<open>Elements that are \<^verbatim>\<open>[]byte\<close>, which the code compares as strings.\<close>

definition binaryElem :: "tType \<Rightarrow> bool" where
  "binaryElem t \<longleftrightarrow> tT t = tSTRING \<and> tTag t = T_binary"

lemma confSimple_cell:
  assumes "confSimple True t v"
  shows
    "tT t = tBOOL \<Longrightarrow> \<exists>x. v = VByte x \<and> (x = 0 \<or> x = 1)"
    "tT t = tBYTE \<Longrightarrow> \<exists>x. v = VByte x" "tT t = tI16 \<Longrightarrow> \<exists>x. v = VI16 x"
    "tT t = tI32 \<Longrightarrow> \<exists>x. v = VI32 x" "tT t = tI64 \<or> tT t = tENUM \<Longrightarrow> \<exists>x. v = VI64 x"
    "tT t = tDOUBLE \<Longrightarrow> \<exists>x. v = VI64 x"
    "tT t = tSTRING \<Longrightarrow> (if binaryElem t then \<exists>q. v = VBytes q else \<exists>s. v = VString s)"
  by (use assms in \<open>cases v; auto simp: confSimple_def binaryElem_def split: if_splits\<close>)+

lemma confSimple_cellEq:
  assumes "confSimple True t a" "confSimple True t b"
  shows
    "tT t = tBOOL \<Longrightarrow> cellEq asBool (=) a b = Ok (sameElem t a b)"
    "tT t = tBYTE \<Longrightarrow> cellEq asByte (=) a b = Ok (sameElem t a b)"
    "tT t = tI16 \<Longrightarrow> cellEq asUint16 (=) a b = Ok (sameElem t a b)"
    "tT t = tI32 \<Longrightarrow> cellEq asUint32 (=) a b = Ok (sameElem t a b)"
    "tT t = tI64 \<or> tT t = tENUM \<Longrightarrow> cellEq asInt64 (=) a b = Ok (sameElem t a b)"
    "tT t = tDOUBLE \<Longrightarrow> cellEq asUint64 f64_eq a b = Ok (sameElem t a b)"
    "tT t = tSTRING \<Longrightarrow>
       cellEq asString (=) a b = (if binaryElem t then Panic BadMemory else Ok (sameElem t a b))"
  using confSimple_cell [OF assms(1)] confSimple_cell [OF assms(2)]
  by (auto simp: cellEq_def sameElem_def simp del: gobind_Ok_iff split: if_splits)

text \<open>The first comparison that panics ends the check.\<close>

lemma checkUnique_panic:
  assumes "eq v w = Panic p"
  shows "checkUnique eq (v # w # ws) = Panic p"
  using assms by simp

lemma checkUniqueness_simple:
  assumes "simpleTypes (tT t)" "\<And>v. v \<in> set vs \<Longrightarrow> confSimple True t v"
  shows "checkUniqueness t vs =
    (if binaryElem t \<and> 2 \<le> length vs then Panic BadMemory
     else Ok (if sorted_wrt (\<lambda>a b. \<not> sameElem t a b) vs then None else Some (tRT t)))"
proof (cases "binaryElem t")
  case False
  have *: "checkUnique eq vs = Ok (sorted_wrt (\<lambda>a b. \<not> sameElem t a b) vs)"
    if "\<And>a b. confSimple True t a \<Longrightarrow> confSimple True t b \<Longrightarrow> eq a b = Ok (sameElem t a b)" for eq
    using that assms(2) by (intro checkUnique_sorted_wrt) auto
  have "cellEq asString (=) a b = Ok (sameElem t a b)"
    if "tT t = tSTRING" "confSimple True t a" "confSimple True t b" for a b
    using confSimple_cellEq(7) [OF that(2,3,1)] False by simp
  with confSimple_cellEq(1-6) [THEN *] * show ?thesis
    using assms(1) False by (auto simp: checkUniqueness_def simpleTypes_def)
next
  case True
  then have T: "tT t = tSTRING" by (simp add: binaryElem_def)
  consider "vs = []" | v where "vs = [v]" | v w ws where "vs = v # w # ws"
    by (metis list.exhaust)
  then show ?thesis
  proof cases
    case 3
    then have "cellEq asString (=) v w = Panic BadMemory"
      using confSimple_cellEq(7) [of t v w] assms(2) True T by simp
    then have "checkUnique (cellEq asString (=)) vs = Panic BadMemory"
      unfolding 3 by (rule checkUnique_panic)
    then show ?thesis using 3 True T by (simp add: checkUniqueness_def del: checkUnique.simps)
  qed (simp_all add: checkUniqueness_def T)
qed

subsection \<open>The wire size of a Go type\<close>

text \<open>
  \<^verbatim>\<open>GetSize\<close>, \<open>-1\<close> for a type of no fixed size. The struct types of a program nest only
  finitely deep by value; the fuel bounds that depth.
\<close>

definition IntSize :: int where "IntSize = 8"

definition measureInt64 :: "rtype \<Rightarrow> int" where
  "measureInt64 vt = (if vt = i64type then 8 else 4)"

fun measureFields :: "(rtype \<Rightarrow> int go) \<Rightarrow> structField list \<Rightarrow> int \<Rightarrow> int go" where
  "measureFields sz [] rs = Ok (rs + 1)"
| "measureFields sz (sf # sfs) rs =
     gobind (sz (sf_Type sf)) (\<lambda>fs. if fs > 0 then measureFields sz sfs (rs + fs + 3) else Ok (-1))"

fun GetSize :: "program \<Rightarrow> nat \<Rightarrow> rtype \<Rightarrow> int go" where
  "GetSize P n (RBasic k p nm) =
     (if k = K_Bool then Ok 1 else if k = K_Int then Ok IntSize else if k = K_Int8 then Ok 1
      else if k = K_Int16 then Ok 2 else if k = K_Int32 then Ok 4
      else if k = K_Int64 then Ok (measureInt64 (RBasic k p nm)) else if k = K_Float64 then Ok 8
      else if k \<in> {K_Map, K_Ptr, K_Slice, K_String} then Ok (-1)
      else Panic (ExplicitPanic ''unsupported type by Thrift''))"
| "GetSize P n (RMap nm k v) = Ok (-1)"
| "GetSize P n (RPtr e) = Ok (-1)"
| "GetSize P n (RSlice nm e) = Ok (-1)"
| "GetSize P 0 (RStruct i nm) = Panic StackOverflow"
| "GetSize P (Suc n) (RStruct i nm) = measureFields (GetSize P n) (snd (pr_struct P i)) 0"
| "GetSize P n (RArray nm l e) = Panic (ExplicitPanic ''unsupported type by Thrift'')"

text \<open>The size is that of the wire type, when exactly the named \<^verbatim>\<open>int64\<close> types are enums.\<close>

definition namedInt64 :: "rtype \<Rightarrow> bool" where
  "namedInt64 vt \<longleftrightarrow> rt_Kind vt = K_Int64 \<and> vt \<noteq> i64type"

lemma GetSize_tyOf:
  assumes "tyOf vt ty" "ty_T ty \<noteq> T_struct" "namedInt64 vt \<longleftrightarrow> ty_T ty = T_enum"
  shows "GetSize P n vt =
    Ok (if ty_T ty \<noteq> T_pointer \<and> typeToSize (ttype_of ty) > 0 then int (typeToSize (ttype_of ty)) else -1)"
proof (cases vt)
  case (RBasic k p nm)
  then show ?thesis
    using assms by (cases k) (auto simp: basicTagOf_def typeToSize_def measureInt64_def IntSize_def
        namedInt64_def split: if_splits)
qed (use assms in \<open>auto simp: typeToSize_def split: if_splits\<close>)

end
