(* ===== verification/TTypeCache.thy ===== *)
theory TTypeCache
  imports TypeSyntax TType
begin

text \<open>
  \<^verbatim>\<open>newTType\<close> with its cache \<^verbatim>\<open>ttypes\<close> (\<^verbatim>\<open>internal/reflect/ttype.go\<close>): the objects are
  on a heap, a \<^verbatim>\<open>*tType\<close> is an index into it, and a new object is published in the cache
  before its elements are made. \<open>represents\<close> says that an object and what it points to is a
  descriptor of theory \<open>TType\<close>.
\<close>

subsection \<open>The heap\<close>

record ttobj =
  o_T :: ttype
  o_K :: "nat option"
  o_V :: "nat option"
  o_WT :: ttype
  o_Tag :: Tag
  o_RT :: rtype
  o_Size :: nat
  o_Align :: nat
  o_MallocAbiType :: "rtype option"
  o_IsPointer :: bool
  o_SimpleType :: bool
  o_FixedSize :: nat
  o_AppendFunc :: "appendFn option" \<comment> \<open>nil until it is set\<close>

record ttypes =
  tt_cache :: "string \<times> rtype \<rightharpoonup> nat" \<comment> \<open>\<^verbatim>\<open>ttypes\<close>, by \<^verbatim>\<open>ttypesK\<close>\<close>
  tt_objs :: "ttobj list"

definition tt_upd :: "nat \<Rightarrow> (ttobj \<Rightarrow> ttobj) \<Rightarrow> ttypes \<Rightarrow> ttypes" where
  "tt_upd a f st = st\<lparr>tt_objs := (tt_objs st)[a := f (tt_objs st ! a)]\<rparr>"

lemma tt_upd_simps [simp]:
  "tt_objs (tt_upd a f st) = (tt_objs st)[a := f (tt_objs st ! a)]" "tt_cache (tt_upd a f st) = tt_cache st"
  by (simp_all add: tt_upd_def)

text \<open>The choice of the append function reads \<^verbatim>\<open>t.K.T\<close> and \<^verbatim>\<open>t.V.T\<close>.\<close>

definition pick_at :: "ttype \<Rightarrow> nat option \<Rightarrow> nat option \<Rightarrow> ttobj list \<Rightarrow> appendFn go" where
  "pick_at T K V os =
     (let load = (\<lambda>p. case p of None \<Rightarrow> Panic NilDeref | Some a \<Rightarrow> Ok (o_T (os ! a)))
      in if T = tLIST \<or> T = tSET then
           gobind (load V) (\<lambda>v. case listAppendFuncs v of Some f \<Rightarrow> Ok f | None \<Rightarrow> Ok AppendListAny)
         else if T = tMAP then
           gobind (load K) (\<lambda>k. gobind (load V) (\<lambda>v.
             case mapAppendFuncs (k, v) of Some f \<Rightarrow> Ok f | None \<Rightarrow> Ok AppendMapAnyAny))
         else if T = tSTRUCT then Ok AppendStruct
         else Ok AppendAny)"

fun newTTypeCached :: "(nat \<Rightarrow> nat \<times> nat) \<Rightarrow> Type \<Rightarrow> ttypes \<Rightarrow> (nat \<times> ttypes) go" where
  "newTTypeCached lay (Type tg k v s) st =
     gobind (Type_String (Type tg k v s)) (\<lambda>str.
     case tt_cache st (str, s) of
       Some a \<Rightarrow> Ok (a, st)
     | None \<Rightarrow>
         gobind (Type_Tag (Type tg k v s)) (\<lambda>wt.
         gobind (Type_IsEnum (Type tg k v s)) (\<lambda>en.
         let a = length (tt_objs st);
             T = (if en then tENUM else wt);
             isp = (tg = T_pointer);
             ob = \<lparr>o_T = T, o_K = None, o_V = None, o_WT = wt, o_Tag = tg, o_RT = s,
                   o_Size = rt_Size lay s, o_Align = rt_Align lay s,
                   o_MallocAbiType = (if rt_Kind s \<in> set abi_kinds then Some s else None),
                   o_IsPointer = isp, o_SimpleType = simpleTypes T, o_FixedSize = typeToSize T,
                   o_AppendFunc = None\<rparr>;
             st = \<lparr>tt_cache = (tt_cache st)((str, s) \<mapsto> a), tt_objs = tt_objs st @ [ob]\<rparr>
         in
         gobind (case k of None \<Rightarrow> Ok (None, st)
                 | Some k' \<Rightarrow> gobind (newTTypeCached lay k' st) (\<lambda>(x, st). Ok (Some x, st))) (\<lambda>(K, st).
         let st = tt_upd a (\<lambda>t. t\<lparr>o_K := K\<rparr>) st
         in
         gobind (case v of None \<Rightarrow> Ok (None, st)
                 | Some v' \<Rightarrow> gobind (newTTypeCached lay v' st) (\<lambda>(x, st). Ok (Some x, st))) (\<lambda>(V, st).
         let st = tt_upd a (\<lambda>t. t\<lparr>o_V := V\<rparr>) st
         in
         gobind (pick_at T K V (tt_objs st)) (\<lambda>f.
         let st = tt_upd a (\<lambda>t. t\<lparr>o_AppendFunc := Some f\<rparr>) st
         in
         gobind (if isp then (case V of None \<Rightarrow> Panic NilDeref | Some x \<Rightarrow> Ok (o_IsPointer (tt_objs st ! x)))
                 else Ok False) (\<lambda>pp.
         if pp then Panic (ExplicitPanic ''doesn't support multilevel pointers like **p'')
         else Ok (a, st))))))))"

subsection \<open>Objects and descriptors\<close>

fun represents :: "ttobj list \<Rightarrow> tType \<Rightarrow> nat \<Rightarrow> bool" where
  "represents os (TType T K V wt tg rt sz al abi isp sim fsz fn) a \<longleftrightarrow>
     a < length os \<and>
     (case K of None \<Rightarrow> o_K (os ! a) = None
      | Some k \<Rightarrow> (case o_K (os ! a) of Some x \<Rightarrow> represents os k x | None \<Rightarrow> False)) \<and>
     (case V of None \<Rightarrow> o_V (os ! a) = None
      | Some v \<Rightarrow> (case o_V (os ! a) of Some x \<Rightarrow> represents os v x | None \<Rightarrow> False)) \<and>
     os ! a = \<lparr>o_T = T, o_K = o_K (os ! a), o_V = o_V (os ! a), o_WT = wt, o_Tag = tg, o_RT = rt,
       o_Size = sz, o_Align = al, o_MallocAbiType = abi, o_IsPointer = isp, o_SimpleType = sim,
       o_FixedSize = fsz, o_AppendFunc = Some fn\<rparr>"

text \<open>Objects are never changed once they are complete.\<close>

definition extends :: "ttobj list \<Rightarrow> ttobj list \<Rightarrow> bool" where
  "extends os os' \<longleftrightarrow> (\<exists>xs. os' = os @ xs)"

lemma represents_extends: "extends os os' \<Longrightarrow> represents os t a \<Longrightarrow> represents os' t a"
proof (induction os t a rule: represents.induct)
  case (1 os T K V wt tg rt sz al abi isp sim fsz fn a)
  have "os' ! a = os ! a" "a < length os'"
    using 1(3,4) by (auto simp: extends_def nth_append)
  with 1 show ?case by (simp split: option.splits)
qed

lemma extends_trans: "extends a b \<Longrightarrow> extends b c \<Longrightarrow> extends a c"
  by (auto simp: extends_def)

lemma extends_upd: "extends os os' \<Longrightarrow> length os \<le> a \<Longrightarrow> extends os (os'[a := x])"
  by (auto simp: extends_def list_update_append)

lemma represents_fields:
  "represents os t a \<Longrightarrow> a < length os \<and> o_T (os ! a) = tT t \<and> o_IsPointer (os ! a) = tIsPointer t"
  by (cases t) (auto intro: arg_cong [where f = o_T] dest: arg_cong [where f = o_T] arg_cong [where f = o_IsPointer])

text \<open>
  The state between two calls, with the keys of the objects under construction: every other
  cached object represents the descriptor of its type.
\<close>

definition cacheInv :: "(nat \<Rightarrow> nat \<times> nat) \<Rightarrow> (string \<times> rtype) set \<Rightarrow> ttypes \<Rightarrow> bool" where
  "cacheInv lay pend st \<longleftrightarrow>
     (\<forall>str S a. tt_cache st (str, S) = Some a \<longrightarrow> (str, S) \<notin> pend \<longrightarrow>
        (\<exists>ty t. tyOf S ty \<and> Type_String ty = Ok str \<and> newTType lay ty = Ok t \<and> represents (tt_objs st) t a))"

lemma pick_at_eq:
  assumes "rel_option (represents os) K' K" "rel_option (represents os) V' V"
  shows "pick_at T K V os = pick_AppendFunc T K' V'"
  using assms represents_fields
  by (auto simp: pick_at_def pick_AppendFunc_def updateListAppendFunc_def updateMapAppendFunc_def
      option_rel_Some1 tt_deref_def rel_option_iff split: option.splits)

text \<open>An object under construction, with a nil \<^verbatim>\<open>AppendFunc\<close>, is not part of a descriptor.\<close>

lemma represents_upd:
  "o_AppendFunc (os ! a) = None \<Longrightarrow> represents os t b \<Longrightarrow> represents (os[a := x]) t b"
proof (induction os t b rule: represents.induct)
  case (1 os T K V wt tg rt sz al abi isp sim fsz fn b)
  have "o_AppendFunc (os ! b) = Some fn"
    using 1(4) by (auto intro: arg_cong [where f = o_AppendFunc] dest: arg_cong [where f = o_AppendFunc])
  with 1(3) have "a \<noteq> b" by force
  then have "os[a := x] ! b = os ! b" by simp
  with 1 show ?case by (simp split: option.splits)
qed

lemma cacheInv_upd:
  "cacheInv lay pend st \<Longrightarrow> o_AppendFunc (tt_objs st ! a) = None \<Longrightarrow> cacheInv lay pend (tt_upd a f st)"
  using represents_upd [of "tt_objs st" a] by (simp add: cacheInv_def) blast

lemma tyOf_children:
  assumes "tyOf vt (Type tg k v s)"
  shows "s = vt" "k = Some k' \<Longrightarrow> \<exists>r. tyOf r k' \<and> size r < size vt"
    "v = Some v' \<Longrightarrow> \<exists>r. tyOf r v' \<and> size r < size vt"
  using assms by (cases vt; auto split: if_splits)+

lemma newTTypeCached_ok:
  "tyOf vt ty \<Longrightarrow> newTType lay ty = Ok t \<Longrightarrow> Type_String ty = Ok str \<Longrightarrow> cacheInv lay pend st \<Longrightarrow>
   (\<And>s S. (s, S) \<in> pend \<Longrightarrow> size vt < size S) \<Longrightarrow>
   \<exists>a st'. newTTypeCached lay ty st = Ok (a, st') \<and> represents (tt_objs st') t a \<and>
     cacheInv lay pend st' \<and> extends (tt_objs st) (tt_objs st') \<and>
     tt_cache st \<subseteq>\<^sub>m tt_cache st' \<and> tt_cache st' (str, vt) = Some a"
proof (induction ty arbitrary: vt t str pend st)
  case (Type tg k v s)
  note s = tyOf_children(1) [OF Type.prems(1)]
  show ?case
  proof (cases "tt_cache st (str, s)")
    case (Some a)
    have "(str, s) \<notin> pend" using Type.prems(5) s by blast
    then obtain ty' t' where "tyOf s ty'" "Type_String ty' = Ok str" "newTType lay ty' = Ok t'"
      "represents (tt_objs st) t' a"
      using Some Type.prems(4) unfolding cacheInv_def by blast
    moreover from this String_inj [of s ty' "Type tg k v s"] Type.prems(1,3) s
    have "ty' = Type tg k v s" by simp
    ultimately show ?thesis
      using Some Type.prems(2-4) s by (auto simp: extends_def simp del: Type_String.simps newTType.simps)
  next
    case None
    define a where "a = length (tt_objs st)"
    define pend' where "pend' = insert (str, s) pend"
    from Type.prems(2) obtain wt en K V f where
      wt: "Type_Tag (Type tg k v s) = Ok wt" and en: "Type_IsEnum (Type tg k v s) = Ok en" and
      K: "(case k of None \<Rightarrow> Ok None | Some k' \<Rightarrow> gobind (newTType lay k') (\<lambda>x. Ok (Some x))) = Ok K" and
      V: "(case v of None \<Rightarrow> Ok None | Some v' \<Rightarrow> gobind (newTType lay v') (\<lambda>x. Ok (Some x))) = Ok V" and
      f: "pick_AppendFunc (if en then tENUM else wt) K V = Ok f" and
      pp: "tg = T_pointer \<Longrightarrow> \<exists>y. V = Some y \<and> \<not> tIsPointer y" and
      t: "t = TType (if en then tENUM else wt) K V wt tg s (rt_Size lay s) (rt_Align lay s)
           (if rt_Kind s \<in> set abi_kinds then Some s else None) (tg = T_pointer)
           (simpleTypes (if en then tENUM else wt)) (typeToSize (if en then tENUM else wt)) f"
      unfolding newTType.simps Let_def
      by (auto simp: tt_deref_def simp del: Type_Tag.simps Type_IsEnum.simps newTType.simps split: if_splits option.splits)
    have step: "\<exists>x st2. (case c of None \<Rightarrow> Ok (None, st1)
                 | Some k' \<Rightarrow> gobind (newTTypeCached lay k' st1) (\<lambda>(x, st). Ok (Some x, st))) = Ok (x, st2) \<and>
        rel_option (represents (tt_objs st2)) C x \<and> cacheInv lay pend' st2 \<and>
        extends (tt_objs st1) (tt_objs st2) \<and> tt_cache st1 \<subseteq>\<^sub>m tt_cache st2"
      if c: "c = k \<and> C = K \<or> c = v \<and> C = V" "cacheInv lay pend' st1" for c C st1
    proof (cases c)
      case None
      then show ?thesis using c K V by (auto simp: extends_def)
    next
      case (Some x)
      then obtain r y where r: "tyOf r x" "size r < size vt" "newTType lay x = Ok y" "C = Some y"
        "x \<in> set_option k \<or> x \<in> set_option v"
        using c(1) K V tyOf_children(2,3) [OF Type.prems(1)] by fastforce
      obtain u where u: "Type_String x = Ok u" using Type_String_Ok [OF r(1)] by blast
      have "size r < size S" if "(s', S) \<in> pend'" for s' S
        using that r(2) Type.prems(5) s by (fastforce simp: pend'_def)
      with Type.IH r(5) r(1,3) u c(2) obtain b st2 where
        "newTTypeCached lay x st1 = Ok (b, st2)" "represents (tt_objs st2) y b" "cacheInv lay pend' st2"
        "extends (tt_objs st1) (tt_objs st2)" "tt_cache st1 \<subseteq>\<^sub>m tt_cache st2"
        by blast
      then show ?thesis using Some r(4) by auto
    qed
    let ?T = "if en then tENUM else wt"
    define ob where "ob = \<lparr>o_T = ?T, o_K = None, o_V = None, o_WT = wt, o_Tag = tg, o_RT = s,
                   o_Size = rt_Size lay s, o_Align = rt_Align lay s,
                   o_MallocAbiType = (if rt_Kind s \<in> set abi_kinds then Some s else None),
                   o_IsPointer = (tg = T_pointer), o_SimpleType = simpleTypes ?T, o_FixedSize = typeToSize ?T,
                   o_AppendFunc = None\<rparr>"
    define st1 where "st1 = \<lparr>tt_cache = (tt_cache st)((str, s) \<mapsto> a), tt_objs = tt_objs st @ [ob]\<rparr>"
    have ob: "tt_objs st1 ! a = ob" "a < length (tt_objs st1)" by (simp_all add: st1_def a_def)
    have ext1: "extends (tt_objs st) (tt_objs st1)" by (simp add: st1_def extends_def)
    with Type.prems(4) have "cacheInv lay pend' st1"
      unfolding cacheInv_def st1_def pend'_def by (simp split: if_splits) (blast intro: represents_extends)
    from step [of k K, OF _ this] obtain xK st2 where xK:
      "(case k of None \<Rightarrow> Ok (None, st1)
                 | Some k' \<Rightarrow> gobind (newTTypeCached lay k' st1) (\<lambda>(x, st). Ok (Some x, st))) = Ok (xK, st2)"
      "rel_option (represents (tt_objs st2)) K xK" "cacheInv lay pend' st2"
      "extends (tt_objs st1) (tt_objs st2)" "tt_cache st1 \<subseteq>\<^sub>m tt_cache st2" by blast
    define st3 where "st3 = tt_upd a (\<lambda>t. t\<lparr>o_K := xK\<rparr>) st2"
    have ob2: "tt_objs st2 ! a = ob" "a < length (tt_objs st2)"
      using ob xK(4) by (auto simp: extends_def nth_append)
    have nil: "o_AppendFunc ob = None" by (simp add: ob_def)
    have st3: "cacheInv lay pend' st3" "tt_objs st3 ! a = ob\<lparr>o_K := xK\<rparr>" "a < length (tt_objs st3)"
      using cacheInv_upd [OF xK(3), of a] ob2 nil by (simp_all add: st3_def)
    from step [of v V, OF _ st3(1)] obtain xV st4 where xV:
      "(case v of None \<Rightarrow> Ok (None, st3)
                 | Some v' \<Rightarrow> gobind (newTTypeCached lay v' st3) (\<lambda>(x, st). Ok (Some x, st))) = Ok (xV, st4)"
      "rel_option (represents (tt_objs st4)) V xV" "cacheInv lay pend' st4"
      "extends (tt_objs st3) (tt_objs st4)" "tt_cache st3 \<subseteq>\<^sub>m tt_cache st4" by blast
    define st5 where "st5 = tt_upd a (\<lambda>t. t\<lparr>o_V := xV\<rparr>) st4"
    have ob4: "tt_objs st4 ! a = ob\<lparr>o_K := xK\<rparr>" "a < length (tt_objs st4)"
      using st3 xV(4) by (auto simp: extends_def nth_append)
    have st5: "cacheInv lay pend' st5" "tt_objs st5 ! a = ob\<lparr>o_K := xK, o_V := xV\<rparr>" "a < length (tt_objs st5)"
      using cacheInv_upd [OF xV(3), of a] ob4 nil by (simp_all add: st5_def)
    define st6 where "st6 = tt_upd a (\<lambda>t. t\<lparr>o_AppendFunc := Some f\<rparr>) st5"
    have st6: "cacheInv lay pend' st6" "a < length (tt_objs st6)"
      "tt_objs st6 ! a = ob\<lparr>o_K := xK, o_V := xV, o_AppendFunc := Some f\<rparr>"
      using cacheInv_upd [OF st5(1), of a] st5 nil by (simp_all add: st6_def)
    have ext: "extends (tt_objs st) (tt_objs st6)"
      using ext1 extends_trans [OF _ xK(4)] extends_trans [OF _ xV(4)]
      unfolding st6_def st5_def st3_def by (auto simp: a_def intro: extends_upd)
    have rK: "rel_option (represents (tt_objs st5)) K xK" "rel_option (represents (tt_objs st6)) K xK"
    proof -
      have "rel_option (represents (tt_objs st4)) K xK"
        using xK(2) ob2 nil represents_extends [OF xV(4)]
        by (auto elim!: option.rel_mono_strong simp: st3_def intro: represents_upd)
      then show "rel_option (represents (tt_objs st5)) K xK"
        using ob4 nil by (auto elim!: option.rel_mono_strong simp: st5_def intro: represents_upd)
      then show "rel_option (represents (tt_objs st6)) K xK"
        using st5 nil by (auto elim!: option.rel_mono_strong simp: st6_def intro: represents_upd)
    qed
    have rV: "rel_option (represents (tt_objs st5)) V xV" "rel_option (represents (tt_objs st6)) V xV"
    proof -
      show "rel_option (represents (tt_objs st5)) V xV"
        using xV(2) ob4 nil by (auto elim!: option.rel_mono_strong simp: st5_def intro: represents_upd)
      then show "rel_option (represents (tt_objs st6)) V xV"
        using st5 nil by (auto elim!: option.rel_mono_strong simp: st6_def intro: represents_upd)
    qed
    have rep: "represents (tt_objs st6) t a"
      using rK(2) rV(2) st6(2,3) by (auto simp: t ob_def rel_option_iff split: option.splits)
    have mono: "tt_cache st \<subseteq>\<^sub>m tt_cache st6" "tt_cache st6 (str, s) = Some a"
    proof -
      have "tt_cache st1 \<subseteq>\<^sub>m tt_cache st6"
        using xK(5) xV(5) by (auto simp: st6_def st5_def st3_def intro: map_le_trans)
      then show "tt_cache st \<subseteq>\<^sub>m tt_cache st6" "tt_cache st6 (str, s) = Some a"
        using None by (auto simp: st1_def map_le_def dom_def split: if_splits)
    qed
    have inv: "cacheInv lay pend st6"
      unfolding cacheInv_def
    proof (intro allI impI)
      fix str' S b assume b: "tt_cache st6 (str', S) = Some b" "(str', S) \<notin> pend"
      show "\<exists>ty t. tyOf S ty \<and> Type_String ty = Ok str' \<and> newTType lay ty = Ok t \<and>
          represents (tt_objs st6) t b"
      proof (cases "(str', S) = (str, s)")
        case True
        with b(1) mono(2) s have "b = a" "str' = str" "S = vt" by auto
        with rep Type.prems(1-3) show ?thesis by blast
      next
        case False
        with b st6(1) show ?thesis unfolding cacheInv_def pend'_def by blast
      qed
    qed
    have pick: "pick_at ?T xK xV (tt_objs st5) = Ok f"
      using pick_at_eq [OF rK(1) rV(1)] f by simp
    have np: "\<exists>x. xV = Some x \<and> \<not> o_IsPointer (tt_objs st6 ! x)" if "tg = T_pointer"
      using pp [OF that] rV(2) represents_fields by (fastforce simp: option_rel_Some1)
    note step_simps = newTTypeCached.simps Let_def wt en Type.prems(3) gobind.simps None option.case
        a_def [symmetric] ob_def [symmetric] st1_def [symmetric] xK(1) prod.case
        st3_def [symmetric] xV(1) st5_def [symmetric]
    have run: "newTTypeCached lay (Type tg k v s) st = Ok (a, st6)"
    proof (cases "tg = T_pointer")
      case True
      with np obtain x where "xV = Some x" "\<not> o_IsPointer (tt_objs st6 ! x)" by blast
      with True pick show ?thesis unfolding step_simps by (simp add: st6_def [symmetric] del: tt_upd_simps)
    next
      case False
      with pick show ?thesis unfolding step_simps by (simp add: st6_def [symmetric] del: tt_upd_simps)
    qed
    from ext rep inv run mono s show ?thesis by blast
  qed
qed

end
