(* ===== verification/GetSizeCorrect.thy ===== *)
theory GetSizeCorrect
  imports Utils Program MapTypes
begin

text \<open>
  \<^verbatim>\<open>GetSize\<close> against the wire specification: when it gives a size, structs included, every
  conforming value has an encoding of that length.
\<close>

subsection \<open>The types it is right for\<close>

text \<open>\<^verbatim>\<open>GetSize\<close> takes exactly the named \<^verbatim>\<open>int64\<close> types for enums.\<close>

definition enumNamed :: "rtype \<Rightarrow> Type \<Rightarrow> bool" where
  "enumNamed vt ty \<longleftrightarrow> (namedInt64 vt \<longleftrightarrow> ty_T ty = T_enum)"

text \<open>
  \<^verbatim>\<open>measureStruct\<close> counts every field of the Go struct: each one must be a Thrift field that is
  always written, and no unknown fields are kept.
\<close>

definition plainStruct :: "goStruct \<Rightarrow> structField list \<Rightarrow> bool" where
  "plainStruct g sfs \<longleftrightarrow>
     gs_unknown g = None \<and>
     (\<forall>sf\<in>set sfs. goType (sf_Type sf) \<and> hasCell (initMem g) sf \<and> taggedField sf) \<and>
     (\<forall>ff. DoResolveFields g sfs = Val ff \<longrightarrow>
        (\<forall>f\<in>set ff. enumNamed (ty_S (F_Type f)) (F_Type f) \<and>
           (F_Spec f = Optional \<longrightarrow> deref_default (F_Default f) = None)))"

definition plainStructs :: "program \<Rightarrow> bool" where
  "plainStructs P \<longleftrightarrow> (\<forall>i. case pr_struct P i of (g, sfs) \<Rightarrow> plainStruct g sfs)"

subsection \<open>Fields\<close>

lemma fromDefsFields_built:
  assumes "fromDefsFields lay ff d0 = Ok d"
  shows "list_all2 (\<lambda>f x. fromDefsField lay f = Ok x) ff (sd_fields d) \<and>
    hasUnknownFields d = hasUnknownFields d0"
proof -
  from assms obtain idx xs where xs: "fill_fields lay ff 0 (replicate (unat (maxFieldID ff + 1)) (-1)) [] = Ok (idx, xs)"
    by (auto simp: fromDefsFields_def Let_def)
  obtain n vs rs where s: "sum_fields xs 0 (0, [], []) = (n, vs, rs)" by (metis prod.exhaust)
  from assms have "sd_fields d = xs \<and> hasUnknownFields d = hasUnknownFields d0"
    by (auto simp: fromDefsFields_def Let_def xs s)
  with fill_fields_Ok(2) [OF xs] show ?thesis by simp
qed

lemma newStructDesc_built:
  assumes "newStructDesc lay g ff = Ok sd"
  shows "list_all2 (\<lambda>f x. fromDefsField lay f = Ok x) ff (sd_fields sd)"
    and "gs_unknown g = None \<Longrightarrow> \<not> hasUnknownFields sd"
  using assms fromDefsFields_built [of lay ff]
  by (force simp: newStructDesc_def Let_def split: option.splits prod.splits if_splits)+

definition sizeOf :: "(rtype \<Rightarrow> int go) \<Rightarrow> rtype \<Rightarrow> int" where
  "sizeOf sz vt = (case sz vt of Ok s \<Rightarrow> s | Panic p \<Rightarrow> 0)"

lemma measureFields_sum:
  assumes "measureFields sz sfs rs = Ok s" "s > 0"
  shows "(\<forall>sf\<in>set sfs. sz (sf_Type sf) = Ok (sizeOf sz (sf_Type sf)) \<and> sizeOf sz (sf_Type sf) > 0) \<and>
    s = rs + 1 + (\<Sum>sf\<leftarrow>sfs. sizeOf sz (sf_Type sf) + 3)"
  using assms
proof (induction sfs arbitrary: rs)
  case (Cons sf sfs)
  then obtain x where x: "sz (sf_Type sf) = Ok x" "x > 0" "measureFields sz sfs (rs + x + 3) = Ok s"
    by (auto split: if_splits)
  from Cons.IH [OF x(3) Cons.prems(2)] x(1,2) show ?case by (simp add: sizeOf_def)
qed simp

lemma fixed_encoding:
  assumes "confSimple True t v" "typeToSize (tT t) > 0"
  shows "\<exists>bs. specSimple t v = Some bs \<and> length bs = typeToSize (tT t)"
  using assms
  by (cases v) (auto simp: confSimple_def specSimple_eq typeToSize_def appendUint16_def appendUint32_def
      appendUint64_def split: if_splits)

text \<open>A type with a size is a scalar or a struct.\<close>

lemma GetSize_pos:
  assumes "GetSize P n vt = Ok s" "s > 0"
  shows "(\<exists>k p nm. vt = RBasic k p nm) \<or> (\<exists>i nm. vt = RStruct i nm)"
  using assms by (cases vt) auto

subsection \<open>Scalars\<close>

lemma GetSize_scalar:
  assumes "GetSize P n (RBasic kd p nm) = Ok s" "s > 0" "tyOf (RBasic kd p nm) ty"
    "enumNamed (RBasic kd p nm) ty" "newTType lay ty = Ok t" "conf True env k t v"
  shows "\<exists>bs. specV env k t v = Some bs \<and> int (length bs) = s"
proof -
  from assms(3) have ty: "ty_T ty \<noteq> T_struct" "ty_T ty \<noteq> T_pointer"
    using tyOf_struct [OF assms(3)] tyOf_pointer [OF assms(3)] by auto
  note sel = newTType_sel [OF tyOf_valid [OF assms(3)] assms(5)]
  from GetSize_tyOf [OF assms(3) ty(1)] assms(1,2,4) have s: "s = int (typeToSize (tT t))" "typeToSize (tT t) > 0"
    by (auto simp: enumNamed_def sel(1) split: if_splits)
  then have st: "simpleTypes (tT t)" by (simp add: typeToSize_pos)
  from assms(6) obtain m where m: "k = Suc m" by (cases k) auto
  have c: "confSimple True t v" using assms(6) st sel(3) ty(2) by (simp add: m)
  from fixed_encoding [OF c s(2)] show ?thesis using st sel(3) ty(2) s(1) by (simp add: m)
qed

subsection \<open>Structs\<close>

text \<open>What the descriptor's field comes from.\<close>

lemma field_origin:
  assumes P: "plainStruct g sfs" and ff: "DoResolveFields g sfs = Val ff"
    and sd: "newStructDesc lay g ff = Ok sd" and x: "x \<in> set (sd_fields sd)"
  obtains f :: Field and sf where "sf \<in> set sfs" "tyOf (sf_Type sf) (F_Type f)" "newTType lay (F_Type f) = Ok (fType x)"
    "enumNamed (sf_Type sf) (F_Type f)" "\<not> fCanSkipIfDefault x"
    "fCanSkipEncodeIfNil x \<longrightarrow>
       tTag (fType x) = T_pointer \<or> tTag (fType x) = T_binary \<or> containerTypes (tT (fType x))"
proof -
  from DoResolveFields_good [of sfs g] P ff obtain fs where fs: "mset ff = mset fs"
    "list_all2 (resolvedFrom (initMem g)) (filter taggedField sfs) fs"
    by (auto simp: plainStruct_def)
  from list_all2_in [OF newStructDesc_built(1) [OF sd] x] obtain f where
    f: "f \<in> set ff" "fromDefsField lay f = Ok x" by blast
  have "f \<in> set fs" using f(1) fs(1) by (metis set_mset_mset)
  from list_all2_in [OF fs(2) this] obtain sf where sf: "sf \<in> set sfs" "tyOf (sf_Type sf) (F_Type f)"
    by (auto simp: resolvedFrom_def)
  from P ff f(1) have e: "enumNamed (ty_S (F_Type f)) (F_Type f)"
    "F_Spec f = Optional \<Longrightarrow> deref_default (F_Default f) = None" by (auto simp: plainStruct_def)
  from f(2) obtain t where t: "newTType lay (F_Type f) = Ok t" by (auto simp: fromDefsField_def)
  show thesis
    by (rule that [OF sf]) (use f(2) t e tyOf_S [OF sf(2)] in \<open>auto simp: fromDefsField_def Let_def split: if_splits\<close>)
qed

text \<open>The Go types of the descriptor's fields are those of the Go struct, in another order.\<close>

lemma field_types:
  assumes P: "plainStruct g sfs" and ff: "DoResolveFields g sfs = Val ff"
    and sd: "newStructDesc lay g ff = Ok sd"
  shows "mset (map (\<lambda>x. tRT (fType x)) (sd_fields sd)) = mset (map sf_Type sfs)"
proof -
  from DoResolveFields_good [of sfs g] P ff obtain fs where fs: "mset ff = mset fs"
    "list_all2 (resolvedFrom (initMem g)) (filter taggedField sfs) fs"
    by (auto simp: plainStruct_def)
  have all: "filter taggedField sfs = sfs" using P by (simp add: plainStruct_def)
  have ty: "tyOf (sf_Type (sfs ! j)) (F_Type (fs ! j))" if "j < length fs" for j
    using fs(2) that unfolding all by (simp add: list_all2_conv_all_nth resolvedFrom_def)
  then have valid: "\<forall>f\<in>set ff. valid_Type (F_Type f)"
    using fs(1) tyOf_valid by (metis in_set_conv_nth set_mset_mset)
  have "tRT (fType x) = ty_S (F_Type f)" if "fromDefsField lay f = Ok x" "valid_Type (F_Type f)" for f x
    using that by (auto simp: fromDefsField_def Let_def newTType_sel(5) split: if_splits)
  with newStructDesc_built(1) [OF sd] valid
  have "map (\<lambda>x. tRT (fType x)) (sd_fields sd) = map (\<lambda>f. ty_S (F_Type f)) ff"
    by (intro nth_equalityI) (simp_all add: list_all2_conv_all_nth)
  then have "mset (map (\<lambda>x. tRT (fType x)) (sd_fields sd)) = mset (map (\<lambda>f. ty_S (F_Type f)) fs)"
    using fs(1) by (metis mset_map)
  also have "map (\<lambda>f. ty_S (F_Type f)) fs = map sf_Type sfs"
    using fs(2) ty tyOf_S unfolding all by (intro nth_equalityI) (auto simp: list_all2_conv_all_nth)
  finally show ?thesis .
qed

lemma sum_list_mset_eq:
  fixes h :: "'a \<Rightarrow> int"
  assumes "mset (map f xs) = mset (map g ys)"
  shows "(\<Sum>x\<leftarrow>xs. h (f x)) = (\<Sum>y\<leftarrow>ys. h (g y))"
proof -
  have "sum_mset (image_mset h (mset (map f xs))) = sum_mset (image_mset h (mset (map g ys)))"
    by (simp only: assms)
  then show ?thesis by (simp add: multiset.map_comp comp_def flip: sum_mset_sum_list)
qed

lemma length_concat_int: "int (length (concat (map E xs))) = (\<Sum>x\<leftarrow>xs. int (length (E x)))"
  by (induction xs) auto

lemma GetSize_encoding:
  assumes P: "plainStructs P"
  shows "GetSize P n vt = Ok s \<Longrightarrow> s > 0 \<Longrightarrow> tyOf vt ty \<Longrightarrow> enumNamed vt ty \<Longrightarrow>
    newTType (pr_lay P) ty = Ok t \<Longrightarrow> conf True (env_of P) k t v \<Longrightarrow>
    \<exists>bs. specV (env_of P) k t v = Some bs \<and> int (length bs) = s"
proof (induction n arbitrary: vt s ty t k v)
  case 0
  from GetSize_pos [OF 0(1,2)] 0(1) obtain kd p nm where "vt = RBasic kd p nm" by auto
  with GetSize_scalar 0 show ?case by blast
next
  case (Suc n)
  show ?case
  proof (cases "\<exists>i nm. vt = RStruct i nm")
    case False
    with GetSize_pos [OF Suc.prems(1,2)] GetSize_scalar Suc.prems show ?thesis by blast
  next
    case True
    then obtain i nm where vt: "vt = RStruct i nm" by blast
    let ?h = "sizeOf (GetSize P n)"
    obtain g sfs where st: "pr_struct P i = (g, sfs)" by (cases "pr_struct P i")
    have plain: "plainStruct g sfs" using P st by (auto simp: plainStructs_def split: prod.splits)
    from Suc.prems(1) vt st have "measureFields (GetSize P n) sfs 0 = Ok s" by simp
    from measureFields_sum [OF this Suc.prems(2)]
    have h: "\<And>sf. sf \<in> set sfs \<Longrightarrow> GetSize P n (sf_Type sf) = Ok (?h (sf_Type sf)) \<and> ?h (sf_Type sf) > 0"
      and s: "s = 1 + (\<Sum>sf\<leftarrow>sfs. ?h (sf_Type sf) + 3)" by auto
    have t: "tT t = tSTRUCT" "\<not> tIsPointer t" "tRT t = RStruct i nm" "\<not> simpleTypes tSTRUCT"
      using Suc.prems(3) newTType_sel [OF tyOf_valid [OF Suc.prems(3)] Suc.prems(5)]
      by (simp_all add: vt simpleTypes_def)
    from Suc.prems(6) obtain m where m: "k = Suc m" by (cases k) auto
    from Suc.prems(6) t obtain sd cs where sd: "Sd (env_of P) t = Ok sd" and v: "v = VStruct cs"
      and cf: "confFields (conf True (env_of P) m) sd cs"
      by (auto simp: m Let_def split: go.splits gval.splits)
    from sd t(3) have "newStructDescOf P (RStruct i []) = Val sd"
      by (auto simp: Sd_def env_of_def split: option.splits res.splits)
    then obtain ff where r: "DoResolveFields g sfs = Val ff" "newStructDesc (pr_lay P) g ff = Ok sd"
      using st by (elim newStructDescOf_resolved) simp
    let ?sp = "specField (specV (env_of P) m) cs"
    have field: "\<exists>bs. ?sp x = Some bs \<and> int (length bs) = ?h (tRT (fType x)) + 3"
      if x: "x \<in> set (sd_fields sd)" for x
    proof -
      from field_origin [OF plain r x] obtain f :: Field and sf where f: "sf \<in> set sfs" "tyOf (sf_Type sf) (F_Type f)"
        "newTType (pr_lay P) (F_Type f) = Ok (fType x)" "enumNamed (sf_Type sf) (F_Type f)"
        "\<not> fCanSkipIfDefault x" "fCanSkipEncodeIfNil x \<longrightarrow>
          tTag (fType x) = T_pointer \<or> tTag (fType x) = T_binary \<or> containerTypes (tT (fType x))" by metis
      note sel = newTType_sel [OF tyOf_valid [OF f(2)] f(3)]
      have hx: "GetSize P n (sf_Type sf) = Ok (?h (sf_Type sf))" "?h (sf_Type sf) > 0" using h [OF f(1)] by simp_all
      have basic: "tTag (fType x) \<noteq> T_pointer \<and> tTag (fType x) \<noteq> T_binary \<and> \<not> containerTypes (tT (fType x))"
        using GetSize_pos [OF hx] f(2) sel(1,2)
        by (auto simp: containerTypes_def dest!: basicTagOf_tags)
      then have np: "\<not> tIsPointer (fType x)" using sel(2,3) by simp
      with cf x obtain w where w: "map_of cs (fOffset x) = Some w" "conf True (env_of P) m (fType x) w"
        by (auto simp: confFields_def split: option.splits)
      from Suc.IH [OF hx f(2,4,3) w(2)] obtain bs where
        bs: "specV (env_of P) m (fType x) w = Some bs" "int (length bs) = ?h (sf_Type sf)" by blast
      have "field_skipped x (Some w) = Ok False" using f(5,6) basic by (simp add: field_skipped_def)
      with bs w(1) sel(5) tyOf_S [OF f(2)] show ?thesis by (simp add: specField_def bigEndian_def)
    qed
    define E where "E = (\<lambda>x. the (?sp x))"
    have E: "?sp x = Some (E x)" "int (length (E x)) = ?h (tRT (fType x)) + 3" if "x \<in> set (sd_fields sd)" for x
      using field [OF that] by (auto simp: E_def)
    have "\<not> hasUnknownFields sd" using newStructDesc_built(2) [OF r(2)] plain by (simp add: plainStruct_def)
    with spec_fields [of sd "specV (env_of P) m" cs E] E(1)
    have sp: "specStruct (specV (env_of P) m) sd cs = Some (concat (map E (sd_fields sd)) @ [tSTOP])"
      by (simp add: specUnknown_def)
    have "int (length (concat (map E (sd_fields sd)))) = (\<Sum>x\<leftarrow>sd_fields sd. ?h (tRT (fType x)) + 3)"
      unfolding length_concat_int using E(2) by (intro arg_cong [where f = sum_list] map_cong) auto
    also have "\<dots> = (\<Sum>sf\<leftarrow>sfs. ?h (sf_Type sf) + 3)"
      by (rule sum_list_mset_eq [OF field_types [OF plain r], of "\<lambda>vt. ?h vt + 3"])
    finally have "int (length (concat (map E (sd_fields sd)) @ [tSTOP])) = s" by (simp add: s)
    moreover have "specV (env_of P) k t v = Some (concat (map E (sd_fields sd)) @ [tSTOP])"
      using spec_struct [OF t(1) sd, of m cs] t(2) sp by (simp add: m v)
    ultimately show ?thesis by blast
  qed
qed

end
