(* ===== verification/HelperProps.thy ===== *)
theory HelperProps
  imports Utils TTypeCache ExampleProgram GetSizeCorrect
begin

text \<open>
  The cache of the runtime types, and the helpers: duplicates in sets, wire sizes of Go types,
  and the name of a missing field.
\<close>

subsection \<open>The cache of runtime types\<close>

lemma newTTypeCached_again:
  assumes "tyOf vt ty" "Type_String ty = Ok str" "tt_cache st (str, vt) = Some a"
  shows "newTTypeCached lay ty st = Ok (a, st)"
proof (cases ty)
  case (Type tg k v s)
  with assms tyOf_children(1) [of vt tg k v s] show ?thesis by (simp del: Type_String.simps)
qed

text \<open>
  C22. \<^verbatim>\<open>newTType\<close> with its cache, where objects are shared and published before they are
  complete, returns an object that is the descriptor the cache-free construction builds; it
  changes no existing object, keeps the cache consistent, and a second call returns the same
  object, so that a link stored in it (\<^verbatim>\<open>t.Sd\<close>) is seen by every user of the type.
\<close>

theorem newTType_cached:
  assumes "tyOf vt ty" "newTType lay ty = Ok t" "cacheInv lay {} st"
  shows "\<exists>a st'. newTTypeCached lay ty st = Ok (a, st') \<and> represents (tt_objs st') t a \<and>
    cacheInv lay {} st' \<and> extends (tt_objs st) (tt_objs st') \<and> newTTypeCached lay ty st' = Ok (a, st')"
proof -
  obtain str where str: "Type_String ty = Ok str" using Type_String_Ok [OF assms(1)] by blast
  from newTTypeCached_ok [OF assms(1,2) str assms(3)] newTTypeCached_again [OF assms(1) str]
  show ?thesis by blast
qed

definition noTTypes :: ttypes where "noTTypes = \<lparr>tt_cache = Map.empty, tt_objs = []\<rparr>"

lemma noTTypes_inv: "cacheInv lay {} noTTypes"
  by (simp add: cacheInv_def noTTypes_def)

theorem newTType_cached_witness:
  "\<exists>a st'. newTTypeCached ex_lay ty_m noTTypes = Ok (a, st') \<and> represents (tt_objs st') tt_m a"
proof -
  have "tyOf (RMap [] go_string go_Color) ty_m"
    by (simp add: ty_defs basicTagOf_def Type_IsKeyType_def Type_IsValueType_def)
  from newTType_cached [OF this newTType_ex(7) noTTypes_inv] show ?thesis by blast
qed

subsection \<open>Helpers\<close>

text \<open>
  C23. \<^verbatim>\<open>checkUniqueness\<close> finds a duplicate exactly when two elements at different positions are
  the same value, by IEEE equality for doubles (NaN is never a duplicate, the zeros are),
  except for a set of \<^verbatim>\<open>binary\<close>: its elements are read as strings, at the wrong distance from
  each other, so that from two elements on the comparison reads memory that is not a string.
\<close>

theorem checkUniqueness_correct:
  assumes "simpleTypes (tT t)" "\<forall>v\<in>set vs. confSimple True t v"
  shows "checkUniqueness t vs =
    (if binaryElem t \<and> 2 \<le> length vs then Panic BadMemory
     else Ok (if \<exists>i j. i < j \<and> j < length vs \<and> sameElem t (vs ! i) (vs ! j)
              then Some (tRT t) else None))"
  using checkUniqueness_simple [of t vs] assms by (auto simp: sorted_wrt_iff_nth_less)

theorem checkUniqueness_correct_witness:
  "checkUniqueness tt_i64 [VI64 1, VI64 2, VI64 1] = Ok (Some i64type) \<and>
   checkUniqueness tt_i64 [VI64 1, VI64 2, VI64 3] = Ok None \<and>
   checkUniqueness tt_blob [VBytes (Some [1]), VBytes (Some [2])] = Panic BadMemory"
proof -
  have 1: "\<exists>i j. i < j \<and> j < length [VI64 1, VI64 2, VI64 1] \<and>
      sameElem tt_i64 ([VI64 1, VI64 2, VI64 1] ! i) ([VI64 1, VI64 2, VI64 1] ! j)"
    by (intro exI [of _ 0] exI [of _ 2]) (simp add: sameElem_def tt_defs)
  have 2: "\<nexists>i j. i < j \<and> j < length [VI64 1, VI64 2, VI64 3] \<and>
      sameElem tt_i64 ([VI64 1, VI64 2, VI64 3] ! i) ([VI64 1, VI64 2, VI64 3] ! j)"
    by (auto simp: sameElem_def tt_defs less_Suc_eq nth_Cons split: nat.splits)
  have c: "simpleTypes (tT tt_i64)" "simpleTypes (tT tt_blob)" "\<not> binaryElem tt_i64" "binaryElem tt_blob"
    "tRT tt_i64 = i64type"
    "\<forall>v\<in>set [VI64 1, VI64 2, VI64 1]. confSimple True tt_i64 v"
    "\<forall>v\<in>set [VI64 1, VI64 2, VI64 3]. confSimple True tt_i64 v"
    "\<forall>v\<in>set [VBytes (Some [1]), VBytes (Some [2])]. confSimple True tt_blob v"
    by (simp_all add: simpleTypes_def confSimple_def binaryElem_def) (simp add: tt_defs)
  show ?thesis
    using checkUniqueness_correct [OF c(1,6)] checkUniqueness_correct [OF c(1,7)]
      checkUniqueness_correct [OF c(2,8)] 1 2 c(3-5) by (simp del: One_nat_def)
qed

text \<open>
  C24. When \<^verbatim>\<open>GetSize\<close> gives a size for a Go type, structs included, every conforming value of
  the type has an encoding and that is its length; for types whose enums are exactly the named
  \<^verbatim>\<open>int64\<close> types, and structs all of whose fields are Thrift fields that are always written.
\<close>

theorem GetSize_encoding_length:
  assumes "plainStructs P" "GetSize P n vt = Ok s" "s > 0" "tyOf vt ty" "enumNamed vt ty"
    "newTType (pr_lay P) ty = Ok t" "conf True (env_of P) k t v"
  shows "\<exists>bs. specV (env_of P) k t v = Some bs \<and> int (length bs) = s"
  by (rule GetSize_encoding [OF assms])

text \<open>The program \<^verbatim>\<open>struct Pair { 1: required i32 a, 2: required Color c }\<close>.\<close>

definition go_Pair :: rtype where "go_Pair = RStruct 0 ''Pair''"

definition pair_g :: goStruct where
  "pair_g = \<lparr>gs_rt = go_Pair, gs_zero = VStruct [(0, VI32 0), (8, VI64 0)], gs_init = None,
     gs_unknown = None\<rparr>"

definition pair_fields :: "structField list" where
  "pair_fields = [goField ''A'' go_int32 ''1,required,i32'' 0, goField ''C'' go_Color ''2,required,demo.Color'' 8]"

definition pair_prog :: program where
  "pair_prog = \<lparr>pr_lay = ex_lay, pr_struct = (\<lambda>i. (pair_g, pair_fields))\<rparr>"

definition tt_Pair :: tType where
  "tt_Pair = TType tSTRUCT None None tSTRUCT T_struct go_Pair 112 8 (Some go_Pair) False False 0 AppendStruct"

definition pair_ff :: "Field list" where
  "pair_ff = [mkField 0 1 ty_i32 Required None, mkField 8 2 ty_Color Required None]"

lemma pair_resolve: "DoResolveFields pair_g pair_fields = Val pair_ff"
proof -
  have tags: "lookupStructTag [(''frugal'', ''2,required,demo.Color'')] = Some [''2'', ''required'', ''demo.Color'']"
    by (simp add: lookupStructTag_def trimSpaces_def TrimSpace_graphic graphic_def)
  have tyC: "ty_T ty_Color = T_enum" by (simp add: ty_Color_def)
  have parse: "ParseType go_Color ''demo.Color'' = Val ty_Color"
    by (simp add: parse_simps ty_defs)
  have "resolveLoop (initMem pair_g) pair_fields {} [] = Val pair_ff"
    by (simp add: pair_fields_def goField_def resolveField_def ex_tags tags nextValue_def
        ex_digits parseRequiredness_def ex_parse parse initMem_def pair_g_def pair_ff_def mkField_def
        ex_tys(1) tyC del: One_nat_def)
  then show ?thesis
    by (simp add: DoResolveFields_def initMem_def [symmetric] pair_ff_def mkField_def insort_key.simps)
qed

lemma pair_plain: "plainStructs pair_prog"
  by (simp add: plainStructs_def plainStruct_def pair_prog_def pair_resolve)
     (simp add: pair_g_def pair_fields_def goField_def taggedField_def hasCell_def initMem_def
      lookupStructTag_def trimSpaces_def TrimSpace_graphic graphic_def pair_ff_def mkField_def enumNamed_def
      namedInt64_def ty_defs)

lemma pair_desc: "\<exists>sd. env_of pair_prog 0 = Some sd \<and> \<not> hasUnknownFields sd \<and>
    sd_fields sd = [mkF 0 1 tt_i32 Required None, mkF 8 2 tt_Color Required None]"
proof -
  have "\<exists>sd. newStructDesc ex_lay pair_g pair_ff = Ok sd \<and> \<not> hasUnknownFields sd \<and>
    sd_fields sd = [mkF 0 1 tt_i32 Required None, mkF 8 2 tt_Color Required None]"
    by (simp add: newStructDesc_def fromDefsFields_def pair_ff_def maxFieldID_def mkField_def pair_g_def
        fill_fields.simps(2) fromDefsField_def newTType_ex mkF_def containerTypes_def split: prod.split)
  then show ?thesis
    by (auto simp: env_of_def newStructDescOf_def pair_prog_def pair_resolve)
qed

theorem GetSize_encoding_length_witness:
  "\<exists>bs. specV (env_of pair_prog) 2 tt_Pair (VStruct [(0, VI32 5), (8, VI64 2)]) = Some bs \<and> length bs = 15"
proof -
  obtain sd where sd: "env_of pair_prog 0 = Some sd" "\<not> hasUnknownFields sd"
    "sd_fields sd = [mkF 0 1 tt_i32 Required None, mkF 8 2 tt_Color Required None]"
    using pair_desc by blast
  have two: "2 = Suc (Suc 0)" by simp
  have g: "GetSize pair_prog 1 go_Pair = Ok 15"
    by (simp add: go_Pair_def pair_prog_def pair_fields_def goField_def go_int32_def go_Color_def measureInt64_def
        i64type_def)
  have t: "newTType (pr_lay pair_prog) (Type T_struct None None go_Pair) = Ok tt_Pair"
    by (simp add: newTType.simps tt_Pair_def go_Pair_def pair_prog_def abi_kinds_def pick_AppendFunc_def
        simpleTypes_def typeToSize_def ex_lay_def)
  have c: "conf True (env_of pair_prog) 2 tt_Pair (VStruct [(0, VI32 5), (8, VI64 2)])"
    unfolding two
    by (simp add: tt_Pair_def Sd_def go_Pair_def sd confFields_def mkF_def simpleTypes_def confSimple_def)
  have "tyOf go_Pair (Type T_struct None None go_Pair)" "enumNamed go_Pair (Type T_struct None None go_Pair)"
    by (simp_all add: go_Pair_def enumNamed_def namedInt64_def)
  from GetSize_encoding_length [OF pair_plain g _ this t c] show ?thesis by auto
qed

text \<open>
  The name in the error for a missing required field is the field's own, when the struct's
  fields have distinct offsets; also through a pointer to the struct.
\<close>

lemma missing_field_name:
  assumes "pr_struct P i = (g, sfs)" "distinct (map sf_Offset sfs)" "sf \<in> set sfs"
    "resolvedFrom mem sf f"
  shows "lookupFieldName P (RPtr (RStruct i n)) (F_off f) = Ok (sf_Name sf)"
proof -
  have "findName sfs (sf_Offset sf) = sf_Name sf"
    using assms(2,3) by (induction sfs) (auto simp: image_iff)
  with assms(1,4) show ?thesis by (simp add: resolvedFrom_def)
qed

end
