(* ===== verification/FuzzType.thy ===== *)
theory FuzzType
  imports TType
begin

text \<open>
  \<^verbatim>\<open>fuzz/type.go\<close>: the types the checker of the fuzzer reads off an encoding, with their
  comparison. A nil \<^verbatim>\<open>*Type\<close> is \<open>None\<close>; a map of fields is the list of its entries.
\<close>

datatype ftype = FType (f_TypeID: ttype) (f_KeyType: "ftype option") (f_ValType: "ftype option")
  (f_Fields: "(16 word \<times> ftype option) list")

text \<open>\<^verbatim>\<open>src.Fields[k]\<close>, nil when there is none.\<close>

definition fieldType :: "(16 word \<times> ftype option) list \<Rightarrow> 16 word \<Rightarrow> ftype option" where
  "fieldType fs k = (case map_of fs k of Some t \<Rightarrow> t | None \<Rightarrow> None)"

fun Type_Equal :: "ftype option \<Rightarrow> ftype option \<Rightarrow> bool" where
  "Type_Equal None src = (src = None)"
| "Type_Equal (Some t) None = False"
| "Type_Equal (Some (FType i k v fs)) (Some (FType i' k' v' fs')) =
     (i = i' \<and> Type_Equal k k' \<and> Type_Equal v k' \<and> length fs = length fs' \<and>
      list_all (\<lambda>(n, t). Type_Equal t (fieldType fs' n)) fs)"

fun Assignable :: "ftype option \<Rightarrow> ftype option \<Rightarrow> bool" where
  "Assignable None src = True"
| "Assignable (Some t) None = True"
| "Assignable (Some (FType i k v fs)) (Some (FType i' k' v' fs')) =
     (i = i' \<and> Assignable k k' \<and> Assignable v v' \<and>
      list_all (\<lambda>(n, t). case map_of fs' n of Some s \<Rightarrow> Assignable t s | None \<Rightarrow> True) fs)"

text \<open>\<^verbatim>\<open>(ts Types) Conflict()\<close>.\<close>

definition Conflict :: "ftype option list \<Rightarrow> bool" where
  "Conflict ts = (case ts of [] \<Rightarrow> False | t # rest \<Rightarrow> list_ex (\<lambda>s. \<not> Assignable t s) rest)"

end
