(* ===== verification/FuzzCheck.thy ===== *)
theory FuzzCheck
  imports FuzzType "HOL-Library.List_Lexorder"
begin

text \<open>
  \<^verbatim>\<open>fuzz/check.go\<close>: \<^verbatim>\<open>Check\<close> decides whether a buffer starts with a Thrift encoding of a
  given type and reads the type off it. The reading functions of the \<^verbatim>\<open>thrift\<close> package are
  the parameter \<open>bproto\<close>: each gives the length it consumed and an error.

  The deferred \<^verbatim>\<open>recover\<close> catches every panic: one of a slice bound becomes an error, any
  other is swallowed, and the named results are returned as they were. The result \<open>None\<close> is
  the one thing it cannot catch, a stack overflow. The buffer's capacity is its length.
\<close>

subsection \<open>The thrift package\<close>

record bproto =
  bp_Read :: "ttype \<Rightarrow> bytes \<Rightarrow> nat \<times> nat option" \<comment> \<open>\<^verbatim>\<open>ReadBool\<close> to \<^verbatim>\<open>ReadString\<close>, by type\<close>
  bp_ReadFieldBegin :: "bytes \<Rightarrow> ttype \<times> 16 word \<times> nat \<times> nat option"
  bp_ReadMapBegin :: "bytes \<Rightarrow> ttype \<times> ttype \<times> int \<times> nat \<times> nat option"
  bp_ReadSetBegin :: "bytes \<Rightarrow> ttype \<times> int \<times> nat \<times> nat option"
  bp_ReadListBegin :: "bytes \<Rightarrow> ttype \<times> int \<times> nat \<times> nat option"

definition TypeSize :: "ttype \<Rightarrow> int" where
  "TypeSize t =
     (if t = tBOOL then 1 else if t = tBYTE then 1 else if t = tI16 then 2 else if t = tI32 then 4
      else if t = tI64 then 8 else if t = tDOUBLE then 8 else if t = tSTRING then 4
      else if t = tLIST then 5 else if t = tSET then 5 else if t = tMAP then 6
      else if t = tSTRUCT then 1 else 0)"

definition isValidType :: "ttype \<Rightarrow> bool" where
  "isValidType t \<longleftrightarrow> \<not> (t < tBOOL \<or> t > tLIST \<or> t = 5 \<or> t = 7 \<or> t = 9)"

subsection \<open>Results\<close>

datatype cerr =
    CErrRead nat
  | CErrDuplicateField "16 word"
  | CErrUnknownType ttype
  | CErrMapKey
  | CErrSize
  | CErrConflict
  | CErrDuplicateElem
  | CErrBounds \<comment> \<open>a recovered \<^verbatim>\<open>slice bounds out of range\<close>\<close>

datatype cpanic = SliceBounds | OtherPanic

text \<open>How the body ends: a return, a panic with the named results at that time, or no end.\<close>

datatype cres =
    CRet "ftype option" nat "cerr option"
  | CPanic cpanic "ftype option" nat
  | COverflow

type_synonym checkResult = "(ftype option \<times> nat \<times> cerr option) option"

text \<open>The deferred function.\<close>

definition recovered :: "cres \<Rightarrow> checkResult" where
  "recovered r =
     (case r of
        CRet t l e \<Rightarrow> Some (t, l, e)
      | CPanic p t l \<Rightarrow> Some (t, l, if p = SliceBounds then Some CErrBounds else None)
      | COverflow \<Rightarrow> None)"

subsection \<open>Structs\<close>

text \<open>The loop over the fields; \<open>typ\<close> is the named result \<^verbatim>\<open>typ\<close>, without fields so far.\<close>

fun structLoop ::
  "bproto \<Rightarrow> (bytes \<Rightarrow> ttype \<Rightarrow> checkResult) \<Rightarrow> nat \<Rightarrow> bytes \<Rightarrow> nat \<Rightarrow> (16 word \<times> ftype option) list \<Rightarrow> cres" where
  "structLoop bp chk 0 buf len fs = COverflow"
| "structLoop bp chk (Suc m) buf len fs =
     (let typ = Some (FType tSTRUCT None None [])
      in if len > length buf then CPanic SliceBounds typ len
      else case bp_ReadFieldBegin bp (drop len buf) of (typeID, fid, l, e) \<Rightarrow>
        let len = len + l
        in case e of
             Some x \<Rightarrow> CRet typ len (Some (CErrRead x))
           | None \<Rightarrow>
               if typeID = tSTOP then CRet (Some (FType tSTRUCT None None fs)) len None
               else if len > length buf then CPanic SliceBounds typ len
               else (case chk (drop len buf) typeID of
                 None \<Rightarrow> COverflow
               | Some (fType, l, e) \<Rightarrow>
                   (case e of
                      Some x \<Rightarrow> CRet typ len (Some x)
                    | None \<Rightarrow>
                        if fid \<in> fst ` set fs then CRet typ (len + l) (Some (CErrDuplicateField fid))
                        else structLoop bp chk m buf (len + l) (fs @ [(fid, fType)]))))"

subsection \<open>Lists, sets and maps\<close>

datatype 'a loop = Done 'a | Early cres

text \<open>The loop over the elements: the types found and, for a set, \<^verbatim>\<open>buf[length:length+l]\<close> of each.\<close>

fun elemsLoop ::
  "bool \<Rightarrow> (bytes \<Rightarrow> ttype \<Rightarrow> checkResult) \<Rightarrow> ftype option \<Rightarrow> ttype \<Rightarrow> bytes \<Rightarrow> nat \<Rightarrow> nat \<Rightarrow>
     ftype option list \<Rightarrow> bytes list \<Rightarrow> (nat \<times> ftype option list \<times> bytes list) loop" where
  "elemsLoop isSet chk typ et buf 0 len ts strs = Done (len, ts, strs)"
| "elemsLoop isSet chk typ et buf (Suc k) len ts strs =
     (if len > length buf then Early (CPanic SliceBounds typ len)
      else case chk (drop len buf) et of
        None \<Rightarrow> Early COverflow
      | Some (t, l, e) \<Rightarrow>
          (case e of
             Some x \<Rightarrow> Early (CRet typ len (Some x))
           | None \<Rightarrow>
               if isSet \<and> len + l > length buf then Early (CPanic SliceBounds typ len)
               else elemsLoop isSet chk typ et buf k (len + l) (ts @ [t]) (if isSet then strs @ [take l (drop len buf)] else strs)))"

text \<open>Adjacent equal elements of the sorted list.\<close>

fun adjacent :: "('a \<Rightarrow> 'a \<Rightarrow> bool) \<Rightarrow> 'a list \<Rightarrow> bool" where
  "adjacent P (x # y # zs) \<longleftrightarrow> P x y \<or> adjacent P (y # zs)"
| "adjacent P _ \<longleftrightarrow> False"

definition setDuplicate :: "ttype \<Rightarrow> bytes list \<Rightarrow> bool" where
  "setDuplicate et strs =
     (if et = tBOOL
      then adjacent (\<lambda>a b. a = [1] \<and> b = [1] \<or> a \<noteq> [1] \<and> b \<noteq> [1]) (sort strs)
      else adjacent (=) (sort strs))"

definition checkElems ::
  "bool \<Rightarrow> (bytes \<Rightarrow> ttype \<Rightarrow> checkResult) \<Rightarrow> ttype \<Rightarrow> bytes \<Rightarrow> ttype \<times> int \<times> nat \<times> nat option \<Rightarrow> cres" where
  "checkElems isSet chk t buf hdr =
     (let typ = Some (FType t None None [])
      in case hdr of (et, sz, len, e) \<Rightarrow>
        (case e of
           Some x \<Rightarrow> CRet typ len (Some (CErrRead x))
         | None \<Rightarrow>
             if \<not> isValidType et then CRet None 0 (Some (CErrUnknownType et))
             else if int len + sz * TypeSize et \<ge> int (length buf) then CRet None 0 (Some CErrSize)
             else if isSet \<and> sz < 0 then CPanic OtherPanic typ len
             else (case elemsLoop isSet chk typ et buf (nat sz) len [] [] of
               Early r \<Rightarrow> r
             | Done (len, ts, strs) \<Rightarrow>
                 if isSet \<and> sz \<ge> 2 \<and> setDuplicate et strs then CRet None 0 (Some CErrDuplicateElem)
                 else
                   let ts = (if sz = 0 then ts @ [Some (FType et None None [])] else ts)
                   in if Conflict ts then CRet None 0 (Some CErrConflict)
                      else (case ts of
                              [] \<Rightarrow> CPanic OtherPanic typ len
                            | t0 # _ \<Rightarrow> CRet (Some (FType t None t0 [])) len None))))"

fun pairsLoop ::
  "(bytes \<Rightarrow> ttype \<Rightarrow> checkResult) \<Rightarrow> ttype \<Rightarrow> ttype \<Rightarrow> bytes \<Rightarrow> nat \<Rightarrow> nat \<Rightarrow>
     ftype option list \<Rightarrow> ftype option list \<Rightarrow> (nat \<times> ftype option list \<times> ftype option list) loop" where
  "pairsLoop chk kt vt buf 0 len ks vs = Done (len, ks, vs)"
| "pairsLoop chk kt vt buf (Suc k) len ks vs =
     (let typ = Some (FType tMAP None None [])
      in if len > length buf then Early (CPanic SliceBounds typ len)
      else case chk (drop len buf) kt of
        None \<Rightarrow> Early COverflow
      | Some (t, l, e) \<Rightarrow>
          (case e of
             Some x \<Rightarrow> Early (CRet typ len (Some x))
           | None \<Rightarrow>
               let len = len + l
               in if len > length buf then Early (CPanic SliceBounds typ len)
               else case chk (drop len buf) vt of
                 None \<Rightarrow> Early COverflow
               | Some (u, l, e) \<Rightarrow>
                   let len = len + l
                   in case e of
                        Some x \<Rightarrow> Early (CRet typ len (Some x))
                      | None \<Rightarrow> pairsLoop chk kt vt buf k len (ks @ [t]) (vs @ [u])))"

definition checkMap :: "bproto \<Rightarrow> (bytes \<Rightarrow> ttype \<Rightarrow> checkResult) \<Rightarrow> bytes \<Rightarrow> cres" where
  "checkMap bp chk buf =
     (let typ = Some (FType tMAP None None [])
      in case bp_ReadMapBegin bp buf of (kt, vt, sz, len, e) \<Rightarrow>
        (case e of
           Some x \<Rightarrow> CRet typ len (Some (CErrRead x))
         | None \<Rightarrow>
             if \<not> isValidType kt then CRet None 0 (Some (CErrUnknownType kt))
             else if \<not> isValidType vt then CRet None 0 (Some (CErrUnknownType kt))
             else if kt = tLIST \<or> kt = tSET \<or> kt = tMAP then CRet None 0 (Some CErrMapKey)
             else if int len + sz * (TypeSize kt + TypeSize vt) \<ge> int (length buf)
               then CRet None 0 (Some CErrSize)
             else (case pairsLoop chk kt vt buf (nat sz) len [] [] of
               Early r \<Rightarrow> r
             | Done (len, ks, vs) \<Rightarrow>
                 let ks = (if sz = 0 then ks @ [Some (FType kt None None [])] else ks);
                     vs = (if sz = 0 then vs @ [Some (FType vt None None [])] else vs)
                 in if Conflict ks then CRet None 0 (Some CErrConflict)
                    else if Conflict vs then CRet None 0 (Some CErrConflict)
                    else (case ks of
                            [] \<Rightarrow> CPanic OtherPanic typ len
                          | k0 # _ \<Rightarrow>
                              (case vs of
                                 [] \<Rightarrow> CPanic OtherPanic (Some (FType tMAP k0 None [])) len
                               | v0 # _ \<Rightarrow> CRet (Some (FType tMAP k0 v0 [])) len None)))))"

subsection \<open>Check\<close>

text \<open>The fuel bounds the depth of the recursion and the length of the loop over the fields.\<close>

fun Check :: "bproto \<Rightarrow> nat \<Rightarrow> bytes \<Rightarrow> ttype \<Rightarrow> checkResult" where
  "Check bp 0 buf t = None"
| "Check bp (Suc n) buf t =
     recovered
       (if t \<in> set [tBOOL, tBYTE, tI16, tI32, tI64, tDOUBLE, tSTRING] then
          (case bp_Read bp t buf of (l, e) \<Rightarrow>
             CRet (Some (FType t None None [])) l (map_option CErrRead e))
        else if t = tSTRUCT then structLoop bp (Check bp n) (Suc n) buf 0 []
        else if t = tMAP then checkMap bp (Check bp n) buf
        else if t = tSET then checkElems True (Check bp n) t buf (bp_ReadSetBegin bp buf)
        else if t = tLIST then checkElems False (Check bp n) t buf (bp_ReadListBegin bp buf)
        else CRet None 0 (Some (CErrUnknownType t)))"

end
