(* ===== verification/Grammar.thy ===== *)
theory Grammar
  imports EncodeProps
begin

text \<open>
  The Thrift binary format as a grammar of byte strings, without Go types: \<open>wire t b\<close> when
  \<open>b\<close> is an encoding of wire type \<open>t\<close>. What the encoder is specified to write belongs to it,
  and the checker of the fuzzer accepts nothing else (theory \<open>FuzzCorrect\<close>).
\<close>

subsection \<open>The grammar\<close>

inductive wire :: "ttype \<Rightarrow> bytes \<Rightarrow> bool" where
  fixed: "t \<in> set [tBOOL, tBYTE, tI16, tI32, tI64, tDOUBLE] \<Longrightarrow> length b = typeToSize t \<Longrightarrow> wire t b"
| string: "wire tSTRING (bigEndian 4 (length s) @ s)"
| stop: "wire tSTRUCT [tSTOP]"
| field: "wire t b \<Longrightarrow> t \<noteq> tSTOP \<Longrightarrow> length fid = 2 \<Longrightarrow> wire tSTRUCT rest \<Longrightarrow>
    wire tSTRUCT (t # fid @ b @ rest)"
| elems: "t = tLIST \<or> t = tSET \<Longrightarrow> list_all (wire et) bs \<Longrightarrow>
    wire t (et # bigEndian 4 (length bs) @ concat bs)"
| pairs: "list_all (\<lambda>(k, v). wire kt k \<and> wire vt v) kvs \<Longrightarrow>
    wire tMAP (kt # vt # bigEndian 4 (length kvs) @ concat (map (\<lambda>(k, v). k @ v) kvs))"

subsection \<open>What the encoder writes\<close>

text \<open>The struct types of the environment keep no unknown fields, whose bytes are the user's.\<close>

definition noUnknown :: "env \<Rightarrow> bool" where
  "noUnknown env \<longleftrightarrow> (\<forall>i sd. env i = Some sd \<longrightarrow> \<not> hasUnknownFields sd)"

lemma length_bigEndian [simp]: "length (bigEndian k n) = k"
  by (simp add: bigEndian_def)

lemma wire_simple:
  assumes "simpleTypes (tT t)" "confSimple True t w" "specSimple t w = Some bs"
    "tWT t = (if tT t = tENUM then tI32 else tT t)"
  shows "wire (tWT t) bs"
proof (cases "tT t = tSTRING")
  case True
  with assms(2,3) obtain s where "bs = bigEndian 4 (length s) @ s"
    by (auto simp: confSimple_def specSimple_def wire32_def Let_def split: if_splits gval.splits)
  with True assms(4) show ?thesis by (simp add: wire.string)
next
  case False
  with assms(1-3) show ?thesis
    unfolding assms(4) simpleTypes_def confSimple_def specSimple_def
    by (auto intro!: wire.fixed simp: typeToSize_def split: if_splits gval.splits)
qed

lemma wire_struct:
  assumes "specStruct sv sd cs = Some bs" "\<not> hasUnknownFields sd"
    and "\<And>f v b. f \<in> set (sd_fields sd) \<Longrightarrow> map_of cs (fOffset f) = Some v \<Longrightarrow>
      field_skipped f (Some v) = Ok False \<Longrightarrow> sv (fType f) v = Some b \<Longrightarrow>
      wire (tWT (fType f)) b \<and> tWT (fType f) \<noteq> tSTOP"
  shows "wire tSTRUCT bs"
proof -
  from assms(1) obtain bss where bss: "those (map (specField sv cs) (sd_fields sd)) = Some bss"
    "bs = concat bss @ [tSTOP]" using assms(2) by (auto simp: specStruct_def specUnknown_def)
  have "wire tSTRUCT (concat bss @ [tSTOP])"
    if "those (map (specField sv cs) fs) = Some bss" "set fs \<subseteq> set (sd_fields sd)" for fs bss
    using that
  proof (induction fs arbitrary: bss)
    case Nil
    then show ?case by (simp add: wire.stop)
  next
    case (Cons f fs)
    then obtain b bs' where b: "specField sv cs f = Some b" "those (map (specField sv cs) fs) = Some bs'"
      "bss = b # bs'" by (auto split: option.splits)
    have r: "wire tSTRUCT (concat bs' @ [tSTOP])" using Cons b by simp
    from b(1) obtain v s where v: "map_of cs (fOffset f) = Some v" "field_skipped f (Some v) = Ok s"
      by (auto simp: specField_def split: option.splits go.splits)
    show ?case
    proof (cases s)
      case True
      with v b(1) have "b = []" by (simp add: specField_def)
      with r b(3) show ?thesis by simp
    next
      case False
      with v b(1) obtain vb where vb: "sv (fType f) v = Some vb"
        "b = tWT (fType f) # bigEndian 2 (unat (fID f)) @ vb" by (auto simp: specField_def)
      have "wire (tWT (fType f)) vb \<and> tWT (fType f) \<noteq> tSTOP"
        using assms(3) [of f v vb] Cons.prems v vb(1) False by simp
      from wire.field [OF _ _ length_bigEndian r] this vb(2) b(3) show ?thesis by simp
    qed
  qed
  from this [OF bss(1)] bss(2) show ?thesis by simp
qed

lemma wfT_WT_not_stop: "wfT bv env t \<Longrightarrow> tWT t \<noteq> tSTOP"
  using wfT_valueTypes [of bv env t] wfT_WT_sel [of bv env t]
  by (auto simp: valueTypes_def)

lemma those_Some_set:
  assumes "those (map f xs) = Some ys" "y \<in> set ys"
  obtains x where "x \<in> set xs" "f x = Some y"
  using those_Some_nth [OF assms(1)] assms(2) by (auto simp: in_set_conv_nth)

lemma spec_list_wire:
  assumes "tT t = tLIST \<or> tT t = tSET" "tV t = Some et" "\<not> tIsPointer t" "wfT bv env t"
    "specV env (Suc n) t (VSlice q) = Some bs"
    "\<And>x b. x \<in> set (case q of Some vs \<Rightarrow> vs | None \<Rightarrow> []) \<Longrightarrow> specV env n et x = Some b \<Longrightarrow> wire (tWT et) b"
  shows "wire (tWT t) bs"
proof -
  define vs where "vs = (case q of Some vs \<Rightarrow> vs | None \<Rightarrow> [])"
  from assms(1-3,5) not_simple_tags [of t] obtain bss where
    bss: "those (map (specV env n et) vs) = Some bss" "bs = tWT et # wire32 (length vs) @ concat bss"
    by (auto simp: vs_def Let_def)
  have "list_all (wire (tWT et)) bss"
    unfolding list_all_iff using assms(6) bss(1) by (auto simp: vs_def elim: those_Some_set)
  moreover have "length vs = length bss" using those_Some_nth [OF bss(1)] by simp
  moreover have "tWT t = tLIST \<or> tWT t = tSET" using wfT_WT_sel [OF assms(4)] assms(1) by auto
  ultimately show ?thesis by (simp add: bss(2) wire32_def wire.elems)
qed

lemma specPairs_wire:
  assumes "those (map (specPair sv kt vt) kvs) = Some bss"
    "\<And>k v b. (k, v) \<in> set kvs \<Longrightarrow> sv kt k = Some b \<Longrightarrow> wire (tWT kt) b"
    "\<And>k v b. (k, v) \<in> set kvs \<Longrightarrow> sv vt v = Some b \<Longrightarrow> wire (tWT vt) b"
  shows "\<exists>ps. length ps = length kvs \<and> list_all (\<lambda>(k, v). wire (tWT kt) k \<and> wire (tWT vt) v) ps \<and>
    concat bss = concat (map (\<lambda>(k, v). k @ v) ps)"
  using assms
proof (induction kvs arbitrary: bss)
  case (Cons kv kvs)
  obtain k v where kv: "kv = (k, v)" by (cases kv)
  with Cons.prems(1) obtain pb bs' where pb: "specPair sv kt vt (k, v) = Some pb" "bss = pb # bs'"
    "those (map (specPair sv kt vt) kvs) = Some bs'"
    by (auto split: option.splits)
  then obtain kb vb where
    b: "sv kt k = Some kb" "sv vt v = Some vb" "bss = (kb @ vb) # bs'"
      "those (map (specPair sv kt vt) kvs) = Some bs'"
    by (auto simp: specPair_def split: option.splits)
  have "\<exists>ps. length ps = length kvs \<and> list_all (\<lambda>(k, v). wire (tWT kt) k \<and> wire (tWT vt) v) ps \<and>
    concat bs' = concat (map (\<lambda>(k, v). k @ v) ps)"
    by (rule Cons.IH [OF b(4)]) (use Cons.prems(2,3) in \<open>meson list.set_intros(2)\<close>)+
  then obtain ps where ps: "length ps = length kvs"
    "list_all (\<lambda>(k, v). wire (tWT kt) k \<and> wire (tWT vt) v) ps"
    "concat bs' = concat (map (\<lambda>(k, v). k @ v) ps)" by blast
  have "wire (tWT kt) kb" using Cons.prems(2) [of k v] b(1) kv by simp
  moreover have "wire (tWT vt) vb" using Cons.prems(3) [of k v] b(2) kv by simp
  ultimately show ?case using ps b(3) by (intro exI [of _ "(kb, vb) # ps"]) simp
qed simp

lemma spec_map_wire:
  assumes "tT t = tMAP" "tK t = Some kt" "tV t = Some vt" "\<not> tIsPointer t" "wfT bv env t"
    "specV env (Suc n) t (VMap q) = Some bs"
    "\<And>k v b. (k, v) \<in> set (case q of Some m \<Rightarrow> snd m | None \<Rightarrow> []) \<Longrightarrow> specV env n kt k = Some b \<Longrightarrow> wire (tWT kt) b"
    "\<And>k v b. (k, v) \<in> set (case q of Some m \<Rightarrow> snd m | None \<Rightarrow> []) \<Longrightarrow> specV env n vt v = Some b \<Longrightarrow> wire (tWT vt) b"
  shows "wire (tWT t) bs"
proof -
  define kvs where "kvs = (case q of Some m \<Rightarrow> snd m | None \<Rightarrow> [])"
  from assms(1-4,6) not_simple_tags [of t] obtain bss where
    bss: "those (map (specPair (specV env n) kt vt) kvs) = Some bss"
      "bs = tWT kt # tWT vt # wire32 (length kvs) @ concat bss"
    by (auto simp: kvs_def Let_def)
  from specPairs_wire [OF bss(1)] assms(7,8) obtain ps where
    ps: "length ps = length kvs" "list_all (\<lambda>(k, v). wire (tWT kt) k \<and> wire (tWT vt) v) ps"
      "concat bss = concat (map (\<lambda>(k, v). k @ v) ps)" unfolding kvs_def by blast
  have "tWT t = tMAP" using wfT_WT_sel [OF assms(5)] assms(1) by auto
  then show ?thesis using wire.pairs [OF ps(2)] by (simp add: bss(2) wire32_def ps(1,3))
qed

lemma field_skipped_nil:
  "field_skipped f (Some (VPtr None)) = Ok False \<Longrightarrow> fCanSkipEncodeIfNil f \<Longrightarrow> tIsPointer (fType f) \<Longrightarrow> False"
  by (simp add: field_skipped_def)

lemma struct_wire:
  assumes "wfSd bv env sd" "\<not> hasUnknownFields sd" "confFields (conf True env n) sd cs"
    "specStruct (specV env n) sd cs = Some bs"
    and IH: "\<And>t v b. wfT bv env t \<Longrightarrow> conf True env n t v \<Longrightarrow> specV env n t v = Some b \<Longrightarrow> wire (tWT t) b"
  shows "wire tSTRUCT bs"
  using assms(4,2)
proof (rule wire_struct)
  fix f v b
  assume f: "f \<in> set (sd_fields sd)" "map_of cs (fOffset f) = Some v"
    "field_skipped f (Some v) = Ok False" "specV env n (fType f) v = Some b"
  then have ft: "wfT bv env (fType f)" using assms(1) by (auto simp: wfSd_def wfField_def)
  have "conf True env n (fType f) v"
    using assms(3) f field_skipped_nil [of f] by (fastforce simp: confFields_def)
  with IH [OF ft _ f(4)] wfT_WT_not_stop [OF ft]
  show "wire (tWT (fType f)) b \<and> tWT (fType f) \<noteq> tSTOP" by simp
qed

lemma spec_wire:
  assumes env: "wfEnv bv env" and nu: "noUnknown env"
  shows "wfT bv env t \<Longrightarrow> conf True env n t v \<Longrightarrow> specV env n t v = Some bs \<Longrightarrow> wire (tWT t) bs"
proof (induction n arbitrary: t v bs)
  case (Suc n)
  note wf = Suc.prems(1) and sp = Suc.prems(3)
  from Suc.prems(2) wf show ?case
  proof (cases rule: conf_cases)
    case nilStruct
    with sp have "bs = [tSTOP]" by simp
    with nilStruct wf show ?thesis by (simp add: wfT_WT_sel wire.stop)
  next
    case (simple w)
    then have "specSimple t w = Some bs" using sp by (auto simp: Let_def split: if_splits)
    with simple show ?thesis by (intro wire_simple) (simp_all add: wfT_WT_sel [OF wf])
  next
    case (list et q)
    from wfT_list [OF wf list(1)] list(2) have et: "wfT bv env et" by auto
    show ?thesis
    proof (rule spec_list_wire [OF list(1,2,4) wf sp [unfolded list(3)]])
      fix x b
      assume x: "x \<in> set (case q of Some vs \<Rightarrow> vs | None \<Rightarrow> [])" "specV env n et x = Some b"
      then have "conf True env n et x" using list(5) by (auto split: option.splits)
      then show "wire (tWT et) b" by (rule Suc.IH [OF et _ x(2)])
    qed
  next
    case (map kt vt q)
    from wfT_map [OF wf map(1)] map(2,3) have kv: "wfT bv env kt" "wfT bv env vt" by auto
    have cf: "conf True env n kt k \<and> conf True env n vt w"
      if "(k, w) \<in> set (case q of Some m \<Rightarrow> snd m | None \<Rightarrow> [])" for k w
      using that map(6) by (fastforce split: option.splits)
    show ?thesis
      by (rule spec_map_wire [OF map(1,2,3,5) wf sp [unfolded map(4)]])
        (use cf Suc.IH kv in blast)+
  next
    case (struct sd cs)
    have wsd: "wfSd bv env sd" by (rule wfEnv_sd [OF env struct(2)])
    have s: "specStruct (specV env n) sd cs = Some bs"
      using sp spec_struct [OF struct(1,2), of n cs] by (simp add: struct(3) del: specV.simps)
    have "\<not> hasUnknownFields sd"
      using struct(2) nu by (auto simp: noUnknown_def Sd_def split: option.splits)
    from struct_wire [OF wsd this struct(4) s Suc.IH] have "wire tSTRUCT bs" .
    then show ?thesis using wfT_WT_sel [OF wf] struct(1) by simp
  qed
qed simp

lemma spec_object_wire:
  assumes env: "wfEnv bv env" and nu: "noUnknown env" and c: "confObject env n v"
    and sp: "specObject env n v = Some bs"
  shows "wire tSTRUCT bs"
  using c
proof (cases rule: confObject_cases)
  case (1 rt cl sd p)
  have wsd: "wfSd bv env sd" by (rule createStructDesc_wf [OF env 1(2)])
  have nusd: "\<not> hasUnknownFields sd"
    using 1(2) nu by (auto simp: noUnknown_def createStructDesc_def find_desc_def
        split: if_splits go.splits option.splits)
  from 1(4) show ?thesis
  proof
    assume "p = None"
    with 1 sp show ?thesis by (auto simp: specObject_def wire.stop)
  next
    assume "\<exists>cs. p = Some (VStruct cs) \<and> confFields (conf True env n) sd cs"
    then obtain cs where cs: "p = Some (VStruct cs)" "confFields (conf True env n) sd cs" by blast
    have "specStruct (specV env n) sd cs = Some bs" using sp 1 cs by (simp add: specObject_def)
    from struct_wire [OF wsd nusd cs(2) this spec_wire [OF env nu]] show ?thesis .
  qed
qed

end
