(* ===== verification/FuzzCorrect.thy ===== *)
theory FuzzCorrect
  imports FuzzCheck Grammar
begin

text \<open>
  What \<^verbatim>\<open>Check\<close> guarantees: it ends on every input (\<open>Check_total\<close>), and what it accepts is
  a Thrift encoding by the grammar \<open>wire\<close> of theory \<open>Grammar\<close> (\<open>Check_sound\<close>), for readers of the \<^verbatim>\<open>thrift\<close>
  package that do what their documentation says (\<open>bproto_ok\<close>).
\<close>

subsection \<open>The readers\<close>

text \<open>
  What a reader that reports no error has read. The count of elements is a non-negative
  number: the readers take the four bytes as unsigned or report a negative count.
\<close>

definition beginOK :: "bytes \<Rightarrow> ttype \<times> int \<times> nat \<times> nat option \<Rightarrow> bool" where
  "beginOK b r \<longleftrightarrow> (case r of (et, sz, l, e) \<Rightarrow>
     e = None \<longrightarrow> l = 5 \<and> 0 \<le> sz \<and> 5 \<le> length b \<and> take 5 b = et # bigEndian 4 (nat sz))"

definition bproto_ok :: "bproto \<Rightarrow> bool" where
  "bproto_ok bp \<longleftrightarrow>
     (\<forall>t b l. bp_Read bp t b = (l, None) \<longrightarrow>
        (t \<in> set [tBOOL, tBYTE, tI16, tI32, tI64, tDOUBLE] \<longrightarrow> l = typeToSize t \<and> l \<le> length b) \<and>
        (t = tSTRING \<longrightarrow> (\<exists>n. l = 4 + n \<and> l \<le> length b \<and> take 4 b = bigEndian 4 n))) \<and>
     (\<forall>b t fid l. bp_ReadFieldBegin bp b = (t, fid, l, None) \<longrightarrow>
        b \<noteq> [] \<and> hd b = t \<and> (if t = tSTOP then l = 1 else l = 3 \<and> 3 \<le> length b)) \<and>
     (\<forall>b. beginOK b (bp_ReadListBegin bp b) \<and> beginOK b (bp_ReadSetBegin bp b)) \<and>
     (\<forall>b kt vt sz l. bp_ReadMapBegin bp b = (kt, vt, sz, l, None) \<longrightarrow>
        l = 6 \<and> 0 \<le> sz \<and> 6 \<le> length b \<and> take 6 b = kt # vt # bigEndian 4 (nat sz))"

subsection \<open>Soundness\<close>

text \<open>
  The types that \<^verbatim>\<open>Check\<close> reports, by their tag: the type of an empty container's elements
  is a tag alone, a key is no container, the ids of a struct's fields are distinct.
\<close>

inductive goodType :: "ttype \<Rightarrow> ftype option \<Rightarrow> bool" where
  leaf: "isValidType t \<Longrightarrow> goodType t (Some (FType t None None []))"
| fields: "distinct (map fst fs) \<Longrightarrow> list_all (\<lambda>(n, ty). \<exists>t. goodType t ty) fs \<Longrightarrow>
    goodType tSTRUCT (Some (FType tSTRUCT None None fs))"
| elems: "t = tLIST \<or> t = tSET \<Longrightarrow> goodType et e \<Longrightarrow> goodType t (Some (FType t None e []))"
| pairs: "kt \<noteq> tLIST \<Longrightarrow> kt \<noteq> tSET \<Longrightarrow> kt \<noteq> tMAP \<Longrightarrow> goodType kt k \<Longrightarrow> goodType vt v \<Longrightarrow>
    goodType tMAP (Some (FType tMAP k v []))"

lemma goodType_tag: "goodType t ty \<Longrightarrow> \<exists>T. ty = Some T \<and> f_TypeID T = t"
  by (cases rule: goodType.cases) auto

text \<open>\<open>chk\<close> accepts encodings only, and reports such a type.\<close>

definition sound :: "(bytes \<Rightarrow> ttype \<Rightarrow> checkResult) \<Rightarrow> bool" where
  "sound chk \<longleftrightarrow>
     (\<forall>b t ty l. chk b t = Some (ty, l, None) \<longrightarrow>
        l \<le> length b \<and> wire t (take l b) \<and> goodType t ty)"

lemma soundD:
  "sound chk \<Longrightarrow> chk b t = Some (ty, l, None) \<Longrightarrow>
   l \<le> length b \<and> wire t (take l b) \<and> goodType t ty"
  by (auto simp: sound_def)

lemma slice_split:
  "i \<le> j \<Longrightarrow> j \<le> l \<Longrightarrow> take (l - i) (drop i xs) = take (j - i) (drop i xs) @ take (l - j) (drop j xs)"
  using take_add [of "j - i" "l - j" "drop i xs"] by simp

lemma take_slice: "i \<le> l \<Longrightarrow> take l xs = take i xs @ take (l - i) (drop i xs)"
  using slice_split [of 0 i l xs] by simp

lemma recovered_None:
  "recovered r = Some (ty, l, None) \<longleftrightarrow> r = CRet ty l None \<or> r = CPanic OtherPanic ty l"
  by (auto simp: recovered_def split: cres.splits cpanic.splits if_splits) (metis cpanic.exhaust)

lemma structLoop_sound:
  assumes bp: "bproto_ok bp" and chk: "sound chk"
  shows "recovered (structLoop bp chk m buf i fs) = Some (ty, l, None) \<Longrightarrow>
    distinct (map fst fs) \<Longrightarrow> list_all (\<lambda>(n, ty). \<exists>t. goodType t ty) fs \<Longrightarrow>
    i \<le> l \<and> l \<le> length buf \<and> wire tSTRUCT (take (l - i) (drop i buf)) \<and> goodType tSTRUCT ty"
proof (induction m arbitrary: i fs)
  case 0
  then show ?case by (simp add: recovered_None)
next
  case (Suc m)
  obtain tp fid r e where h: "bp_ReadFieldBegin bp (drop i buf) = (tp, fid, r, e)" by (metis prod_cases4)
  have le: "i \<le> length buf" "e = None"
    using Suc.prems h by (auto simp: recovered_None Let_def split: if_splits option.splits)
  with bp h have hd: "drop i buf \<noteq> []" "hd (drop i buf) = tp"
    "if tp = tSTOP then r = 1 else r = 3 \<and> 3 \<le> length (drop i buf)"
    unfolding bproto_ok_def by blast+
  show ?case
  proof (cases "tp = tSTOP")
    case True
    then have "ty = Some (FType tSTRUCT None None fs)" "l = i + 1"
      using Suc.prems h hd(3) le by (auto simp: recovered_None)
    moreover have "take 1 (drop i buf) = [tSTOP]"
      using hd(1,2) True by (cases "drop i buf") auto
    ultimately show ?thesis using hd(1) wire.stop goodType.fields [OF Suc.prems(2,3)] by auto
  next
    case False
    with hd have r: "r = 3" "i + 3 \<le> length buf" by auto
    then obtain ft l1 e1 where c: "chk (drop (i + 3) buf) tp = Some (ft, l1, e1)"
      using Suc.prems h le False by (auto simp: recovered_None Let_def split: option.splits)
    then have rec: "e1 = None" "recovered (structLoop bp chk m buf (i + 3 + l1) (fs @ [(fid, ft)])) = Some (ty, l, None)"
      "fid \<notin> fst ` set fs" using Suc.prems h le False r by (auto simp: recovered_None Let_def split: option.splits if_splits)
    from soundD [OF chk c [unfolded rec(1)]] r
    have c: "l1 \<le> length buf - (i + 3)" "wire tp (take l1 (drop (i + 3) buf))" "goodType tp ft" by auto
    have "distinct (map fst (fs @ [(fid, ft)]))" "list_all (\<lambda>(n, ty). \<exists>t. goodType t ty) (fs @ [(fid, ft)])"
      using Suc.prems(2,3) rec(3) c(3) by auto
    from Suc.IH [OF rec(2) this] have ih: "i + 3 + l1 \<le> l" "l \<le> length buf"
      "wire tSTRUCT (take (l - (i + 3 + l1)) (drop (i + 3 + l1) buf))" "goodType tSTRUCT ty"
      by auto
    have "take (l - i) (drop i buf) = take 3 (drop i buf) @ take l1 (drop (i + 3) buf) @
        take (l - (i + 3 + l1)) (drop (i + 3 + l1) buf)"
      using slice_split [of i "i + 3" l buf] slice_split [of "i + 3" "i + 3 + l1" l buf] ih by simp
    moreover have "take 3 (drop i buf) = tp # take 2 (drop (i + 1) buf)"
    proof -
      have "drop (i + 1) buf = tl (drop i buf)" by (simp add: drop_Suc tl_drop)
      then show ?thesis using hd(1,2) by (cases "drop i buf") (auto simp: numeral_3_eq_3 numeral_2_eq_2)
    qed
    moreover have "length (take 2 (drop (i + 1) buf)) = 2" using r by simp
    ultimately show ?thesis using ih wire.field [OF c(2) False _ ih(3)] by auto
  qed
qed

lemma elemsLoop_sound:
  assumes chk: "sound chk"
  shows "elemsLoop isSet chk typ et buf k i ts strs = Done (l, ts', strs') \<Longrightarrow> i \<le> length buf \<Longrightarrow>
    list_all (goodType et) ts \<Longrightarrow> i \<le> l \<and> l \<le> length buf \<and> (\<exists>bs. length bs = k \<and> list_all (wire et) bs \<and> take (l - i) (drop i buf) = concat bs) \<and>
    length ts' = length ts + k \<and> list_all (goodType et) ts'"
proof (induction k arbitrary: i ts strs)
  case (Suc k)
  obtain t r strs2 where c: "chk (drop i buf) et = Some (t, r, None)"
    and rec: "elemsLoop isSet chk typ et buf k (i + r) (ts @ [t]) strs2 = Done (l, ts', strs')"
    using Suc.prems by (auto split: option.splits if_splits)
  from soundD [OF chk c] have r: "r \<le> length buf - i" "wire et (take r (drop i buf))" "goodType et t" by auto
  then have "i + r \<le> length buf" "list_all (goodType et) (ts @ [t])" using Suc.prems(2,3) by simp_all
  from Suc.IH [OF rec this] obtain bs where bs: "length bs = k" "list_all (wire et) bs"
    "take (l - (i + r)) (drop (i + r) buf) = concat bs" "i + r \<le> l" "l \<le> length buf" "length ts' = length (ts @ [t]) + k" "list_all (goodType et) ts'"
    by blast
  have "take (l - i) (drop i buf) = concat (take r (drop i buf) # bs)"
    using slice_split [of i "i + r" l buf] bs by simp
  then show ?case using bs r by (intro conjI exI [of _ "take r (drop i buf) # bs"]) auto
qed simp

lemma elemsLoop_early:
  assumes "sound chk"
  shows "elemsLoop isSet chk typ et buf k i ts strs = Early r \<Longrightarrow> i \<le> length buf \<Longrightarrow>
    recovered r \<noteq> Some (ty, l, None)"
proof (induction k arbitrary: i ts strs)
  case (Suc k)
  have "i + n \<le> length buf" if "chk (drop i buf) et = Some (t, n, None)" for t n
    using soundD [OF assms that] Suc.prems(2) by (simp add: le_diff_conv2 add.commute)
  with Suc show ?case by (auto simp: recovered_None split: option.splits if_splits)
qed simp

lemma pairsLoop_sound:
  assumes chk: "sound chk"
  shows "pairsLoop chk kt vt buf k i ks vs = Done (l, ks', vs') \<Longrightarrow> i \<le> length buf \<Longrightarrow>
    list_all (goodType kt) ks \<Longrightarrow> list_all (goodType vt) vs \<Longrightarrow> i \<le> l \<and> l \<le> length buf \<and>
    (\<exists>kvs. length kvs = k \<and> list_all (\<lambda>(x, y). wire kt x \<and> wire vt y) kvs \<and>
      take (l - i) (drop i buf) = concat (map (\<lambda>(x, y). x @ y) kvs)) \<and>
    length ks' = length ks + k \<and> length vs' = length vs + k \<and>
    list_all (goodType kt) ks' \<and> list_all (goodType vt) vs'"
proof (induction k arbitrary: i ks vs)
  case (Suc k)
  obtain t r u q where c: "chk (drop i buf) kt = Some (t, r, None)" "chk (drop (i + r) buf) vt = Some (u, q, None)"
    and le: "i + r \<le> length buf"
    and rec: "pairsLoop chk kt vt buf k (i + r + q) (ks @ [t]) (vs @ [u]) = Done (l, ks', vs')"
    using Suc.prems by (auto simp: Let_def split: option.splits if_splits)
  from soundD [OF chk c(1)] soundD [OF chk c(2)] have r: "wire kt (take r (drop i buf))"
    "wire vt (take q (drop (i + r) buf))" "i + r + q \<le> length buf"
    "list_all (goodType kt) (ks @ [t])" "list_all (goodType vt) (vs @ [u])"
    using le Suc.prems(3,4) by auto
  from Suc.IH [OF rec r(3-5)] obtain kvs where kvs: "length kvs = k"
    "list_all (\<lambda>(x, y). wire kt x \<and> wire vt y) kvs"
    "take (l - (i + r + q)) (drop (i + r + q) buf) = concat (map (\<lambda>(x, y). x @ y) kvs)"
    "i + r + q \<le> l" "l \<le> length buf" "length ks' = length (ks @ [t]) + k" "length vs' = length (vs @ [u]) + k"
    "list_all (goodType kt) ks'" "list_all (goodType vt) vs'"
    by blast
  have "take (l - i) (drop i buf) =
      concat (map (\<lambda>(x, y). x @ y) ((take r (drop i buf), take q (drop (i + r) buf)) # kvs))"
    using slice_split [of i "i + r" l buf] slice_split [of "i + r" "i + r + q" l buf] kvs by simp
  then show ?case
    using kvs r by (intro conjI exI [of _ "(take r (drop i buf), take q (drop (i + r) buf)) # kvs"]) auto
qed simp

lemma pairsLoop_early:
  assumes "sound chk"
  shows "pairsLoop chk kt vt buf k i ks vs = Early r \<Longrightarrow> i \<le> length buf \<Longrightarrow> recovered r \<noteq> Some (ty, l, None)"
proof (induction k arbitrary: i ks vs)
  case (Suc k)
  have "i + n + q \<le> length buf" if "\<not> length buf < i + n" "chk (drop (i + n) buf) vt = Some (u, q, None)" for n u q
    using soundD [OF assms that(2)] that(1) by (simp add: le_diff_conv2 add.commute)
  with Suc show ?case by (fastforce simp: recovered_None Let_def split: option.splits if_splits)
qed simp

lemma checkElems_sound:
  assumes "beginOK buf h" "sound chk" "t = tLIST \<or> t = tSET" "recovered (checkElems isSet chk t buf h) = Some (ty, l, None)"
  shows "l \<le> length buf \<and> wire t (take l buf) \<and> goodType t ty"
proof -
  obtain et sz n e where h: "h = (et, sz, n, e)" by (metis prod_cases4)
  have e: "e = None" using assms(4) by (cases e) (auto simp: h checkElems_def recovered_None)
  with assms(1) have b: "n = 5" "0 \<le> sz" "5 \<le> length buf" "take 5 buf = et # bigEndian 4 (nat sz)"
    by (auto simp: beginOK_def h)
  let ?loop = "elemsLoop isSet chk (Some (FType t None None [])) et buf (nat sz) 5 [] []"
  show ?thesis
  proof (cases ?loop)
    case (Early r)
    with elemsLoop_early [OF assms(2) Early b(3), of ty l] assms(4) b(2) show ?thesis
      by (auto simp: checkElems_def h e b(1) recovered_None Let_def split: if_splits)
  next
    case (Done x)
    obtain j ts strs where x: "x = (j, ts, strs)" by (metis prod_cases3)
    from elemsLoop_sound [OF assms(2) Done [unfolded x] b(3)] obtain bs where
      bs: "length bs = nat sz" "list_all (wire et) bs" "take (j - 5) (drop 5 buf) = concat bs" "5 \<le> j"
      "j \<le> length buf" "length ts = nat sz" "list_all (goodType et) ts" by auto
    have et: "isValidType et"
      using assms(4) by (auto simp: checkElems_def h e recovered_None Let_def split: if_splits)
    obtain us where us: "l = j" "ty = Some (FType t None (hd us) [])"
      "us = (if sz = 0 then ts @ [Some (FType et None None [])] else ts)"
      using assms(4) Done b(2) bs(6)
      by (auto simp: checkElems_def h e b(1) x recovered_None Let_def split: if_splits list.splits)
    have "goodType et (hd us)"
      using us(3) bs(6,7) et b(2) by (cases ts) (auto intro: goodType.leaf)
    with us assms(3) have "l = j" "goodType t ty" by (auto intro: goodType.elems)
    moreover have "take j buf = et # bigEndian 4 (length bs) @ concat bs"
      using take_slice [OF bs(4), of buf] bs(1,3) b(4) by simp
    ultimately show ?thesis using wire.elems [OF assms(3) bs(2)] bs(5) by simp
  qed
qed

lemma checkMap_sound:
  assumes "bproto_ok bp" "sound chk" "recovered (checkMap bp chk buf) = Some (ty, l, None)"
  shows "l \<le> length buf \<and> wire tMAP (take l buf) \<and> goodType tMAP ty"
proof -
  obtain kt vt sz n e where h: "bp_ReadMapBegin bp buf = (kt, vt, sz, n, e)" by (metis prod_cases5)
  have e: "e = None" using assms(3) by (cases e) (auto simp: h checkMap_def recovered_None)
  with assms(1) h have b: "n = 6" "0 \<le> sz" "6 \<le> length buf" "take 6 buf = kt # vt # bigEndian 4 (nat sz)"
    unfolding bproto_ok_def by blast+
  let ?loop = "pairsLoop chk kt vt buf (nat sz) 6 [] []"
  show ?thesis
  proof (cases ?loop)
    case (Early r)
    with pairsLoop_early [OF assms(2) Early b(3), of ty l] assms(3) b(2) show ?thesis
      by (auto simp: checkMap_def h e b(1) recovered_None Let_def split: if_splits)
  next
    case (Done x)
    obtain j ks vs where x: "x = (j, ks, vs)" by (metis prod_cases3)
    from pairsLoop_sound [OF assms(2) Done [unfolded x] b(3)] obtain kvs where
      kvs: "length kvs = nat sz" "list_all (\<lambda>(x, y). wire kt x \<and> wire vt y) kvs"
      "take (j - 6) (drop 6 buf) = concat (map (\<lambda>(x, y). x @ y) kvs)" "6 \<le> j" "j \<le> length buf"
      "length ks = nat sz" "length vs = nat sz" "list_all (goodType kt) ks" "list_all (goodType vt) vs" by auto
    have kt: "isValidType kt" "isValidType vt" "kt \<noteq> tLIST" "kt \<noteq> tSET" "kt \<noteq> tMAP"
      using assms(3) by (auto simp: checkMap_def h e recovered_None Let_def split: if_splits)
    obtain us ws where us: "l = j" "ty = Some (FType tMAP (hd us) (hd ws) [])"
      "us = (if sz = 0 then ks @ [Some (FType kt None None [])] else ks)"
      "ws = (if sz = 0 then vs @ [Some (FType vt None None [])] else vs)"
      using assms(3) Done b(2) kvs(6,7)
      by (auto simp: checkMap_def h e b(1) x recovered_None Let_def split: if_splits list.splits)
    have "goodType kt (hd us)"
      using us(3) kvs(6,8) kt(1) b(2) by (cases ks) (auto intro: goodType.leaf)
    moreover have "goodType vt (hd ws)"
      using us(4) kvs(7,9) kt(2) b(2) by (cases vs) (auto intro: goodType.leaf)
    ultimately have "l = j" "goodType tMAP ty" using us(1,2) kt by (auto intro: goodType.pairs)
    moreover have "take j buf = kt # vt # bigEndian 4 (length kvs) @ concat (map (\<lambda>(x, y). x @ y) kvs)"
      using take_slice [OF kvs(4), of buf] kvs(1,3) b(4) by simp
    ultimately show ?thesis using wire.pairs [OF kvs(2)] kvs(5) by simp
  qed
qed

lemma Check_sound: "bproto_ok bp \<Longrightarrow> sound (Check bp n)"
proof (induction n)
  case 0
  show ?case by (simp add: sound_def)
next
  case (Suc n)
  note ih = Suc.IH [OF Suc.prems]
  show ?case
    unfolding sound_def
  proof (intro allI impI)
    fix b t ty l assume a: "Check bp (Suc n) b t = Some (ty, l, None)"
    consider (simple) "t \<in> set [tBOOL, tBYTE, tI16, tI32, tI64, tDOUBLE, tSTRING]" |
      (struct) "t = tSTRUCT" | (map) "t = tMAP" | (elems) "t = tLIST \<or> t = tSET" |
      (other) "t \<notin> set [tBOOL, tBYTE, tI16, tI32, tI64, tDOUBLE, tSTRING]" "t \<noteq> tSTRUCT" "t \<noteq> tMAP"
        "t \<noteq> tSET" "t \<noteq> tLIST"
      by blast
    then show "l \<le> length b \<and> wire t (take l b) \<and> goodType t ty"
    proof cases
      case simple
      then have r: "bp_Read bp t b = (l, None)" "ty = Some (FType t None None [])"
        using a by (auto simp: recovered_None split: prod.splits)
      show ?thesis
      proof (cases "t = tSTRING")
        case True
        with Suc.prems r(1) obtain k where k: "l = 4 + k" "l \<le> length b" "take 4 b = bigEndian 4 k"
          unfolding bproto_ok_def by blast
        then have "take l b = bigEndian 4 (length (take k (drop 4 b))) @ take k (drop 4 b)"
          by (simp add: take_add)
        moreover have "goodType t ty" using r(2) True by (simp add: goodType.leaf isValidType_def)
        ultimately show ?thesis using k(2) True wire.string by metis
      next
        case False
        with simple have t: "t \<in> set [tBOOL, tBYTE, tI16, tI32, tI64, tDOUBLE]" by auto
        with Suc.prems r(1) have "l = typeToSize t" "l \<le> length b" unfolding bproto_ok_def by blast+
        moreover have "goodType t ty" using t r(2) by (auto intro!: goodType.leaf simp: isValidType_def)
        ultimately show ?thesis using t by (simp add: wire.fixed)
      qed
    next
      case struct
      with a structLoop_sound [OF Suc.prems ih, of "Suc n" b 0 "[]" ty l] show ?thesis by (simp del: structLoop.simps)
    next
      case map
      with a checkMap_sound [OF Suc.prems ih, of b ty l] show ?thesis by simp
    next
      case elems
      with Suc.prems have "beginOK b (bp_ReadListBegin bp b)" "beginOK b (bp_ReadSetBegin bp b)"
        unfolding bproto_ok_def by blast+
      from checkElems_sound [OF this(1) ih elems, of _ ty l] checkElems_sound [OF this(2) ih elems, of _ ty l]
      show ?thesis using elems a by auto
    next
      case other
      with a show ?thesis by (simp add: recovered_None)
    qed
  qed
qed

subsection \<open>Termination\<close>

lemma recovered_overflow: "recovered r = None \<longleftrightarrow> r = COverflow"
  by (auto simp: recovered_def split: cres.splits)

text \<open>\<open>chk\<close> ends on every buffer shorter than \<open>n\<close>.\<close>

definition ends :: "nat \<Rightarrow> (bytes \<Rightarrow> ttype \<Rightarrow> checkResult) \<Rightarrow> bool" where
  "ends n chk \<longleftrightarrow> (\<forall>b t. length b < n \<longrightarrow> chk b t \<noteq> None)"

lemma endsD: "ends n chk \<Longrightarrow> length b < n \<Longrightarrow> chk b t \<noteq> None"
  by (simp add: ends_def)

lemma structLoop_ends:
  assumes bp: "bproto_ok bp" and chk: "ends (length buf) chk"
  shows "length buf - i < m \<Longrightarrow> structLoop bp chk m buf i fs \<noteq> COverflow"
proof (induction m arbitrary: i fs)
  case (Suc m)
  obtain tp fid r e where h: "bp_ReadFieldBegin bp (drop i buf) = (tp, fid, r, e)" by (metis prod_cases4)
  show ?case
  proof (cases "i > length buf \<or> e \<noteq> None \<or> tp = tSTOP")
    case False
    with bp h have r: "r = 3" "3 \<le> length (drop i buf)" unfolding bproto_ok_def by (metis option.exhaust)+
    then have l: "length buf - (i + 3 + l) < m" for l using Suc.prems by auto
    have "chk (drop (i + 3) buf) tp \<noteq> None" using chk r by (simp add: ends_def)
    then obtain t l e' where "chk (drop (i + 3) buf) tp = Some (t, l, e')" by auto
    with Suc.IH [OF l] h False r show ?thesis by (auto simp: Let_def split: option.splits)
  qed (use h in \<open>auto simp: Let_def split: option.splits\<close>)
qed simp

lemma elemsLoop_ends:
  assumes "ends (length buf) chk"
  shows "0 < i \<Longrightarrow> elemsLoop isSet chk typ et buf k i ts strs \<noteq> Early COverflow"
proof (induction k arbitrary: i ts strs)
  case (Suc k)
  have "length buf < i \<or> chk (drop i buf) et \<noteq> None"
    using endsD [OF assms, of "drop i buf" et] Suc.prems by (cases "length buf < i") auto
  with Suc show ?case by (auto split: option.splits)
qed simp

lemma pairsLoop_ends:
  assumes "ends (length buf) chk"
  shows "0 < i \<Longrightarrow> pairsLoop chk kt vt buf k i ks vs \<noteq> Early COverflow"
proof (induction k arbitrary: i ks vs)
  case (Suc k)
  have c: "\<exists>r. chk (drop (i + n) buf) x = Some r" if "\<not> length buf < i + n" for n x
    using endsD [OF assms, of "drop (i + n) buf" x] Suc.prems that by auto
  show ?case
  proof (cases "length buf < i")
    case False
    then obtain t l e where t: "chk (drop i buf) kt = Some (t, l, e)" using c [of 0 kt] by auto
    show ?thesis
    proof (cases "e \<noteq> None \<or> length buf < i + l")
      case False2: False
      then obtain u q e' where "chk (drop (i + l) buf) vt = Some (u, q, e')" using c [of l vt] by auto
      with False False2 t Suc.IH Suc.prems show ?thesis by (cases e') (auto simp: Let_def)
    qed (use False t in \<open>auto simp: Let_def split: option.splits\<close>)
  qed simp
qed simp

lemma Check_total: "bproto_ok bp \<Longrightarrow> length buf < n \<Longrightarrow> Check bp n buf t \<noteq> None"
proof (induction n arbitrary: buf t)
  case (Suc n)
  then have e: "ends (length buf) (Check bp n)" by (auto simp: ends_def)
  have "structLoop bp (Check bp n) (Suc n) buf 0 [] \<noteq> COverflow"
    by (rule structLoop_ends [OF Suc.prems(1) e]) (use Suc.prems in simp)
  moreover have "checkElems isSet (Check bp n) t' buf h \<noteq> COverflow" if "beginOK buf h" for isSet t' h
    using that elemsLoop_ends [OF e]
    by (auto simp: checkElems_def beginOK_def Let_def split: prod.splits option.splits loop.splits list.splits)
  moreover have "checkMap bp (Check bp n) buf \<noteq> COverflow"
  proof -
    obtain kt vt sz k r where h: "bp_ReadMapBegin bp buf = (kt, vt, sz, k, r)" by (metis prod_cases5)
    with Suc.prems(1) have "r = None \<Longrightarrow> 0 < k" unfolding bproto_ok_def by fastforce
    then show ?thesis
      using h pairsLoop_ends [OF e]
      by (auto simp: checkMap_def Let_def split: option.splits loop.splits list.splits)
  qed
  moreover have "beginOK buf (bp_ReadListBegin bp buf)" "beginOK buf (bp_ReadSetBegin bp buf)"
    using Suc.prems(1) unfolding bproto_ok_def by blast+
  ultimately show ?case by (auto simp: recovered_overflow simp del: structLoop.simps split: prod.splits)
qed simp

end
