(* ===== verification/FuzzProps.thy ===== *)
theory FuzzProps
  imports FuzzCorrect Grammar
begin

text \<open>
  The properties of the fuzzer's checker, with a reader of the \<^verbatim>\<open>thrift\<close> package that meets
  \<open>bproto_ok\<close>, and of the grammar that the encoder and the checker share.
\<close>

subsection \<open>A reader\<close>

definition readCount :: "bytes \<Rightarrow> nat option" where
  "readCount b = (case beUint32 b of Ok w \<Rightarrow> Some (unat w) | Panic p \<Rightarrow> None)"

definition readValue :: "ttype \<Rightarrow> bytes \<Rightarrow> nat \<times> nat option" where
  "readValue t b =
     (if t = tSTRING then
        (case readCount b of
           None \<Rightarrow> (0, Some 0)
         | Some n \<Rightarrow> if length b < 4 + n then (4, Some 0) else (4 + n, None))
      else if length b < typeToSize t then (0, Some 0) else (typeToSize t, None))"

definition readFieldBegin :: "bytes \<Rightarrow> ttype \<times> 16 word \<times> nat \<times> nat option" where
  "readFieldBegin b =
     (case b of
        [] \<Rightarrow> (0, 0, 0, Some 0)
      | t # r \<Rightarrow> if t = tSTOP then (t, 0, 1, None)
                 else (case beUint16 r of Ok i \<Rightarrow> (t, i, 3, None) | Panic p \<Rightarrow> (t, 0, 1, Some 0)))"

definition readListBegin :: "bytes \<Rightarrow> ttype \<times> int \<times> nat \<times> nat option" where
  "readListBegin b =
     (case b of
        [] \<Rightarrow> (0, 0, 0, Some 0)
      | t # r \<Rightarrow> (case readCount r of Some n \<Rightarrow> (t, int n, 5, None) | None \<Rightarrow> (0, 0, 0, Some 0)))"

definition readMapBegin :: "bytes \<Rightarrow> ttype \<times> ttype \<times> int \<times> nat \<times> nat option" where
  "readMapBegin b =
     (case b of
        k # v # r \<Rightarrow> (case readCount r of Some n \<Rightarrow> (k, v, int n, 6, None) | None \<Rightarrow> (0, 0, 0, 0, Some 0))
      | _ \<Rightarrow> (0, 0, 0, 0, Some 0))"

definition ex_bp :: bproto where
  "ex_bp = \<lparr>bp_Read = readValue, bp_ReadFieldBegin = readFieldBegin, bp_ReadMapBegin = readMapBegin,
     bp_ReadSetBegin = readListBegin, bp_ReadListBegin = readListBegin\<rparr>"

lemma readCount_Some: "readCount b = Some n \<Longrightarrow> 4 \<le> length b \<and> take 4 b = bigEndian 4 n"
  by (auto simp: readCount_def be32.get_Ok_iff bigEndian_32 split: go.splits)

lemma readValue_None:
  assumes "readValue t b = (l, None)"
  shows "t \<noteq> tSTRING \<Longrightarrow> l = typeToSize t \<and> l \<le> length b"
    and "t = tSTRING \<Longrightarrow> \<exists>n. l = 4 + n \<and> l \<le> length b \<and> take 4 b = bigEndian 4 n"
  using assms by (auto simp: readValue_def split: if_splits option.splits dest: readCount_Some)

lemma readFieldBegin_None:
  "readFieldBegin b = (t, fid, l, None) \<Longrightarrow>
   b \<noteq> [] \<and> hd b = t \<and> (if t = tSTOP then l = 1 else l = 3 \<and> 3 \<le> length b)"
  by (auto simp: readFieldBegin_def be16.get_Ok_iff split: list.splits if_splits go.splits)

lemma readListBegin_ok: "beginOK b (readListBegin b)"
  by (auto simp: beginOK_def readListBegin_def split: list.splits option.splits
      dest!: readCount_Some)

lemma readMapBegin_None:
  "readMapBegin b = (kt, vt, sz, l, None) \<Longrightarrow>
   l = 6 \<and> 0 \<le> sz \<and> 6 \<le> length b \<and> take 6 b = kt # vt # bigEndian 4 (nat sz)"
  by (auto simp: readMapBegin_def split: list.splits option.splits dest!: readCount_Some)

lemma ex_bp_ok: "bproto_ok ex_bp"
  unfolding bproto_ok_def ex_bp_def bproto.simps
proof (intro conjI allI impI)
  fix t b l
  assume r: "readValue t b = (l, None)"
  assume "t \<in> set [tBOOL, tBYTE, tI16, tI32, tI64, tDOUBLE]"
  then have "t \<noteq> tSTRING" by auto
  then show "l = typeToSize t" "l \<le> length b" using readValue_None(1) [OF r] by auto
qed (use readValue_None(2) readFieldBegin_None readListBegin_ok readMapBegin_None in fast)+

subsection \<open>The properties\<close>

text \<open>
  C36. The checker is sound: what \<^verbatim>\<open>Check\<close> accepts is an encoding of the type asked for by
  the grammar of the Thrift binary format, within the buffer, and the type it reports is one
  of that tag, in which no key is a container and no field id occurs twice. This holds although a recovered panic is returned without an error.
\<close>

theorem Check_accepts_encodings:
  assumes "bproto_ok bp" "Check bp n buf t = Some (ty, l, None)"
  shows "l \<le> length buf \<and> wire t (take l buf) \<and> goodType t ty"
  using soundD [OF Check_sound [OF assms(1)] assms(2)] .

lemma ex_check:
  "Check ex_bp 10 [8, 0, 1, 0, 0, 0, 7, 15, 0, 2, 2, 0, 0, 0, 1, 1, 0, 99] tSTRUCT =
   Some (Some (FType tSTRUCT None None
      [(1, Some (FType tI32 None None [])),
       (2, Some (FType tLIST None (Some (FType tBOOL None None [])) []))]), 17, None)"
  by code_simp

theorem Check_accepts_encodings_witness:
  "wire tSTRUCT [8, 0, 1, 0, 0, 0, 7, 15, 0, 2, 2, 0, 0, 0, 1, 1, 0]"
  using Check_accepts_encodings [OF ex_bp_ok ex_check] by simp

text \<open>
  C40. The checker ends on every buffer, whatever its bytes: with more fuel than the buffer has
  bytes, neither the nesting nor the loop over the fields runs out, since each level and each
  field consumes a byte at least.
\<close>

theorem Check_terminates:
  assumes "bproto_ok bp" "length buf < n"
  shows "Check bp n buf t \<noteq> None"
  by (rule Check_total [OF assms])

theorem Check_terminates_witness: "Check ex_bp 5 [13, 11, 11, 0] tLIST \<noteq> None"
  by (rule Check_terminates [OF ex_bp_ok]) simp

text \<open>
  C38. What the encoder writes is in the same grammar: for a conforming object whose struct
  types keep no unknown fields, \<^verbatim>\<open>Append\<close> writes an encoding of a struct.
\<close>

theorem encoding_grammar:
  assumes "wfEnv bv env" "noUnknown env" "confObject env n v" "n \<le> k"
  shows "\<exists>bs. Append k env [] v = FOk bs \<and> wire tSTRUCT bs"
  using Append_object [OF assms(1,3)] spec_object_wire [OF assms(1-3)] assms(4) by fastforce

text \<open>The example type, generated without \<^verbatim>\<open>-keep-unknown-fields\<close>.\<close>

definition plain_sd :: structDesc where
  "plain_sd = ex_sd\<lparr>hasUnknownFields := False, unknownFieldsOffset := 0\<rparr>"

definition plain_env :: env where "plain_env i = (if i = 0 then Some plain_sd else None)"

lemma plain_newStructDesc: "newStructDesc ex_lay (ex_g\<lparr>gs_unknown := None\<rparr>) ex_ff = Ok plain_sd"
  by (simp add: plain_sd_def ex_sd_eq newStructDesc_def fromDefsFields_def ex_ff_def maxFieldID_def
      mkField_def ex_g_def fill_fields.simps(2) fromDefsField_def newTType_ex mkF_def
      containerTypes_def is_byte_slice_def bytetype_def tField_EncodedSize_def fieldHeaderLen_def
      upd_list)

lemma plain_wfEnv: "wfEnv False plain_env"
proof -
  have "supStruct False plain_env (ex_g\<lparr>gs_unknown := None\<rparr>) ex_ff"
    by (simp add: supStruct_def ex_ff_def ex_g_def mkField_def ty_defs supField_def basicTag_def
        Type_IsKeyType_def Type_IsValueType_def plain_env_def confSimple_def rep_type_def ty_deref_def
        abi_kinds_def simpleTypes_def)
  from newStructDesc_wf [OF this, of ex_lay] plain_newStructDesc show ?thesis
    by (auto simp: wfEnv_def plain_env_def)
qed

theorem encoding_grammar_witness:
  "\<exists>bs. Append 4 plain_env [] (Iface (RPtr go_Node) ex_v) = FOk bs \<and> wire tSTRUCT bs"
proof (rule encoding_grammar [OF plain_wfEnv _ _ order_refl])
  show "noUnknown plain_env" by (simp add: noUnknown_def plain_env_def plain_sd_def)
  show "confObject plain_env 4 (Iface (RPtr go_Node) ex_v)"
    unfolding four
    by (simp add: confObject_def createStructDesc_def find_desc_def go_Node_def objPtr_def ex_v_def
        plain_env_def plain_sd_def ex_sd_eq node_def confFields_def mkF_def confSimple_def
        simpleTypes_def Sd_def)
qed

text \<open>
  \<^verbatim>\<open>Type.Equal\<close> compares the element type of a container with the other type's key type,
  so the type of a list or a set is not equal to itself, and that of a map is only when its
  key and element types are equal.
\<close>

lemma Type_Equal_not_reflexive:
  "\<not> Type_Equal (Some (FType tLIST None (Some e) fs)) (Some (FType tLIST None (Some e) fs))"
  by simp

text \<open>A \<^verbatim>\<open>set<bool>\<close> with the bytes 0, 1 and 2 has two elements that are not true.\<close>

lemma setDuplicate_missed: "\<not> setDuplicate tBOOL [[0], [1], [2]]"
  by (simp add: setDuplicate_def)

end
