(* ===== verification/FuzzStruct.thy ===== *)
theory FuzzStruct
  imports FuzzType TypeSyntax Resolver
begin

text \<open>
  \<^verbatim>\<open>fuzz/struct_fuzz.go\<close>: from a type that the checker read off a buffer, a Go struct type
  made with \<^verbatim>\<open>reflect.StructOf\<close> whose \<^verbatim>\<open>frugal\<close> tags describe it. The identity that the
  runtime gives to a struct type made from a list of fields is the parameter \<open>sid\<close>.
\<close>

subsection \<open>Tables\<close>

definition RequirednessString :: "Requiredness \<Rightarrow> string" where
  "RequirednessString r =
     (case r of Default \<Rightarrow> ''default'' | Required \<Rightarrow> ''required'' | Optional \<Rightarrow> ''optional'')"

definition PointerMap :: "Requiredness \<Rightarrow> kind \<Rightarrow> bool" where
  "PointerMap r k \<longleftrightarrow>
     (if r = Optional
      then k \<in> set [K_Bool, K_Int8, K_Int16, K_Int32, K_Int64, K_Float64, K_String, K_Struct]
      else k = K_Struct)"

definition BoolType :: rtype where "BoolType = RBasic K_Bool [] ''bool''"
definition ByteType :: rtype where "ByteType = RBasic K_Int8 [] ''int8''"
definition I16Type :: rtype where "I16Type = RBasic K_Int16 [] ''int16''"
definition I32Type :: rtype where "I32Type = RBasic K_Int32 [] ''int32''"
definition I64Type :: rtype where "I64Type = RBasic K_Int64 [] ''int64''"
definition DoubleType :: rtype where "DoubleType = RBasic K_Float64 [] ''float64''"
definition StringType :: rtype where "StringType = RBasic K_String [] ''string''"

subsection \<open>reflect and strconv\<close>

text \<open>
  \<^verbatim>\<open>reflect.MapOf\<close> panics for a key type without \<^verbatim>\<open>==\<close>, \<^verbatim>\<open>reflect.StructOf\<close> for two fields
  of one name. The struct types that get here as keys are behind a pointer.
\<close>

fun hashable :: "rtype \<Rightarrow> bool" where
  "hashable (RSlice n e) = False"
| "hashable (RMap n k v) = False"
| "hashable (RArray n l e) = hashable e"
| "hashable (RBasic k p n) = (k \<noteq> K_Func)"
| "hashable (RPtr e) = True"
| "hashable (RStruct i n) = True"

definition MapOf :: "rtype \<Rightarrow> rtype \<Rightarrow> rtype go" where
  "MapOf k v = (if hashable k then Ok (RMap [] k v) else Panic (ExplicitPanic ''reflect.MapOf: invalid key type''))"

definition StructOf :: "(structField list \<Rightarrow> nat) \<Rightarrow> structField list \<Rightarrow> rtype go" where
  "StructOf sid fs =
     (if distinct (map sf_Name fs) then Ok (RStruct (sid fs) [])
      else Panic (ExplicitPanic ''reflect.StructOf: duplicate field''))"

definition Itoa :: "int \<Rightarrow> string" where
  "Itoa i = (if i < 0 then CHR ''-'' # decimal (nat (- i)) else decimal (nat i))"

subsection \<open>Type specifications\<close>

record TypeSpec =
  ts_Type :: rtype
  ts_TypeTag :: string

definition i64Spec :: TypeSpec where "i64Spec = \<lparr>ts_Type = I64Type, ts_TypeTag = ''i64''\<rparr>"

definition specOr :: "TypeSpec option \<Rightarrow> TypeSpec" where
  "specOr s = (case s of None \<Rightarrow> i64Spec | Some x \<Rightarrow> x)"

definition BuildTypeSpec ::
  "(structField list \<Rightarrow> nat) \<Rightarrow> ttype \<Rightarrow> Requiredness \<Rightarrow> TypeSpec option \<Rightarrow> TypeSpec option \<Rightarrow> TypeSpec go" where
  "BuildTypeSpec sid t requiredness keySpec valSpec =
     (let k = specOr keySpec; v = specOr valSpec
      in gobind
        (if t = tBOOL then Ok (BoolType, ''bool'')
         else if t = tBYTE then Ok (ByteType, ''byte'')
         else if t = tI16 then Ok (I16Type, ''i16'')
         else if t = tI32 then Ok (I32Type, ''i32'')
         else if t = tI64 then Ok (I64Type, ''i64'')
         else if t = tDOUBLE then Ok (DoubleType, ''double'')
         else if t = tSTRING then Ok (StringType, ''string'')
         else if t = tMAP then
           gobind (MapOf (ts_Type k) (ts_Type v)) (\<lambda>typ.
             Ok (typ, ''map<'' @ ts_TypeTag k @ '':'' @ ts_TypeTag v @ ''>''))
         else if t = tSET then Ok (RSlice [] (ts_Type v), ''set<'' @ ts_TypeTag v @ ''>'')
         else if t = tLIST then Ok (RSlice [] (ts_Type v), ''list<'' @ ts_TypeTag v @ ''>'')
         else if t = tSTRUCT then gobind (StructOf sid []) (\<lambda>typ. Ok (typ, ''ANONYMOUS''))
         else Panic (ExplicitPanic (''unreachable code: '' @ decimal (unat t))))
        (\<lambda>(typ, tag).
          Ok \<lparr>ts_Type = (if PointerMap requiredness (rt_Kind typ) then RPtr typ else typ), ts_TypeTag = tag\<rparr>))"

text \<open>The tag in the conventional format, with the key \<^verbatim>\<open>frugal\<close>; \<^verbatim>\<open>StructOf\<close> sets the offset.\<close>

definition BuildStructField :: "16 word \<Rightarrow> Requiredness \<Rightarrow> TypeSpec \<Rightarrow> structField" where
  "BuildStructField fid requiredness ts =
     \<lparr>sf_Name = (if sint fid < 0 then ''field'' @ map (\<lambda>c. if c = CHR ''-'' then CHR ''_'' else c) (Itoa (sint fid))
                 else ''Field'' @ Itoa (sint fid)),
      sf_PkgPath = (if sint fid < 0 then ''anonymous'' else []),
      sf_Type = (if PointerMap requiredness (rt_Kind (ts_Type ts)) then RPtr (ts_Type ts) else ts_Type ts),
      sf_Tag = [(''frugal'', Itoa (sint fid) @ '','' @ RequirednessString requiredness @ '','' @ ts_TypeTag ts)],
      sf_Offset = 0, sf_Anonymous = False\<rparr>"

subsection \<open>GetType\<close>

datatype fuzzErr = UnknownDataType ttype

text \<open>The results of a loop that returns at the first error.\<close>

fun sequence :: "('e, 'a) res list \<Rightarrow> ('e, 'a list) res" where
  "sequence [] = Val []"
| "sequence (r # rs) = rbind r (\<lambda>x. rbind (sequence rs) (\<lambda>xs. Val (x # xs)))"

text \<open>A loop over a map visits the entries in some order, here that of the list.\<close>

fun GetType :: "(structField list \<Rightarrow> nat) \<Rightarrow> ftype option \<Rightarrow> (fuzzErr, TypeSpec) res" where
  "GetType sid None = Pan NilDeref"
| "GetType sid (Some (FType t k v fs)) =
     (if t = tSTRUCT then
        rbind (sequence (map (\<lambda>(n, ty). rbind (GetType sid ty) (\<lambda>s. Val (BuildStructField n Default s))) fs)) (\<lambda>sfs.
        rbind (lift_go (StructOf sid sfs)) (\<lambda>st.
        Val \<lparr>ts_Type = RPtr st, ts_TypeTag = ''ANONYMOUS''\<rparr>))
      else if t = tMAP then
        rbind (if k = None then Val None else rbind (GetType sid k) (\<lambda>s. Val (Some s))) (\<lambda>ks.
        rbind (if v = None then Val None else rbind (GetType sid v) (\<lambda>s. Val (Some s))) (\<lambda>vs.
        lift_go (BuildTypeSpec sid t Default ks vs)))
      else if t = tSET \<or> t = tLIST then
        rbind (if v = None then Val None else rbind (GetType sid v) (\<lambda>s. Val (Some s))) (\<lambda>vs.
        lift_go (BuildTypeSpec sid t Default None vs))
      else if t \<in> set [tBOOL, tBYTE, tI16, tI32, tI64, tDOUBLE, tSTRING] then
        lift_go (BuildTypeSpec sid t Default None None)
      else Err (UnknownDataType t))"

text \<open>The fields of the struct type that \<^verbatim>\<open>GetType\<close> makes for a struct.\<close>

definition structFields :: "(structField list \<Rightarrow> nat) \<Rightarrow> (16 word \<times> ftype option) list \<Rightarrow> (fuzzErr, structField list) res" where
  "structFields sid fs =
     sequence (map (\<lambda>(n, ty). rbind (GetType sid ty) (\<lambda>s. Val (BuildStructField n Default s))) fs)"

definition fuzzDynamicStruct :: "(structField list \<Rightarrow> nat) \<Rightarrow> ftype option \<Rightarrow> (fuzzErr, rtype) res" where
  "fuzzDynamicStruct sid typ =
     rbind (GetType sid typ) (\<lambda>ts.
     lift_go (StructOf sid [BuildStructField 0 Default ts]))"

end
