(* ===== verification/FuzzStructCorrect.thy ===== *)
theory FuzzStructCorrect
  imports FuzzCorrect FuzzStruct ResolverCorrect
begin

text \<open>
  The struct types that the fuzzer makes are ones the resolver accepts: for every type that
  \<^verbatim>\<open>Check\<close> reports (\<open>goodType\<close>), \<^verbatim>\<open>GetType\<close> gives a Go type and a tag that \<^verbatim>\<open>ParseType\<close>
  reads as a descriptor of the same wire type, and the struct fields builds from them resolve.
\<close>

subsection \<open>Text\<close>

lemma splitOn_none: "sep \<notin> set a \<Longrightarrow> splitOn sep a = [a]"
  by (induction a) auto

lemma splitOn_append: "sep \<notin> set a \<Longrightarrow> splitOn sep (a @ sep # b) = a # splitOn sep b"
  by (induction a) auto

lemma parseDigits_append: "parseDigits (a @ b) m = rbind (parseDigits a m) (parseDigits b)"
  by (induction a m rule: parseDigits.induct) (auto simp: Let_def)

lemma of_char_digit: "d < 10 \<Longrightarrow> of_char (char_of (48 + d) :: char) = (48 + d :: nat)"
  by (simp add: of_char_of)

lemma parseDigits_digit: "n \<le> 65535 \<Longrightarrow> parseDigits [char_of (48 + n mod 10)] (n div 10) = Val n"
  using of_char_digit [of "n mod 10"] by (simp add: Let_def)

lemma parseDigits_decimal: "n \<le> 65535 \<Longrightarrow> parseDigits (decimal n) 0 = Val n"
proof (induction n rule: decimal.induct)
  case (1 n)
  then show ?case
    using parseDigits_digit [of n] of_char_digit [of n]
    by (subst decimal.simps) (auto simp: parseDigits_append Let_def)
qed

lemma decimal_nonempty [simp]: "decimal n \<noteq> []"
  by (subst decimal.simps) simp

lemma ParseUint16_decimal: "n \<le> 65535 \<Longrightarrow> ParseUint16 (decimal n) = Val n"
  by (simp add: ParseUint16_def parseDigits_decimal)

lemma decimal_inj: "m \<le> 65535 \<Longrightarrow> n \<le> 65535 \<Longrightarrow> decimal m = decimal n \<Longrightarrow> m = n"
  using parseDigits_decimal by (metis res.inject(1))

lemma set_decimal: "set (decimal n) =
    (if n < 10 then {char_of (48 + n)} else insert (char_of (48 + n mod 10)) (set (decimal (n div 10))))"
  by (subst decimal.simps) simp

lemma decimal_digits: "c \<in> set (decimal n) \<Longrightarrow> 48 \<le> (of_char c :: nat) \<and> (of_char c :: nat) \<le> 57"
proof (induction n rule: decimal.induct)
  case (1 n)
  show ?case
  proof (cases "n < 10")
    case True
    then have "c = char_of (48 + n)" using 1(2) by (simp add: set_decimal [of n])
    then have "of_char c = (48 + n :: nat)" using of_char_digit [of n] True by simp
    then show ?thesis using True by linarith
  next
    case False
    then have "c = char_of (48 + n mod 10) \<or> c \<in> set (decimal (n div 10))"
      using 1(2) by (simp add: set_decimal [of n])
    then show ?thesis
    proof
      assume "c = char_of (48 + n mod 10)"
      then have "of_char c = (48 + n mod 10 :: nat)" using of_char_digit [of "n mod 10"] by simp
      then show ?thesis using mod_less_divisor [of 10 n] by linarith
    next
      assume "c \<in> set (decimal (n div 10))"
      then show ?thesis by (rule 1(1) [OF False])
    qed
  qed
qed

text \<open>Text of a tag that \<^verbatim>\<open>Split\<close> and \<^verbatim>\<open>TrimSpace\<close> keep.\<close>

definition tagText :: "string \<Rightarrow> bool" where
  "tagText w \<longleftrightarrow> (\<forall>c\<in>set w. graphic c \<and> c \<noteq> CHR '','')"

lemma tagText_Trim: "tagText w \<Longrightarrow> TrimSpace w = w"
  by (rule TrimSpace_graphic) (metis tagText_def hd_in_set last_in_set)

lemma tagText_Nil [simp]: "tagText []"
  by (simp add: tagText_def)

lemma tagText_Cons [simp]: "tagText (c # w) \<longleftrightarrow> graphic c \<and> c \<noteq> CHR '','' \<and> tagText w"
  by (simp add: tagText_def)

lemma tagText_append [simp]: "tagText (a @ b) \<longleftrightarrow> tagText a \<and> tagText b"
  by (simp add: tagText_def ball_Un)

lemma tagText_decimal: "tagText (decimal n)"
proof -
  have "graphic c \<and> c \<noteq> CHR '',''" if "c \<in> set (decimal n)" for c
    using decimal_digits [OF that] by (auto simp: graphic_def)
  then show ?thesis by (simp add: tagText_def)
qed

subsection \<open>Type specifications\<close>

lemma isValidType_cases:
  assumes "isValidType t"
  obtains "t \<in> set [tBOOL, tBYTE, tI16, tI32, tI64, tDOUBLE, tSTRING]" | "t = tSTRUCT" | "t = tMAP" |
    "t = tLIST \<or> t = tSET"
proof -
  have "t \<in> set [tBOOL, tBYTE, tI16, tI32, tI64, tDOUBLE, tSTRING, tSTRUCT, tMAP, tLIST, tSET]"
    using assms by (simp add: isValidType_def word_less_nat_alt word_unat_eq_iff) presburger
  then show thesis using that by auto
qed

text \<open>
  \<open>ts\<close> is a Go type and the tag that describes it as \<open>pt\<close>, fit for an element of a container
  and, if the Go type has \<^verbatim>\<open>==\<close>, for a key.
\<close>

definition specOK :: "TypeSpec \<Rightarrow> Type \<Rightarrow> bool" where
  "specOK ts pt \<longleftrightarrow>
     parses (ts_Type ts) (ts_TypeTag ts) pt \<and> tagText (ts_TypeTag ts) \<and>
     rt_Kind (ts_Type ts) \<noteq> K_Struct \<and> ts_Type ts \<noteq> bytetype \<and> Type_IsValueType pt = Ok True \<and>
     (hashable (ts_Type ts) \<longrightarrow> Type_IsKeyType pt = Ok True)"

text \<open>Moreover \<open>t\<close> is the wire type of \<open>pt\<close>.\<close>

definition describes :: "ttype \<Rightarrow> TypeSpec \<Rightarrow> Type \<Rightarrow> bool" where
  "describes t ts pt \<longleftrightarrow>
     specOK ts pt \<and> Type_Tag pt = Ok t \<and>
     (t \<noteq> tLIST \<and> t \<noteq> tSET \<and> t \<noteq> tMAP \<longrightarrow> hashable (ts_Type ts))"

lemma describes_specOK: "describes t ts pt \<Longrightarrow> specOK ts pt"
  by (simp add: describes_def)

definition builds :: "ttype \<Rightarrow> TypeSpec go \<Rightarrow> bool" where
  "builds t r \<longleftrightarrow> (\<exists>ts pt. r = Ok ts \<and> describes t ts pt)"

lemma describes_basic:
  assumes "kindTag (RBasic k p n) = Val t" "isName w" "contains (keywordTab t) w" "tagText w"
    "t \<in> set [tBOOL, tBYTE, tI16, tI32, tI64, tDOUBLE, tSTRING]" "k \<noteq> K_Struct" "k \<noteq> K_Uint8" "k \<noteq> K_Func"
  shows "describes t \<lparr>ts_Type = RBasic k p n, ts_TypeTag = w\<rparr> (Type t None None (RBasic k p n))"
  using parses_keyword [OF assms(1-3) refl] assms(4-8)
  by (auto simp: describes_def specOK_def bytetype_def Type_IsValueType_def Type_IsKeyType_def)

lemma byte_keywords [simp]: "isName ''byte''" "isName ''ANONYMOUS''"
  by (simp_all add: isName_def isident_def isident0_def)

lemmas basic_types = BoolType_def ByteType_def I16Type_def I32Type_def I64Type_def DoubleType_def StringType_def

lemma describes_types:
  "describes tBOOL \<lparr>ts_Type = BoolType, ts_TypeTag = ''bool''\<rparr> (Type tBOOL None None BoolType)"
  "describes tBYTE \<lparr>ts_Type = ByteType, ts_TypeTag = ''byte''\<rparr> (Type tBYTE None None ByteType)"
  "describes tI16 \<lparr>ts_Type = I16Type, ts_TypeTag = ''i16''\<rparr> (Type tI16 None None I16Type)"
  "describes tI32 \<lparr>ts_Type = I32Type, ts_TypeTag = ''i32''\<rparr> (Type tI32 None None I32Type)"
  "describes tI64 \<lparr>ts_Type = I64Type, ts_TypeTag = ''i64''\<rparr> (Type tI64 None None I64Type)"
  "describes tDOUBLE \<lparr>ts_Type = DoubleType, ts_TypeTag = ''double''\<rparr> (Type tDOUBLE None None DoubleType)"
  "describes tSTRING \<lparr>ts_Type = StringType, ts_TypeTag = ''string''\<rparr> (Type tSTRING None None StringType)"
  unfolding basic_types
  by (rule describes_basic; simp add: T_int_def keywordTab_def graphic_def)+

lemma buildsI: "r = Ok ts \<Longrightarrow> describes t ts pt \<Longrightarrow> builds t r"
  by (auto simp: builds_def)

text \<open>The wire types without elements; an optional one is built as a pointer.\<close>

definition asPointer :: "Requiredness \<Rightarrow> TypeSpec \<Rightarrow> TypeSpec" where
  "asPointer r ts = (if r = Optional then ts\<lparr>ts_Type := RPtr (ts_Type ts)\<rparr> else ts)"

lemma BuildTypeSpec_basic:
  "BuildTypeSpec sid tBOOL r k v = Ok (asPointer r \<lparr>ts_Type = BoolType, ts_TypeTag = ''bool''\<rparr>)"
  "BuildTypeSpec sid tBYTE r k v = Ok (asPointer r \<lparr>ts_Type = ByteType, ts_TypeTag = ''byte''\<rparr>)"
  "BuildTypeSpec sid tI16 r k v = Ok (asPointer r \<lparr>ts_Type = I16Type, ts_TypeTag = ''i16''\<rparr>)"
  "BuildTypeSpec sid tI32 r k v = Ok (asPointer r \<lparr>ts_Type = I32Type, ts_TypeTag = ''i32''\<rparr>)"
  "BuildTypeSpec sid tI64 r k v = Ok (asPointer r \<lparr>ts_Type = I64Type, ts_TypeTag = ''i64''\<rparr>)"
  "BuildTypeSpec sid tDOUBLE r k v = Ok (asPointer r \<lparr>ts_Type = DoubleType, ts_TypeTag = ''double''\<rparr>)"
  "BuildTypeSpec sid tSTRING r k v = Ok (asPointer r \<lparr>ts_Type = StringType, ts_TypeTag = ''string''\<rparr>)"
  by (simp_all add: BuildTypeSpec_def Let_def PointerMap_def basic_types asPointer_def)

definition buildsBasic :: "Requiredness \<Rightarrow> ttype \<Rightarrow> TypeSpec go \<Rightarrow> bool" where
  "buildsBasic r t X \<longleftrightarrow>
     (\<exists>ts pt. describes t ts pt \<and> rt_Kind (ts_Type ts) \<noteq> K_Ptr \<and> X = Ok (asPointer r ts))"

lemma buildsBasicI:
  "describes t ts pt \<Longrightarrow> rt_Kind (ts_Type ts) \<noteq> K_Ptr \<Longrightarrow> X = Ok (asPointer r ts) \<Longrightarrow> buildsBasic r t X"
  unfolding buildsBasic_def by blast

lemma builds_basics:
  "buildsBasic r tBOOL (BuildTypeSpec sid tBOOL r k v)" "buildsBasic r tBYTE (BuildTypeSpec sid tBYTE r k v)"
  "buildsBasic r tI16 (BuildTypeSpec sid tI16 r k v)" "buildsBasic r tI32 (BuildTypeSpec sid tI32 r k v)"
  "buildsBasic r tI64 (BuildTypeSpec sid tI64 r k v)" "buildsBasic r tDOUBLE (BuildTypeSpec sid tDOUBLE r k v)"
  "buildsBasic r tSTRING (BuildTypeSpec sid tSTRING r k v)"
  by (rule buildsBasicI, rule describes_types, simp add: basic_types, rule BuildTypeSpec_basic)+

lemma build_basic_any:
  assumes "t \<in> set [tBOOL, tBYTE, tI16, tI32, tI64, tDOUBLE, tSTRING]"
  shows "buildsBasic r t (BuildTypeSpec sid t r k v)"
  using assms by (simp only: list.set insert_iff empty_iff) (elim disjE FalseE; simp only: builds_basics)

lemma build_basic:
  assumes "t \<in> set [tBOOL, tBYTE, tI16, tI32, tI64, tDOUBLE, tSTRING]"
  shows "builds t (BuildTypeSpec sid t Default k v)"
  using build_basic_any [OF assms, of Default sid k v] by (auto simp: builds_def buildsBasic_def asPointer_def)

lemma build_elems:
  assumes t: "t = tLIST \<or> t = tSET" and d: "specOK (specOr v) V"
  shows "builds t (BuildTypeSpec sid t r k v)"
proof -
  define kw where "kw = (if t = T_set then ''set'' else ''list'')"
  let ?ts = "\<lparr>ts_Type = RSlice [] (ts_Type (specOr v)), ts_TypeTag = kw @ CHR ''<'' # ts_TypeTag (specOr v) @ ''>''\<rparr>"
  have "BuildTypeSpec sid t r k v = Ok ?ts"
    using t by (elim disjE) (simp_all add: BuildTypeSpec_def Let_def kw_def PointerMap_def)
  moreover have "describes t ?ts (Type t None (Some V) (RSlice [] (ts_Type (specOr v))))"
    unfolding describes_def specOK_def TypeSpec.select_convs
  proof (intro conjI impI)
    show "parses (RSlice [] (ts_Type (specOr v))) (kw @ CHR ''<'' # ts_TypeTag (specOr v) @ ''>'')
        (Type t None (Some V) (RSlice [] (ts_Type (specOr v))))"
      using d t by (intro parses_slice) (auto simp: specOK_def kw_def)
    show "tagText (kw @ CHR ''<'' # ts_TypeTag (specOr v) @ ''>'')"
      using d by (simp add: specOK_def kw_def graphic_def)
  qed (use t in \<open>auto simp: bytetype_def Type_IsValueType_def\<close>)
  ultimately show ?thesis by (rule buildsI)
qed

lemma build_map:
  assumes "specOK (specOr k) K" "specOK (specOr v) V"
  shows "if hashable (ts_Type (specOr k)) then builds tMAP (BuildTypeSpec sid tMAP r k v)
    else \<exists>p. BuildTypeSpec sid tMAP r k v = Panic p"
proof (cases "hashable (ts_Type (specOr k))")
  case False
  then show ?thesis by (simp add: BuildTypeSpec_def Let_def MapOf_def)
next
  case True
  let ?rt = "RMap [] (ts_Type (specOr k)) (ts_Type (specOr v))"
  let ?tag = "''map'' @ CHR ''<'' # ts_TypeTag (specOr k) @ CHR '':'' # ts_TypeTag (specOr v) @ ''>''"
  have "BuildTypeSpec sid tMAP r k v = Ok \<lparr>ts_Type = ?rt, ts_TypeTag = ?tag\<rparr>"
    using True by (simp add: BuildTypeSpec_def Let_def MapOf_def PointerMap_def)
  moreover have "describes tMAP \<lparr>ts_Type = ?rt, ts_TypeTag = ?tag\<rparr> (Type T_map (Some K) (Some V) ?rt)"
    unfolding describes_def specOK_def TypeSpec.select_convs
  proof (intro conjI impI)
    show "parses ?rt ?tag (Type T_map (Some K) (Some V) ?rt)"
      using assms True by (intro parses_map) (simp_all add: specOK_def)
    show "tagText ?tag" using assms by (simp add: specOK_def graphic_def)
  qed (auto simp: bytetype_def Type_IsValueType_def)
  ultimately show ?thesis using buildsI True by auto
qed

lemma doMatchStruct_anonymous:
  assumes "textAt def i rest" "delimited rest"
  shows "doMatchStruct (RStruct j []) def i tv = Val (True, tv, i)"
proof (cases rest)
  case Nil
  then show ?thesis using readToken_end assms by (simp add: doMatchStruct_def)
next
  case (Cons c cs)
  then have "c = CHR '':'' \<or> c = CHR ''>''" using assms(2) by (auto simp: delimited_def)
  with readToken_punct [of def i c cs] assms Cons show ?thesis by (auto simp: doMatchStruct_def)
qed

lemma parses_anonymous: "parses (RStruct j []) ''ANONYMOUS'' (Type T_struct None None (RStruct j []))"
proof (rule parsesI)
  fix def i rest ap
  assume a: "textAt def i (''ANONYMOUS'' @ rest)" "delimited rest"
  have "readToken def i False = Val (''ANONYMOUS'', i + length ''ANONYMOUS'')"
    by (rule readToken_identifier [OF a(1) _ delimited_not_ident [OF a(2)]]) simp
  moreover have "doMatchStruct (RStruct j []) def (i + length ''ANONYMOUS'') ''ANONYMOUS'' =
      Val (True, ''ANONYMOUS'', i + length ''ANONYMOUS'')"
    by (rule doMatchStruct_anonymous [OF textAt_append [OF a(1)] a(2)])
  moreover have "def \<noteq> []" using a(1) by (auto simp: textAt_def)
  ultimately show "doParseType (RStruct j []) def i ap =
      Val (Type T_struct None None (RStruct j []), i + length ''ANONYMOUS'')"
    by (simp add: matchTag_def keywordTab_def isident0_def)
qed

lemma describes_struct:
  "describes tSTRUCT \<lparr>ts_Type = RPtr (RStruct j []), ts_TypeTag = ''ANONYMOUS''\<rparr>
    (Type T_pointer None (Some (Type T_struct None None (RStruct j []))) (RPtr (RStruct j [])))"
  using parses_pointer [OF parses_anonymous, of j]
  by (simp add: describes_def specOK_def graphic_def bytetype_def Type_IsValueType_def Type_IsKeyType_def ty_deref_def)

subsection \<open>GetType\<close>

text \<open>The names of the fields tell their ids apart.\<close>

lemma sint16_bounds: "- 32768 \<le> sint (i :: 16 word) \<and> sint i < 32768"
  using sint_ge [of i] sint_lt [of i] by simp

lemma decimal_no_minus: "map (\<lambda>c. if c = CHR ''-'' then CHR ''_'' else c) (decimal n) = decimal n"
proof (rule map_idI)
  fix c assume "c \<in> set (decimal n)"
  from decimal_digits [OF this] have "c \<noteq> CHR ''-''" by auto
  then show "(if c = CHR ''-'' then CHR ''_'' else c) = c" by simp
qed

lemma decimal_nat_inj: "decimal (nat a) = decimal (nat b) \<Longrightarrow> 0 \<le> a \<Longrightarrow> 0 \<le> b \<Longrightarrow> a \<le> 32768 \<Longrightarrow> b \<le> 32768 \<Longrightarrow> a = b"
  using decimal_inj [of "nat a" "nat b"] by (simp add: nat_le_iff eq_nat_nat_iff)

lemma field_name:
  "sf_Name (BuildStructField i r s) =
   (if sint i < 0 then ''field_'' @ decimal (nat (- sint i)) else ''Field'' @ decimal (nat (sint i)))"
  by (simp add: BuildStructField_def Itoa_def decimal_no_minus)

lemma name_inj:
  assumes eq: "sf_Name (BuildStructField i r s) = sf_Name (BuildStructField j r' s')"
  shows "i = j"
proof -
  note b = sint16_bounds [of i] sint16_bounds [of j]
  have "sint i = sint j"
  proof (cases "sint i < 0"; cases "sint j < 0")
    assume "sint i < 0" "sint j < 0"
    then show ?thesis using eq b decimal_nat_inj [of "- sint i" "- sint j"] by (simp add: field_name)
  next
    assume "\<not> sint i < 0" "\<not> sint j < 0"
    then show ?thesis using eq b decimal_nat_inj [of "sint i" "sint j"] by (simp add: field_name)
  qed (use eq in \<open>simp_all add: field_name\<close>)
  then show ?thesis by (simp add: signed_word_eqI)
qed

text \<open>The specification that \<^verbatim>\<open>GetType\<close> gives for each field.\<close>

definition fieldSpec :: "(structField list \<Rightarrow> nat) \<Rightarrow> ftype option \<Rightarrow> TypeSpec" where
  "fieldSpec sid ty = (case GetType sid ty of Val s \<Rightarrow> s | _ \<Rightarrow> i64Spec)"

definition gives :: "(structField list \<Rightarrow> nat) \<Rightarrow> ttype \<Rightarrow> ftype option \<Rightarrow> bool" where
  "gives sid t ty \<longleftrightarrow> (\<exists>ts pt. GetType sid ty = Val ts \<and> describes t ts pt)"

lemma sequence_map: "(\<And>x. x \<in> set xs \<Longrightarrow> f x = Val (g x)) \<Longrightarrow> sequence (map f xs) = Val (map g xs)"
  by (induction xs) simp_all

lemma sequence_length: "sequence rs = Val xs \<Longrightarrow> length xs = length rs"
  by (induction rs arbitrary: xs) (auto simp: res_iff)

lemma structFields_length: "structFields sid fs = Val sfs \<Longrightarrow> length sfs = length fs"
  unfolding structFields_def by (drule sequence_length) simp

lemma structFields_gives:
  assumes "list_all (\<lambda>(n, ty). \<exists>t. gives sid t ty) fs"
  shows "structFields sid fs = Val (map (\<lambda>(n, ty). BuildStructField n Default (fieldSpec sid ty)) fs)"
  unfolding structFields_def
proof (rule sequence_map)
  fix x assume "x \<in> set fs"
  moreover obtain n ty where x: "x = (n, ty)" by (cases x)
  ultimately obtain ts where "GetType sid ty = Val ts" using assms by (auto simp: list_all_iff gives_def)
  then show "(case x of (n, ty) \<Rightarrow> rbind (GetType sid ty) (\<lambda>s. Val (BuildStructField n Default s))) =
      Val (case x of (n, ty) \<Rightarrow> BuildStructField n Default (fieldSpec sid ty))"
    by (simp add: x fieldSpec_def)
qed

lemma names_distinct:
  "distinct (map fst fs) \<Longrightarrow> distinct (map sf_Name (map (\<lambda>(n, ty). BuildStructField n r (h ty)) fs))"
proof (induction fs)
  case (Cons x fs)
  have "sf_Name (BuildStructField (fst x) r (h (snd x))) \<noteq> sf_Name (BuildStructField n r (h ty))"
    if "(n, ty) \<in> set fs" for n ty
  proof
    assume "sf_Name (BuildStructField (fst x) r (h (snd x))) = sf_Name (BuildStructField n r (h ty))"
    then have "fst x = n" by (rule name_inj)
    moreover have "n \<in> fst ` set fs" using that by (metis fst_conv image_eqI)
    ultimately show False using Cons.prems by simp
  qed
  with Cons show ?case by (cases x) force
qed simp

lemma specOr_None: "specOK (specOr None) (Type tI64 None None I64Type)"
  using describes_specOK [OF describes_types(5)] by (simp add: specOr_def i64Spec_def)

lemma specOr_hashable: "hashable (ts_Type (specOr None))"
  by (simp add: specOr_def i64Spec_def I64Type_def)

lemma fieldSpec_describes: "gives sid t ty \<Longrightarrow> \<exists>pt. describes t (fieldSpec sid ty) pt"
  by (auto simp: gives_def fieldSpec_def)

lemma gives_leaf:
  assumes "isValidType t"
  shows "gives sid t (Some (FType t None None []))"
  using assms
proof (cases rule: isValidType_cases)
  case 1
  from build_basic [OF 1, of sid None None] obtain ts pt where
    b: "BuildTypeSpec sid t Default None None = Ok ts" "describes t ts pt" by (auto simp: builds_def)
  have "GetType sid (Some (FType t None None [])) = lift_go (BuildTypeSpec sid t Default None None)"
    using 1 by auto
  with b show ?thesis by (auto simp: gives_def)
next
  case 2
  then show ?thesis using describes_struct by (auto simp: gives_def StructOf_def)
next
  case 3
  then show ?thesis
    using build_map [OF specOr_None specOr_None, of sid Default] specOr_hashable
    by (auto simp: gives_def builds_def)
next
  case 4
  then show ?thesis
    using build_elems [OF _ specOr_None, of t sid Default None]
    by (auto simp: gives_def builds_def)
qed

lemma gives_good: "goodType t ty \<Longrightarrow> gives sid t ty"
proof (induction rule: goodType.induct)
  case (leaf t)
  then show ?case by (rule gives_leaf)
next
  case (fields fs)
  have "list_all (\<lambda>(n, ty). \<exists>t. gives sid t ty) fs" using fields(2) by (auto simp: list_all_iff)
  from structFields_gives [OF this] names_distinct [OF fields(1)]
  show ?case unfolding gives_def
    using describes_struct by (auto simp: structFields_def StructOf_def)
next
  case (elems t et e)
  then obtain ts pt where "GetType sid e = Val ts" "describes et ts pt" by (auto simp: gives_def)
  moreover have "e \<noteq> None" using elems(2) goodType_tag by auto
  ultimately show ?case
    using elems(1) build_elems [of t "Some ts" pt sid Default None] by (auto simp: gives_def builds_def specOr_def describes_specOK)
next
  case (pairs kt k vt v)
  then obtain ks kp vs vp where "GetType sid k = Val ks" "describes kt ks kp" "GetType sid v = Val vs" "describes vt vs vp"
    by (auto simp: gives_def)
  moreover have "k \<noteq> None" "v \<noteq> None" using pairs goodType_tag by auto
  ultimately show ?case
    using pairs(1-3) build_map [of "Some ks" kp "Some vs" vp sid Default]
    by (auto simp: gives_def builds_def specOr_def describes_def)
qed

subsection \<open>The resolver\<close>

text \<open>
  How a field of requiredness \<open>r\<close> is read back: the descriptor of its Go type, a pointer only
  where that is allowed.
\<close>

definition readsAs :: "Requiredness \<Rightarrow> TypeSpec \<Rightarrow> Type \<Rightarrow> bool" where
  "readsAs r ts pt \<longleftrightarrow>
     parses (if PointerMap r (rt_Kind (ts_Type ts)) then RPtr (ts_Type ts) else ts_Type ts) (ts_TypeTag ts) pt \<and>
     tagText (ts_TypeTag ts) \<and> (r \<noteq> Optional \<longrightarrow> Type_IsValueType pt = Ok True)"

lemma readsAs_spec: "specOK ts pt \<Longrightarrow> r \<noteq> Optional \<Longrightarrow> readsAs r ts pt"
  by (simp add: readsAs_def specOK_def PointerMap_def)

lemma readsAs_any:
  assumes "specOK ts pt"
  shows "\<exists>pt'. readsAs r ts pt'"
proof (cases "r = Optional \<and> PointerMap r (rt_Kind (ts_Type ts))")
  case True
  then have "rt_Kind (ts_Type ts) \<noteq> K_Ptr" by (auto simp: PointerMap_def)
  with True assms parses_pointer show ?thesis by (auto simp: readsAs_def specOK_def)
next
  case False
  show ?thesis
  proof (cases "r = Optional")
    case True
    with False assms show ?thesis by (auto simp: readsAs_def specOK_def)
  next
    case False
    with readsAs_spec [OF assms] show ?thesis by blast
  qed
qed

lemma readsAs_pointer:
  assumes "specOK ts pt" "rt_Kind (ts_Type ts) \<noteq> K_Ptr"
  shows "\<exists>pt'. readsAs r (asPointer r ts) pt'"
proof (cases "r = Optional")
  case True
  with assms parses_pointer show ?thesis by (auto simp: readsAs_def specOK_def asPointer_def PointerMap_def)
next
  case False
  with readsAs_any [OF assms(1)] show ?thesis by (simp add: asPointer_def)
qed

text \<open>One field, with the offset that \<^verbatim>\<open>StructOf\<close> gave it.\<close>

definition atOffset :: "structField \<Rightarrow> nat \<Rightarrow> structField" where
  "atOffset f off = f\<lparr>sf_Offset := off\<rparr>"

lemma resolve_negative: "sint n < 0 \<Longrightarrow> resolveField mem ids (atOffset (BuildStructField n r ts) off) = Val None"
  by (simp add: resolveField_def atOffset_def BuildStructField_def)

lemma nonneg16: "0 \<le> sint (n :: 16 word) \<Longrightarrow> nat (sint n) = unat n \<and> unat n \<le> 65535"
proof -
  assume n: "0 \<le> sint n"
  have "take_bit 16 (sint n) = sint n" using n sint16_bounds [of n] by (intro take_bit_int_eq_self) simp_all
  then have "uint n = sint n" using uint_sint [of n] by simp
  then have "unat n = nat (sint n)" by (metis nat_uint_eq)
  then show ?thesis using sint16_bounds [of n] by (simp add: nat_le_iff)
qed

lemma value_pointer:
  assumes "Type_IsValueType pt = Ok True" "ty_T pt = T_pointer"
  shows "\<exists>v. ty_V pt = Some v \<and> ty_T v = T_struct"
  using assms by (auto simp: Type_IsValueType_def ty_deref_def split: option.splits)

lemma tagText_Requiredness: "tagText (RequirednessString r)"
  by (cases r) (simp_all add: RequirednessString_def graphic_def)

lemma built_tag:
  assumes "0 \<le> sint n" "tagText (ts_TypeTag ts)"
  shows "lookupStructTag (sf_Tag (BuildStructField n r ts)) =
    Some [decimal (unat n), RequirednessString r, ts_TypeTag ts]"
proof -
  have n: "Itoa (sint n) = decimal (unat n)" using nonneg16 [OF assms(1)] assms(1) by (simp add: Itoa_def)
  have c: "CHR '','' \<notin> set w" if "tagText w" for w using that by (auto simp: tagText_def)
  note d = tagText_Requiredness [of r]
  have "splitOn CHR '','' (decimal (unat n) @ CHR '','' # RequirednessString r @ CHR '','' # ts_TypeTag ts) =
      [decimal (unat n), RequirednessString r, ts_TypeTag ts]"
    unfolding splitOn_append [OF c [OF tagText_decimal]] splitOn_append [OF c [OF d]] splitOn_none [OF c [OF assms(2)]] ..
  then show ?thesis
    using tagText_Trim [OF tagText_decimal] tagText_Trim [OF d] tagText_Trim [OF assms(2)]
    by (simp add: lookupStructTag_def BuildStructField_def n trimSpaces_def)
qed

definition resolvedField :: "16 word \<Rightarrow> Requiredness \<Rightarrow> Type \<Rightarrow> nat \<Rightarrow> Field" where
  "resolvedField n r pt off = \<lparr>F_off = off, F_ID = n, F_Type = pt, F_NoCopy = False, F_Spec = r, F_Default = None\<rparr>"

lemma resolve_built:
  assumes "0 \<le> sint n" "readsAs r ts pt" "unat n \<notin> ids"
  shows "resolveField None ids (atOffset (BuildStructField n r ts) off) =
    Val (Some (unat n, resolvedField n r pt off))"
proof -
  let ?sf = "atOffset (BuildStructField n r ts) off"
  let ?ty = "if PointerMap r (rt_Kind (ts_Type ts)) then RPtr (ts_Type ts) else ts_Type ts"
  have sel: "sf_Anonymous ?sf = False" "sf_PkgPath ?sf = []" "sf_Type ?sf = ?ty" "sf_Offset ?sf = off"
    "sf_Tag ?sf = sf_Tag (BuildStructField n r ts)"
    using assms(1) by (simp_all add: atOffset_def BuildStructField_def)
  have tag: "lookupStructTag (sf_Tag (BuildStructField n r ts)) =
      Some [decimal (unat n), RequirednessString r, ts_TypeTag ts]"
    by (rule built_tag) (use assms in \<open>simp_all add: readsAs_def\<close>)
  have id: "ParseUint16 (decimal (unat n)) = Val (unat n)"
    using nonneg16 [OF assms(1)] by (intro ParseUint16_decimal) simp
  have req: "parseRequiredness nm (RequirednessString r) = Val r" for nm
    by (cases r) (simp_all add: parseRequiredness_def RequirednessString_def)
  have ty: "ParseType ?ty (ts_TypeTag ts) = Val pt"
    using assms(2) unfolding readsAs_def by (intro parses_ParseType) blast
  have ptr: "(if r \<noteq> Optional \<and> ty_T pt = T_pointer then rbind (lift_go (ty_deref (ty_V pt))) (\<lambda>v. Val (ty_T v \<noteq> T_struct))
      else Val False) = (Val False :: (rerr, bool) res)"
    using assms(2) value_pointer [of pt] by (auto simp: readsAs_def ty_deref_def)
  show ?thesis
    using assms(3) ptr
    by (simp add: resolveField_def tag sel id req ty nextValue_def resolvedField_def del: if_split)
qed

text \<open>
  All fields of a struct: those with a negative id are not exported and left out. \<open>P\<close> is what
  is known of the descriptors.
\<close>

type_synonym fieldSpecs = "(16 word \<times> Requiredness \<times> TypeSpec) list"

definition builtFields :: "fieldSpecs \<Rightarrow> structField list" where
  "builtFields xs = map (\<lambda>(n, r, ts). BuildStructField n r ts) xs"

lemma resolveLoop_built:
  assumes "\<And>n r ts. (n, r, ts) \<in> set xs \<Longrightarrow> \<exists>pt. readsAs r ts pt \<and> P n pt"
  shows "length offs = length xs \<Longrightarrow> distinct (map fst xs) \<Longrightarrow> (\<forall>x\<in>set xs. unat (fst x) \<notin> ids) \<Longrightarrow>
    \<exists>ff. resolveLoop None (map2 atOffset (builtFields xs) offs) ids ret = Val (ret @ ff) \<and>
      F_ID ` set ff = {n \<in> fst ` set xs. 0 \<le> sint n} \<and> (\<forall>f\<in>set ff. P (F_ID f) (F_Type f))"
  using assms
proof (induction xs arbitrary: offs ids ret)
  case Nil
  then show ?case by (simp add: builtFields_def)
next
  case (Cons x xs)
  then obtain off offs' where o: "offs = off # offs'" "length offs' = length xs" by (cases offs) auto
  obtain n r ts where x: "x = (n, r, ts)" by (metis prod_cases3)
  from Cons.prems(4) [of n r ts] x obtain pt where pt: "readsAs r ts pt" "P n pt" by auto
  have d: "distinct (map fst xs)" using Cons.prems(2) by simp
  have all: "\<exists>pt. readsAs r ts pt \<and> P n pt" if "(n, r, ts) \<in> set xs" for n r ts
    using Cons.prems(4) that by simp
  have cons: "map2 atOffset (builtFields (x # xs)) offs =
      atOffset (BuildStructField n r ts) off # map2 atOffset (builtFields xs) offs'"
    by (simp add: builtFields_def o(1) x)
  show ?case
  proof (cases "sint n < 0")
    case True
    from Cons.IH [OF o(2) d _ all, of ids ret] Cons.prems(3) obtain ff where
      ff: "resolveLoop None (map2 atOffset (builtFields xs) offs') ids ret = Val (ret @ ff)"
        "F_ID ` set ff = {n \<in> fst ` set xs. 0 \<le> sint n}" "\<forall>f\<in>set ff. P (F_ID f) (F_Type f)" by auto
    have "{m \<in> fst ` set (x # xs). 0 \<le> sint m} = {m \<in> fst ` set xs. 0 \<le> sint m}" using True x by auto
    with ff True show ?thesis unfolding cons by (intro exI [of _ ff]) (simp add: resolve_negative)
  next
    case False
    have ids: "\<forall>y\<in>set xs. unat (fst y) \<notin> insert (unat n) ids"
      using Cons.prems(2,3) x by (auto simp: image_iff simp flip: word_unat_eq_iff)
    let ?f = "resolvedField n r pt off"
    from Cons.IH [OF o(2) d ids all, of "ret @ [?f]"] obtain ff where
      ff: "resolveLoop None (map2 atOffset (builtFields xs) offs') (insert (unat n) ids) (ret @ [?f]) = Val ((ret @ [?f]) @ ff)"
        "F_ID ` set ff = {n \<in> fst ` set xs. 0 \<le> sint n}" "\<forall>f\<in>set ff. P (F_ID f) (F_Type f)" by blast
    have "resolveField None ids (atOffset (BuildStructField n r ts) off) = Val (Some (unat n, ?f))"
      using resolve_built [OF _ pt(1)] False Cons.prems(3) x by simp
    moreover have "{m \<in> fst ` set (x # xs). 0 \<le> sint m} = insert n {m \<in> fst ` set xs. 0 \<le> sint m}"
      using False x by auto
    moreover have "F_ID ?f = n" "F_Type ?f = pt" by (simp_all add: resolvedField_def)
    ultimately show ?thesis using ff pt(2) unfolding cons by (intro exI [of _ "?f # ff"]) simp
  qed
qed

lemma built_resolve:
  assumes "\<And>n r ts. (n, r, ts) \<in> set xs \<Longrightarrow> \<exists>pt. readsAs r ts pt \<and> P n pt"
    "distinct (map fst xs)" "gs_init g = None" "length offs = length xs"
  shows "\<exists>ff. DoResolveFields g (map2 atOffset (builtFields xs) offs) = Val ff \<and>
      F_ID ` set ff = {n \<in> fst ` set xs. 0 \<le> sint n} \<and> (\<forall>f\<in>set ff. P (F_ID f) (F_Type f))"
  using resolveLoop_built [where ids = "{}" and ret = "[]", OF assms(1,4,2)] assms(3)
  by (fastforce simp: DoResolveFields_def)

subsection \<open>The struct of an accepted input\<close>

definition goodField :: "(16 word \<times> ftype option) list \<Rightarrow> 16 word \<Rightarrow> Type \<Rightarrow> bool" where
  "goodField fs n pt \<longleftrightarrow> (\<exists>T. (n, Some T) \<in> set fs \<and> Type_Tag pt = Ok (f_TypeID T))"

lemma goodType_resolves:
  assumes "goodType tSTRUCT (Some (FType tSTRUCT k v fs))" "gs_init g = None"
  shows "\<exists>sfs. structFields sid fs = Val sfs \<and>
    GetType sid (Some (FType tSTRUCT k v fs)) = Val \<lparr>ts_Type = RPtr (RStruct (sid sfs) []), ts_TypeTag = ''ANONYMOUS''\<rparr> \<and>
    (\<forall>offs. length offs = length sfs \<longrightarrow>
      (\<exists>ff. DoResolveFields g (map2 atOffset sfs offs) = Val ff \<and>
         F_ID ` set ff = {n \<in> fst ` set fs. 0 \<le> sint n} \<and>
         (\<forall>f\<in>set ff. goodField fs (F_ID f) (F_Type f))))"
proof -
  have fs: "distinct (map fst fs)" "list_all (\<lambda>(n, ty). \<exists>t. goodType t ty) fs"
    using assms(1) by (cases rule: goodType.cases; auto)+
  then have gv: "list_all (\<lambda>(n, ty). \<exists>t. gives sid t ty) fs"
    using gives_good by (fastforce simp: list_all_iff)
  define xs where "xs = map (\<lambda>(n, ty). (n, Default, fieldSpec sid ty)) fs"
  have sfs: "structFields sid fs = Val (builtFields xs)"
    using structFields_gives [OF gv] by (simp add: xs_def builtFields_def case_prod_beta comp_def)
  have ids: "map fst xs = map fst fs" by (simp add: xs_def case_prod_beta comp_def)
  have reads: "\<exists>pt. readsAs r ts pt \<and> goodField fs n pt" if x: "(n, r, ts) \<in> set xs" for n r ts
  proof -
    from x obtain ty where ty: "(n, ty) \<in> set fs" "r = Default" "ts = fieldSpec sid ty" by (auto simp: xs_def)
    then obtain t where t: "goodType t ty" using fs(2) by (auto simp: list_all_iff)
    from fieldSpec_describes [OF gives_good [OF t]] obtain pt where "describes t ts pt" using ty(3) by blast
    with t goodType_tag [OF t] ty readsAs_spec [of ts pt r] show ?thesis
      by (auto simp: describes_def goodField_def)
  qed
  have "distinct (map sf_Name (builtFields xs))"
    using names_distinct [OF fs(1), of Default "fieldSpec sid"] by (simp add: xs_def builtFields_def case_prod_beta comp_def)
  then have "GetType sid (Some (FType tSTRUCT k v fs)) =
      Val \<lparr>ts_Type = RPtr (RStruct (sid (builtFields xs)) []), ts_TypeTag = ''ANONYMOUS''\<rparr>"
    using sfs by (simp add: structFields_def StructOf_def)
  moreover have "fst ` set xs = fst ` set fs" using ids by (metis set_map)
  ultimately show ?thesis
    using sfs built_resolve [of xs "goodField fs", OF reads _ assms(2)] fs(1) ids
    by (auto simp: builtFields_def)
qed

end
