(* ===== verification/FuzzStructProps.thy ===== *)
theory FuzzStructProps
  imports FuzzStructCorrect FuzzProps
begin

text \<open>
  The property of the fuzzer's struct types, from the bytes of the fuzzer's input to the fields
  that the resolver of \<^verbatim>\<open>internal/defs\<close> gets.
\<close>

text \<open>
  C37. From fuzz input to fields. For a buffer that \<^verbatim>\<open>Check\<close> accepts as a struct, \<^verbatim>\<open>GetType\<close>
  makes a Go struct type without an error or a panic, whatever the identity and the offsets
  the runtime gives to it, and the resolver accepts its fields: it returns those with an id
  that is not negative, each with a descriptor of the wire type read from the buffer.
\<close>

theorem fuzz_struct_resolves:
  assumes "bproto_ok bp" "Check bp n buf tSTRUCT = Some (Some T, l, None)" "gs_init g = None"
  shows "\<exists>sfs. structFields sid (f_Fields T) = Val sfs \<and>
    GetType sid (Some T) = Val \<lparr>ts_Type = RPtr (RStruct (sid sfs) []), ts_TypeTag = ''ANONYMOUS''\<rparr> \<and>
    (\<forall>offs. length offs = length sfs \<longrightarrow>
      (\<exists>ff. DoResolveFields g (map2 atOffset sfs offs) = Val ff \<and>
         F_ID ` set ff = {i \<in> fst ` set (f_Fields T). 0 \<le> sint i} \<and>
         (\<forall>f\<in>set ff. goodField (f_Fields T) (F_ID f) (F_Type f))))"
proof -
  have g: "goodType tSTRUCT (Some T)" using soundD [OF Check_sound [OF assms(1)] assms(2)] by blast
  then have "T = FType tSTRUCT (f_KeyType T) (f_ValType T) (f_Fields T)"
    using goodType_tag by (cases T) fastforce
  with goodType_resolves [of "f_KeyType T" "f_ValType T" "f_Fields T" g sid] g assms(3) show ?thesis by simp
qed

abbreviation ex_fields :: "(16 word \<times> ftype option) list" where
  "ex_fields \<equiv> [(1, Some (FType tI32 None None [])), (2, Some (FType tLIST None (Some (FType tBOOL None None [])) []))]"

theorem fuzz_struct_resolves_witness:
  "\<exists>sfs ff. structFields (\<lambda>fs. 7) ex_fields = Val sfs \<and>
     DoResolveFields (ex_g\<lparr>gs_init := None\<rparr>) (map2 atOffset sfs [0, 8]) = Val ff \<and> F_ID ` set ff = {1, 2}"
proof -
  have ids: "{i \<in> fst ` set ex_fields. 0 \<le> sint i} = {1, 2}"
  proof -
    have "fst ` set ex_fields = {1, 2}" by simp
    moreover have "0 \<le> sint (1 :: 16 word)" "0 \<le> sint (2 :: 16 word)" by simp_all
    ultimately show ?thesis by blast
  qed
  have g: "gs_init (ex_g\<lparr>gs_init := None\<rparr>) = None" by simp
  obtain sfs where sfs: "structFields (\<lambda>fs. 7) ex_fields = Val sfs"
    and ff: "\<forall>offs. length offs = length sfs \<longrightarrow>
      (\<exists>ff. DoResolveFields (ex_g\<lparr>gs_init := None\<rparr>) (map2 atOffset sfs offs) = Val ff \<and>
        F_ID ` set ff = {i \<in> fst ` set ex_fields. 0 \<le> sint i} \<and> (\<forall>f\<in>set ff. goodField ex_fields (F_ID f) (F_Type f)))"
    using fuzz_struct_resolves [OF ex_bp_ok ex_check g, of "\<lambda>fs. 7", unfolded ftype.sel] by (elim exE conjE)
  have "length [0, 8 :: nat] = length sfs" using structFields_length [OF sfs] by simp
  from ff [rule_format, OF this] sfs show ?thesis unfolding ids by blast
qed

end
