(* ===== verification/FuzzBuilder.thy ===== *)
theory FuzzBuilder
  imports FuzzStruct
begin

text \<open>
  \<^verbatim>\<open>fuzz/builder/dynamic_struct.go\<close>: Go struct types from the syntax tree of a Thrift IDL file.
  The tree is \<^verbatim>\<open>thriftgo\<close>'s; what the builder reads of it is the parameter \<open>ast\<close>, over the
  types of its files, types and struct-likes. Fuel bounds the depth of the recursion, which
  a cycle of typedefs makes endless.
\<close>

subsection \<open>The syntax tree\<close>

datatype Category =
    Category_Bool | Category_Byte | Category_I16 | Category_I32 | Category_I64 | Category_Double
  | Category_String | Category_Binary | Category_Enum | Category_Struct | Category_Exception
  | Category_Union | Category_Map | Category_Set | Category_List | Category_Typedef
  | Category_Other

record ('tree, 'ty, 'sl) ast =
  a_Category :: "'ty \<Rightarrow> Category"
  a_KeyType :: "'ty \<Rightarrow> 'ty"
  a_ValueType :: "'ty \<Rightarrow> 'ty"
  a_Name :: "'ty \<Rightarrow> string"
  a_Reference :: "'ty \<Rightarrow> (string \<times> nat) option" \<comment> \<open>\<^verbatim>\<open>Reference.Name\<close> and \<^verbatim>\<open>.Index\<close>\<close>
  a_Includes :: "'tree \<Rightarrow> 'tree list" \<comment> \<open>the files that the includes refer to\<close>
  a_GetStruct :: "'tree \<Rightarrow> string \<Rightarrow> 'sl option"
  a_GetTypedef :: "'tree \<Rightarrow> string \<Rightarrow> 'ty option" \<comment> \<open>the typedef's \<^verbatim>\<open>Type\<close>\<close>
  a_Fields :: "'sl \<Rightarrow> (32 word \<times> Requiredness \<times> 'ty) list" \<comment> \<open>\<^verbatim>\<open>ID\<close>, \<^verbatim>\<open>Requiredness\<close>, \<^verbatim>\<open>Type\<close>\<close>

definition Category2Type :: "Category \<Rightarrow> ttype" where
  "Category2Type c =
     (case c of
        Category_Bool \<Rightarrow> tBOOL | Category_Byte \<Rightarrow> tBYTE | Category_I16 \<Rightarrow> tI16 | Category_I32 \<Rightarrow> tI32
      | Category_I64 \<Rightarrow> tI64 | Category_Double \<Rightarrow> tDOUBLE | Category_String \<Rightarrow> tSTRING
      | Category_Struct \<Rightarrow> tSTRUCT | Category_Map \<Rightarrow> tMAP | Category_Set \<Rightarrow> tSET | Category_List \<Rightarrow> tLIST
      | Category_Enum \<Rightarrow> tI32 | Category_Binary \<Rightarrow> tSTRING | Category_Exception \<Rightarrow> tSTRUCT
      | Category_Union \<Rightarrow> tSTRUCT | _ \<Rightarrow> 0)"

subsection \<open>Results and the builder's state\<close>

datatype builderErr =
    StructNotDefined string
  | TypedefNotDefined string
  | UnknownCategory Category

type_synonym 'sl structMap = "'sl \<rightharpoonup> TypeSpec"
type_synonym ('sl, 'a) build = "((builderErr, 'a) res \<times> 'sl structMap) option"

definition bbind :: "('sl, 'a) build \<Rightarrow> ('a \<Rightarrow> 'sl structMap \<Rightarrow> ('sl, 'b) build) \<Rightarrow> ('sl, 'b) build" where
  "bbind r k =
     (case r of
        None \<Rightarrow> None
      | Some (Val x, m) \<Rightarrow> k x m
      | Some (Err e, m) \<Rightarrow> Some (Err e, m)
      | Some (Pan p, m) \<Rightarrow> Some (Pan p, m))"

definition EmptyStructTypeSpec :: "(structField list \<Rightarrow> nat) \<Rightarrow> TypeSpec" where
  "EmptyStructTypeSpec sid = \<lparr>ts_Type = RPtr (RStruct (sid []) []), ts_TypeTag = ''ANONYMOUS''\<rparr>"

definition BinaryType :: rtype where "BinaryType = RSlice [] bytetype"
definition EnumType :: rtype where
  "EnumType = RBasic K_Int64 ''github.com/cloudwego/frugal/fuzz'' ''Enum''"

subsection \<open>The builder\<close>

text \<open>The loop over the fields of a struct, with the builder of their types as an argument.\<close>

fun buildFields ::
  "('ty \<Rightarrow> Requiredness \<Rightarrow> 'sl structMap \<Rightarrow> ('sl, TypeSpec) build) \<Rightarrow>
     (32 word \<times> Requiredness \<times> 'ty) list \<Rightarrow> 'sl structMap \<Rightarrow> ('sl, structField list) build" where
  "buildFields bt [] m = Some (Val [], m)"
| "buildFields bt ((fid, req, ty) # fs) m =
     bbind (bt ty req m) (\<lambda>t m.
     bbind (buildFields bt fs m) (\<lambda>sfs m. Some (Val (BuildStructField (ucast fid) req t # sfs), m)))"

definition buildStructFromAST ::
  "('tree, 'ty, 'sl) ast \<Rightarrow> (structField list \<Rightarrow> nat) \<Rightarrow>
     ('tree \<Rightarrow> 'ty \<Rightarrow> Requiredness \<Rightarrow> 'sl structMap \<Rightarrow> ('sl, TypeSpec) build) \<Rightarrow>
     'tree \<Rightarrow> 'sl \<Rightarrow> 'sl structMap \<Rightarrow> ('sl, TypeSpec) build" where
  "buildStructFromAST A sid bt tree sl m =
     (case m sl of
        Some ret \<Rightarrow> Some (Val ret, m)
      | None \<Rightarrow>
          bbind (buildFields (bt tree) (a_Fields A sl) (m(sl \<mapsto> EmptyStructTypeSpec sid))) (\<lambda>fields m.
          case StructOf sid fields of
            Panic p \<Rightarrow> Some (Pan p, m)
          | Ok st \<Rightarrow>
              let ret = \<lparr>ts_Type = RPtr st, ts_TypeTag = ''ANONYMOUS''\<rparr>
              in Some (Val ret, m(sl \<mapsto> ret))))"

text \<open>The struct-like that a type names, with its file.\<close>

definition lookupStruct :: "('tree, 'ty, 'sl) ast \<Rightarrow> 'tree \<Rightarrow> 'ty \<Rightarrow> (builderErr, 'tree \<times> 'sl) res" where
  "lookupStruct A tree typ =
     (let name = (case a_Reference A typ of None \<Rightarrow> a_Name A typ | Some (nm, i) \<Rightarrow> nm);
          file = (case a_Reference A typ of None \<Rightarrow> Ok tree | Some (nm, i) \<Rightarrow> index (a_Includes A tree) i)
      in rbind (lift_go file) (\<lambda>tree.
         case a_GetStruct A tree name of
           None \<Rightarrow> Err (StructNotDefined name)
         | Some st \<Rightarrow> Val (tree, st)))"

fun buildTypeFromAST ::
  "('tree, 'ty, 'sl) ast \<Rightarrow> (structField list \<Rightarrow> nat) \<Rightarrow> nat \<Rightarrow>
     'tree \<Rightarrow> 'ty \<Rightarrow> Requiredness \<Rightarrow> 'sl structMap \<Rightarrow> ('sl, TypeSpec) build" where
  "buildTypeFromAST A sid 0 tree typ req m = None"
| "buildTypeFromAST A sid (Suc n) tree typ req m =
     (let c = a_Category A typ;
          spec = (\<lambda>k v m. Some (lift_go (BuildTypeSpec sid (Category2Type c) req k v), m))
      in if c = Category_Binary then Some (Val \<lparr>ts_Type = BinaryType, ts_TypeTag = ''binary''\<rparr>, m)
      else if c = Category_Enum then Some (Val \<lparr>ts_Type = EnumType, ts_TypeTag = ''Enum''\<rparr>, m)
      else if c \<in> set [Category_Struct, Category_Exception, Category_Union] then
        bbind (Some (lookupStruct A tree typ, m)) (\<lambda>(tree, st) m.
        buildStructFromAST A sid (buildTypeFromAST A sid n) tree st m)
      else if c = Category_Map then
        bbind (buildTypeFromAST A sid n tree (a_KeyType A typ) Default m) (\<lambda>k m.
        bbind (buildTypeFromAST A sid n tree (a_ValueType A typ) Default m) (\<lambda>v m.
        spec (Some k) (Some v) m))
      else if c = Category_Set \<or> c = Category_List then
        bbind (buildTypeFromAST A sid n tree (a_ValueType A typ) Default m) (\<lambda>v m.
        spec None (Some v) m)
      else if c = Category_Typedef then
        (case a_GetTypedef A tree (a_Name A typ) of
           None \<Rightarrow> Some (Err (TypedefNotDefined (a_Name A typ)), m)
         | Some ty \<Rightarrow> buildTypeFromAST A sid n tree ty req m)
      else if c = Category_Other then Some (Err (UnknownCategory c), m)
      else spec None None m)"

end
