(* ===== verification/FuzzBuilderCorrect.thy ===== *)
theory FuzzBuilderCorrect
  imports FuzzBuilder FuzzStructCorrect
begin

text \<open>
  What the builder of the fuzzer's corpus makes of a syntax tree: struct types whose fields
  the resolver accepts. The map of structs holds pointers to struct types throughout, and an
  entry stays as it is once it is there.
\<close>

subsection \<open>Specifications\<close>

definition anonymous :: "TypeSpec \<Rightarrow> bool" where
  "anonymous ts \<longleftrightarrow> (\<exists>j. ts = \<lparr>ts_Type = RPtr (RStruct j []), ts_TypeTag = ''ANONYMOUS''\<rparr>)"

definition structsOK :: "'sl structMap \<Rightarrow> bool" where
  "structsOK m \<longleftrightarrow> (\<forall>sl ts. m sl = Some ts \<longrightarrow> anonymous ts)"

text \<open>A type for a field of requiredness \<open>r\<close>: fit for an element, or a pointer to such a type.\<close>

definition typeOK :: "Requiredness \<Rightarrow> TypeSpec \<Rightarrow> bool" where
  "typeOK r ts \<longleftrightarrow>
     (\<exists>pt. specOK ts pt) \<or> (\<exists>ts' pt. ts = asPointer r ts' \<and> specOK ts' pt \<and> rt_Kind (ts_Type ts') \<noteq> K_Ptr)"

lemma typeOK_reads: "typeOK r ts \<Longrightarrow> \<exists>pt. readsAs r ts pt"
  unfolding typeOK_def using readsAs_any readsAs_pointer by blast

lemma typeOK_Default: "typeOK Default ts \<Longrightarrow> \<exists>pt. specOK ts pt"
  by (auto simp: typeOK_def asPointer_def)

lemma specOK_typeOK: "specOK ts pt \<Longrightarrow> typeOK r ts"
  by (auto simp: typeOK_def)

lemma anonymous_typeOK: "anonymous ts \<Longrightarrow> typeOK r ts"
  using describes_specOK [OF describes_struct] specOK_typeOK by (auto simp: anonymous_def)

lemma anonymous_Empty: "anonymous (EmptyStructTypeSpec sid)"
  by (simp add: anonymous_def EmptyStructTypeSpec_def)

lemma Enum_OK: "specOK \<lparr>ts_Type = EnumType, ts_TypeTag = ''Enum''\<rparr> (Type T_enum None None EnumType)"
proof -
  have t: "tyOf EnumType (Type T_enum None None EnumType)"
    by (simp add: EnumType_def basicTagOf_def i64type_def)
  have n: "namesOK (\<lambda>s. []) (Type T_enum None None EnumType)"
    by (simp add: EnumType_def nameOK_def isName_def isident_def isident0_def)
  from parse_syntax [OF t n] have "parses EnumType ''Enum'' (Type T_enum None None EnumType)"
    by (simp add: tagName_def EnumType_def)
  then show ?thesis
    by (simp add: specOK_def EnumType_def graphic_def bytetype_def Type_IsValueType_def Type_IsKeyType_def)
qed

lemma Binary_OK: "specOK \<lparr>ts_Type = BinaryType, ts_TypeTag = ''binary''\<rparr> (Type T_binary None None BinaryType)"
proof -
  have t: "tyOf BinaryType (Type T_binary None None BinaryType)" by (simp add: BinaryType_def)
  from parse_syntax [OF t, of "\<lambda>s. []"] have "parses BinaryType ''binary'' (Type T_binary None None BinaryType)"
    by simp
  then show ?thesis
    by (simp add: specOK_def BinaryType_def graphic_def bytetype_def Type_IsValueType_def)
qed

lemma builds_typeOK: "builds t (Ok ts) \<Longrightarrow> typeOK r ts"
  unfolding builds_def using describes_specOK specOK_typeOK by blast

lemma build_typeOK:
  assumes "BuildTypeSpec sid t r k v = Ok ts"
    "t \<in> set [tBOOL, tBYTE, tI16, tI32, tI64, tDOUBLE, tSTRING] \<or>
     (t = tLIST \<or> t = tSET) \<and> (\<exists>V. specOK (specOr v) V) \<or>
     t = tMAP \<and> (\<exists>K. specOK (specOr k) K) \<and> (\<exists>V. specOK (specOr v) V)"
  shows "typeOK r ts"
  using assms(2)
proof (elim disjE conjE exE)
  assume "t \<in> set [tBOOL, tBYTE, tI16, tI32, tI64, tDOUBLE, tSTRING]"
  from build_basic_any [OF this, of r sid k v] obtain ts' pt where
    "specOK ts' pt" "rt_Kind (ts_Type ts') \<noteq> K_Ptr" "Ok ts = Ok (asPointer r ts')"
    unfolding buildsBasic_def assms(1) using describes_specOK by blast
  then show ?thesis unfolding typeOK_def by blast
next
  fix V assume "t = tLIST" "specOK (specOr v) V"
  with build_elems [of t v V sid r k] assms(1) show ?thesis
    using builds_typeOK by simp
next
  fix V assume "t = tSET" "specOK (specOr v) V"
  with build_elems [of t v V sid r k] assms(1) show ?thesis
    using builds_typeOK by simp
next
  fix K V assume "t = tMAP" "specOK (specOr k) K" "specOK (specOr v) V"
  with build_map [of k K v V sid r] assms(1) show ?thesis
    using builds_typeOK by (simp split: if_splits)
qed

subsection \<open>The builder\<close>

text \<open>
  The contract of a step of the builder: it keeps \<open>structsOK\<close> and the entries there are, and
  a result satisfies \<open>P\<close>.
\<close>

definition keeps :: "'sl structMap \<Rightarrow> ('a \<Rightarrow> bool) \<Rightarrow> ('sl, 'a) build \<Rightarrow> bool" where
  "keeps m P r \<longleftrightarrow> (case r of None \<Rightarrow> True | Some (x, m') \<Rightarrow>
     structsOK m' \<and> m \<subseteq>\<^sub>m m' \<and> (\<forall>v. x = Val v \<longrightarrow> P v))"

lemma keeps_bbind:
  assumes "keeps m Q r" "\<And>x m'. r = Some (Val x, m') \<Longrightarrow> structsOK m' \<Longrightarrow> m \<subseteq>\<^sub>m m' \<Longrightarrow> Q x \<Longrightarrow> keeps m' P (k x m')"
  shows "keeps m P (bbind r k)"
proof (cases r)
  case (Some y)
  obtain x m' where y: "y = (x, m')" by (cases y)
  have 1: "structsOK m'" "m \<subseteq>\<^sub>m m'" using assms(1) Some y by (simp_all add: keeps_def)
  show ?thesis
  proof (cases x)
    case (Val v)
    then have "keeps m' P (k v m')" using assms Some y 1 by (simp add: keeps_def)
    then show ?thesis using Some y Val 1(2) by (auto simp: bbind_def keeps_def split: option.splits intro: map_le_trans)
  qed (use Some y 1 in \<open>simp_all add: bbind_def keeps_def\<close>)
qed (simp add: bbind_def keeps_def)

lemma keeps_return: "structsOK m \<Longrightarrow> (\<And>v. x = Val v \<Longrightarrow> P v) \<Longrightarrow> keeps m P (Some (x, m))"
  by (simp add: keeps_def)

lemma buildFields_keeps:
  fixes bt :: "'ty \<Rightarrow> Requiredness \<Rightarrow> 'sl structMap \<Rightarrow> ('sl, TypeSpec) build"
  assumes "\<And>ty req m. structsOK m \<Longrightarrow> keeps m (typeOK req) (bt ty req m)"
  shows "structsOK m \<Longrightarrow> keeps m (\<lambda>sfs. \<exists>xs. sfs = builtFields xs \<and> map fst xs = map (ucast \<circ> fst) fs \<and>
    (\<forall>(n, r, ts)\<in>set xs. typeOK r ts)) (buildFields bt fs m)"
proof (induction fs arbitrary: m)
  case Nil
  then show ?case by (auto intro!: keeps_return simp: builtFields_def)
next
  case (Cons f fs)
  obtain fid req ty where f: "f = (fid, req, ty)" by (metis prod_cases3)
  show ?case
    unfolding f buildFields.simps
  proof (rule keeps_bbind [OF assms [OF Cons.prems]])
    fix t and m' :: "'sl structMap" assume t: "typeOK req t" and m': "structsOK m'"
    show "keeps m' (\<lambda>sfs. \<exists>xs. sfs = builtFields xs \<and> map fst xs = map (ucast \<circ> fst) ((fid, req, ty) # fs) \<and>
        (\<forall>(n, r, ts)\<in>set xs. typeOK r ts))
      (bbind (buildFields bt fs m') (\<lambda>sfs m. Some (Val (BuildStructField (ucast fid) req t # sfs), m)))"
    proof (rule keeps_bbind [OF Cons.IH [OF m']])
      fix sfs and m2 :: "'sl structMap"
      assume m2: "structsOK m2" and "\<exists>xs. sfs = builtFields xs \<and> map fst xs = map (ucast \<circ> fst) fs \<and>
        (\<forall>(n, r, ts)\<in>set xs. typeOK r ts)"
      then obtain xs where xs: "sfs = builtFields xs" "map fst xs = map (ucast \<circ> fst) fs"
        "\<forall>(n, r, ts)\<in>set xs. typeOK r ts" by blast
      then have "BuildStructField (ucast fid) req t # sfs = builtFields ((ucast fid, req, t) # xs)"
        "map fst ((ucast fid, req, t) # xs) = map (ucast \<circ> fst) ((fid, req, ty) # fs)"
        "\<forall>(n, r, ts)\<in>set ((ucast fid, req, t) # xs). typeOK r ts"
        using t by (simp_all add: builtFields_def)
      then show "keeps m2 (\<lambda>sfs. \<exists>xs. sfs = builtFields xs \<and>
          map fst xs = map (ucast \<circ> fst) ((fid, req, ty) # fs) \<and> (\<forall>(n, r, ts)\<in>set xs. typeOK r ts))
        (Some (Val (BuildStructField (ucast fid) req t # sfs), m2))"
        by (intro keeps_return [OF m2]) blast
    qed
  qed
qed

lemma structsOK_upd: "structsOK m \<Longrightarrow> anonymous ts \<Longrightarrow> structsOK (m(sl \<mapsto> ts))"
  by (simp add: structsOK_def)

lemma buildStruct_keeps:
  fixes bt :: "'tree \<Rightarrow> 'ty \<Rightarrow> Requiredness \<Rightarrow> 'sl structMap \<Rightarrow> ('sl, TypeSpec) build"
  assumes bt: "\<And>tree ty req m. structsOK m \<Longrightarrow> keeps m (typeOK req) (bt tree ty req m)" and m: "structsOK m"
  shows "keeps m anonymous (buildStructFromAST A sid bt tree sl m)"
proof (cases "m sl")
  case (Some ret)
  then have "anonymous ret" using m by (simp add: structsOK_def)
  with Some m show ?thesis by (simp add: buildStructFromAST_def keeps_def)
next
  case None
  let ?m = "m(sl \<mapsto> EmptyStructTypeSpec sid)"
  have le: "m \<subseteq>\<^sub>m m'(sl := x)" if "?m \<subseteq>\<^sub>m m'" for m' x
    using that None by (fastforce simp: map_le_def dom_def)
  have ok: "structsOK ?m" using m anonymous_Empty by (rule structsOK_upd)
  show ?thesis
  proof (cases "buildFields (bt tree) (a_Fields A sl) ?m")
    case None
    with \<open>m sl = None\<close> show ?thesis by (simp add: buildStructFromAST_def bbind_def keeps_def)
  next
    case (Some y)
    obtain x m' where y: "y = (x, m')" by (cases y)
    from buildFields_keeps [where bt = "bt tree", OF bt ok, of "a_Fields A sl"]
    have m': "structsOK m'" "?m \<subseteq>\<^sub>m m'" by (simp_all add: Some y keeps_def)
    have "m \<subseteq>\<^sub>m m'" using le [OF m'(2), of "m' sl"] by simp
    with m' le [OF m'(2)] Some y \<open>m sl = None\<close> show ?thesis
      by (cases x) (auto simp: buildStructFromAST_def bbind_def keeps_def StructOf_def anonymous_def structsOK_upd Let_def)
  qed
qed

lemma Category_cases:
  obtains (binary) "c = Category_Binary" | (enum) "c = Category_Enum" |
    (struct) "c = Category_Struct \<or> c = Category_Exception \<or> c = Category_Union" | (map) "c = Category_Map" |
    (elems) "c = Category_Set \<or> c = Category_List" | (tydef) "c = Category_Typedef" |
    (other) "c = Category_Other" |
    (basic) "c \<in> set [Category_Bool, Category_Byte, Category_I16, Category_I32, Category_I64, Category_Double, Category_String]"
  by (cases c) simp_all

lemma spec_keeps:
  assumes "structsOK m" "\<And>ts. BuildTypeSpec sid t req k v = Ok ts \<Longrightarrow> typeOK req ts"
  shows "keeps m (typeOK req) (Some (lift_go (BuildTypeSpec sid t req k v), m))"
  using assms by (auto simp: keeps_def res_iff)

lemma buildType_keeps:
  fixes A :: "('tree, 'ty, 'sl) ast"
  fixes m :: "'sl structMap"
  shows "structsOK m \<Longrightarrow> keeps m (typeOK req) (buildTypeFromAST A sid n tree ty req m)"
proof (induction n arbitrary: tree ty req m)
  case (Suc n)
  note m = Suc.prems and IH = Suc.IH
  show ?case
  proof (cases "a_Category A ty" rule: Category_cases)
    case binary
    then show ?thesis using m specOK_typeOK [OF Binary_OK] by (simp add: Let_def keeps_def)
  next
    case enum
    then show ?thesis using m specOK_typeOK [OF Enum_OK] by (simp add: Let_def keeps_def)
  next
    case struct
    have "keeps m' (typeOK req) (buildStructFromAST A sid (buildTypeFromAST A sid n) tree' st m')"
      if "structsOK m'" for tree' st and m' :: "'sl structMap"
      using buildStruct_keeps [where bt = "buildTypeFromAST A sid n", OF IH that, of A sid tree' st] anonymous_typeOK
      by (auto simp: keeps_def split: option.splits)
    then have "keeps m (typeOK req) (bbind (Some (lookupStruct A tree ty, m))
        (\<lambda>(tree, st) m. buildStructFromAST A sid (buildTypeFromAST A sid n) tree st m))"
      using m by (intro keeps_bbind [where Q = "\<lambda>_. True"]) (auto simp: keeps_def)
    then show ?thesis using struct by (auto simp: Let_def)
  next
    case map
    have "keeps m (typeOK req)
        (bbind (buildTypeFromAST A sid n tree (a_KeyType A ty) Default m) (\<lambda>k m.
         bbind (buildTypeFromAST A sid n tree (a_ValueType A ty) Default m) (\<lambda>v m.
         Some (lift_go (BuildTypeSpec sid tMAP req (Some k) (Some v)), m))))"
    proof (rule keeps_bbind [OF IH [OF m]])
      fix k and m1 :: "'sl structMap"
      assume m1: "structsOK m1" and k: "typeOK Default k"
      show "keeps m1 (typeOK req) (bbind (buildTypeFromAST A sid n tree (a_ValueType A ty) Default m1) (\<lambda>v m.
          Some (lift_go (BuildTypeSpec sid tMAP req (Some k) (Some v)), m)))"
      proof (rule keeps_bbind [OF IH [OF m1]])
        fix v and m2 :: "'sl structMap"
        assume m2: "structsOK m2" and v: "typeOK Default v"
        have "(\<exists>K. specOK (specOr (Some k)) K) \<and> (\<exists>V. specOK (specOr (Some v)) V)"
          using typeOK_Default [OF k] typeOK_Default [OF v] by (simp add: specOr_def)
        then show "keeps m2 (typeOK req) (Some (lift_go (BuildTypeSpec sid tMAP req (Some k) (Some v)), m2))"
          by (intro spec_keeps [OF m2] build_typeOK) auto
      qed
    qed
    then show ?thesis using map by (simp add: Let_def Category2Type_def)
  next
    case elems
    have "keeps m (typeOK req)
        (bbind (buildTypeFromAST A sid n tree (a_ValueType A ty) Default m) (\<lambda>v m.
         Some (lift_go (BuildTypeSpec sid t req None (Some v)), m)))" if "t = tLIST \<or> t = tSET" for t
    proof (rule keeps_bbind [OF IH [OF m]])
      fix v and m2 :: "'sl structMap"
      assume m2: "structsOK m2" and v: "typeOK Default v"
      have "\<exists>V. specOK (specOr (Some v)) V" using typeOK_Default [OF v] by (simp add: specOr_def)
      with that show "keeps m2 (typeOK req) (Some (lift_go (BuildTypeSpec sid t req None (Some v)), m2))"
        by (intro spec_keeps [OF m2] build_typeOK) auto
    qed
    then show ?thesis using elems by (auto simp: Let_def Category2Type_def)
  next
    case tydef
    show ?thesis
    proof (cases "a_GetTypedef A tree (a_Name A ty)")
      case None
      then show ?thesis using m tydef by (simp add: Let_def keeps_def)
    next
      case (Some u)
      then have "buildTypeFromAST A sid (Suc n) tree ty req m = buildTypeFromAST A sid n tree u req m"
        using tydef by (simp add: Let_def)
      then show ?thesis using IH [OF m] by simp
    qed
  next
    case other
    then show ?thesis using m by (simp add: Let_def keeps_def)
  next
    case basic
    have t: "Category2Type (a_Category A ty) \<in> set [tBOOL, tBYTE, tI16, tI32, tI64, tDOUBLE, tSTRING]"
      using basic by (auto simp: Category2Type_def)
    have "buildTypeFromAST A sid (Suc n) tree ty req m =
        Some (lift_go (BuildTypeSpec sid (Category2Type (a_Category A ty)) req None None), m)"
      using basic by (auto simp: Let_def)
    with spec_keeps [OF m] build_typeOK [OF _ disjI1 [OF t]] show ?thesis by simp
  qed
qed (simp add: keeps_def)

subsection \<open>The struct types\<close>

lemma distinct_ids: "distinct (map sf_Name (builtFields xs)) \<Longrightarrow> distinct (map fst xs)"
proof (induction xs)
  case (Cons x xs)
  obtain n r ts where x: "x = (n, r, ts)" by (metis prod_cases3)
  have "fst x \<notin> fst ` set xs"
  proof
    assume "fst x \<in> fst ` set xs"
    then obtain r' ts' where "(n, r', ts') \<in> set xs" using x by force
    moreover have "sf_Name (BuildStructField n r ts) = sf_Name (BuildStructField n r' ts')"
      by (simp add: field_name)
    ultimately show False using Cons.prems x by (force simp: builtFields_def)
  qed
  with Cons show ?case by (simp add: builtFields_def x)
qed simp

end
