(* ===== verification/FuzzBuilderTerm.thy ===== *)
theory FuzzBuilderTerm
  imports FuzzBuilder
begin

text \<open>
  The corpus builder ends. Its recursion follows the containers and the typedefs of a type,
  which must not be cyclic, and the structs, where the entry the builder makes before it looks
  at the fields ends a cycle.
\<close>

subsection \<open>Syntax trees without cycles of typedefs\<close>

text \<open>
  \<open>S\<close> are the struct-likes of the files, \<open>T\<close> the types that occur in them, each with its file.
  \<open>rank\<close> bounds how deep the containers and typedefs of a type nest, and \<open>R\<close> is its maximum.
  Every finite tree without a cyclic typedef has such a rank; on a cyclic one Go recurses until
  its stack overflows.
\<close>

definition fieldsIn :: "('tree, 'ty, 'sl) ast \<Rightarrow> ('tree \<times> 'ty) set \<Rightarrow> 'tree \<Rightarrow> 'sl \<Rightarrow> bool" where
  "fieldsIn A T tree sl \<longleftrightarrow> (\<forall>(fid, req, ty)\<in>set (a_Fields A sl). (tree, ty) \<in> T)"

definition rankedTypes ::
  "('tree, 'ty, 'sl) ast \<Rightarrow> 'sl set \<Rightarrow> ('tree \<times> 'ty) set \<Rightarrow> ('tree \<Rightarrow> 'ty \<Rightarrow> nat) \<Rightarrow> nat \<Rightarrow> bool" where
  "rankedTypes A S T rank R \<longleftrightarrow>
     finite S \<and>
     (\<forall>(tree, ty)\<in>T.
        let c = a_Category A ty; below = (\<lambda>u. (tree, u) \<in> T \<and> rank tree u < rank tree ty)
        in rank tree ty \<le> R \<and>
           (c \<in> set [Category_Struct, Category_Exception, Category_Union] \<longrightarrow>
              (\<forall>tree' sl. lookupStruct A tree ty = Val (tree', sl) \<longrightarrow> sl \<in> S \<and> fieldsIn A T tree' sl)) \<and>
           (c = Category_Map \<longrightarrow> below (a_KeyType A ty)) \<and>
           (c \<in> set [Category_Map, Category_Set, Category_List] \<longrightarrow> below (a_ValueType A ty)) \<and>
           (c = Category_Typedef \<longrightarrow> (\<forall>u. a_GetTypedef A tree (a_Name A ty) = Some u \<longrightarrow> below u)))"

subsection \<open>Enough fuel\<close>

text \<open>A step ends, and forgets no struct.\<close>

definition ends :: "'sl structMap \<Rightarrow> ('sl, 'a) build \<Rightarrow> bool" where
  "ends m r \<longleftrightarrow> (\<exists>x m'. r = Some (x, m') \<and> dom m \<subseteq> dom m')"

lemma ends_return [simp]: "ends m (Some (x, m))"
  by (simp add: ends_def)

lemma ends_bbind:
  assumes "ends m r" "\<And>x m'. dom m \<subseteq> dom m' \<Longrightarrow> ends m' (k x m')"
  shows "ends m (bbind r k)"
proof -
  from assms(1) obtain x m' where r: "r = Some (x, m')" "dom m \<subseteq> dom m'" by (auto simp: ends_def)
  show ?thesis
  proof (cases x)
    case (Val v)
    from assms(2) [OF r(2), of v] r(2) show ?thesis by (auto simp: bbind_def r(1) Val ends_def)
  qed (use r in \<open>simp_all add: bbind_def ends_def\<close>)
qed

lemma buildFields_ends:
  fixes bt :: "'ty \<Rightarrow> Requiredness \<Rightarrow> 'sl structMap \<Rightarrow> ('sl, TypeSpec) build"
  assumes "\<And>fid req ty m'. (fid, req, ty) \<in> set fs \<Longrightarrow> dom m \<subseteq> dom m' \<Longrightarrow> ends m' (bt ty req m')"
  shows "ends m (buildFields bt fs m)"
  using assms
proof (induction fs arbitrary: m)
  case (Cons f fs)
  obtain fid req ty where f: "f = (fid, req, ty)" by (metis prod_cases3)
  show ?case
    unfolding f buildFields.simps
  proof (rule ends_bbind)
    show "ends m (bt ty req m)" using Cons.prems [of fid req ty m] f by simp
    fix t and m' :: "'sl structMap" assume m': "dom m \<subseteq> dom m'"
    then have "ends m' (buildFields bt fs m')"
      by (intro Cons.IH) (use Cons.prems in force)
    then show "ends m' (bbind (buildFields bt fs m') (\<lambda>sfs m. Some (Val (BuildStructField (ucast fid) req t # sfs), m)))"
      by (rule ends_bbind) simp
  qed
qed simp

lemma buildStruct_ends:
  assumes "sl \<notin> dom m \<Longrightarrow> ends (m(sl \<mapsto> EmptyStructTypeSpec sid))
      (buildFields (bt tree) (a_Fields A sl) (m(sl \<mapsto> EmptyStructTypeSpec sid)))"
  shows "ends m (buildStructFromAST A sid bt tree sl m)"
proof (cases "m sl")
  case None
  let ?m = "m(sl \<mapsto> EmptyStructTypeSpec sid)"
  have "ends ?m (bbind (buildFields (bt tree) (a_Fields A sl) ?m) (\<lambda>fields m.
          case StructOf sid fields of
            Panic p \<Rightarrow> Some (Pan p, m)
          | Ok st \<Rightarrow>
              let ret = \<lparr>ts_Type = RPtr st, ts_TypeTag = ''ANONYMOUS''\<rparr>
              in Some (Val ret, m(sl \<mapsto> ret))))"
    using assms None by (intro ends_bbind) (auto simp: ends_def Let_def split: go.split)
  then show ?thesis by (auto simp: buildStructFromAST_def None ends_def)
qed (simp add: buildStructFromAST_def)

text \<open>The fuel a type needs: its rank, and the rounds of the structs that have no entry yet.\<close>

lemma buildType_ends:
  fixes A :: "('tree, 'ty, 'sl) ast"
  assumes A: "rankedTypes A S T rank R"
  shows "(tree, ty) \<in> T \<Longrightarrow> rank tree ty + card (S - dom m) * Suc R < n \<Longrightarrow>
    ends m (buildTypeFromAST A sid n tree ty req m)"
proof (induction n arbitrary: tree ty req m)
  case (Suc n)
  have fin: "finite S" using A by (simp add: rankedTypes_def)
  have less: "card (S - dom m') * Suc R \<le> card (S - dom m) * Suc R" if "dom m \<subseteq> dom m'" for m' :: "'sl structMap"
    using that fin by (intro mult_le_mono1 card_mono) auto
  let ?below = "\<lambda>u. (tree, u) \<in> T \<and> rank tree u < rank tree ty"
  have T: "rank tree ty \<le> R"
    "a_Category A ty \<in> set [Category_Struct, Category_Exception, Category_Union] \<Longrightarrow>
       lookupStruct A tree ty = Val (tree', sl) \<Longrightarrow> sl \<in> S \<and> fieldsIn A T tree' sl"
    "a_Category A ty = Category_Map \<Longrightarrow> ?below (a_KeyType A ty)"
    "a_Category A ty \<in> set [Category_Map, Category_Set, Category_List] \<Longrightarrow> ?below (a_ValueType A ty)"
    "a_Category A ty = Category_Typedef \<Longrightarrow> a_GetTypedef A tree (a_Name A ty) = Some u \<Longrightarrow> ?below u"
    for tree' sl u
    using A Suc.prems(1) by (fastforce simp: rankedTypes_def Let_def)+
  have IH: "ends m' (buildTypeFromAST A sid n tree u r m')" if "?below u" "dom m \<subseteq> dom m'" for u r m'
    using that less [OF that(2)] Suc.prems(2) by (intro Suc.IH) auto
  have struct: "ends m (bbind (Some (lookupStruct A tree ty, m)) (\<lambda>(tree, st) m.
        buildStructFromAST A sid (buildTypeFromAST A sid n) tree st m))"
    if c: "a_Category A ty \<in> set [Category_Struct, Category_Exception, Category_Union]"
  proof (cases "lookupStruct A tree ty")
    case (Val x)
    then obtain tree' sl where x: "x = (tree', sl)" by (cases x)
    from T(2) [OF c Val [unfolded x]] have sl: "sl \<in> S" "fieldsIn A T tree' sl" by simp_all
    have "ends m (buildStructFromAST A sid (buildTypeFromAST A sid n) tree' sl m)"
    proof (rule buildStruct_ends, rule buildFields_ends)
      fix fid r u and m' :: "'sl structMap"
      assume new: "sl \<notin> dom m" and f: "(fid, r, u) \<in> set (a_Fields A sl)"
        and m': "dom (m(sl \<mapsto> EmptyStructTypeSpec sid)) \<subseteq> dom m'"
      have u: "(tree', u) \<in> T" using sl(2) f by (auto simp: fieldsIn_def)
      then have "rank tree' u \<le> R" using A by (auto simp: rankedTypes_def Let_def)
      moreover have "card (S - dom m') < card (S - dom m)"
        by (rule psubset_card_mono) (use fin sl(1) new m' in auto)
      then have "Suc (card (S - dom m')) * Suc R \<le> card (S - dom m) * Suc R"
        by (intro mult_le_mono1) simp
      ultimately show "ends m' (buildTypeFromAST A sid n tree' u r m')"
        using Suc.prems(2) by (intro Suc.IH [OF u]) simp
    qed
    then show ?thesis by (simp add: Val x bbind_def)
  qed (simp_all add: bbind_def)
  show ?case
    unfolding buildTypeFromAST.simps Let_def
    using IH T(3-5) struct
    by (auto intro!: ends_bbind split: option.split)
qed simp

subsection \<open>More fuel\<close>

definition fuelLe :: "('sl, 'a) build \<Rightarrow> ('sl, 'a) build \<Rightarrow> bool" where
  "fuelLe r r' \<longleftrightarrow> r = None \<or> r' = r"

lemma fuelLe_refl [simp]: "fuelLe r r"
  by (simp add: fuelLe_def)

lemma fuelLe_bbind:
  assumes "fuelLe r r'" "\<And>x m. fuelLe (k x m) (k' x m)"
  shows "fuelLe (bbind r k) (bbind r' k')"
proof (cases r)
  case (Some y)
  then have "r' = r" using assms(1) by (simp add: fuelLe_def)
  with Some assms(2) show ?thesis by (cases y; cases "fst y") (auto simp: bbind_def)
qed (simp add: bbind_def fuelLe_def)

lemma buildFields_fuel:
  assumes "\<And>ty req m. fuelLe (bt ty req m) (bt' ty req m)"
  shows "fuelLe (buildFields bt fs m) (buildFields bt' fs m)"
proof (induction fs arbitrary: m)
  case (Cons f fs)
  obtain fid req ty where f: "f = (fid, req, ty)" by (metis prod_cases3)
  show ?case unfolding f buildFields.simps by (intro fuelLe_bbind assms Cons.IH) simp
qed simp

lemma buildStruct_fuel:
  assumes "\<And>tree ty req m. fuelLe (bt tree ty req m) (bt' tree ty req m)"
  shows "fuelLe (buildStructFromAST A sid bt tree sl m) (buildStructFromAST A sid bt' tree sl m)"
  unfolding buildStructFromAST_def
  by (cases "m sl") (auto intro!: fuelLe_bbind buildFields_fuel assms)

lemma buildType_Suc:
  "fuelLe (buildTypeFromAST A sid n tree ty req m) (buildTypeFromAST A sid (Suc n) tree ty req m)"
proof (induction n arbitrary: tree ty req m)
  case (Suc n)
  define r where "r = buildTypeFromAST A sid n"
  define r' where "r' = buildTypeFromAST A sid (Suc n)"
  have IH: "fuelLe (r tree ty req m) (r' tree ty req m)" for tree ty req m
    unfolding r_def r'_def by (rule Suc.IH)
  note 1 = buildTypeFromAST.simps(2) [of A sid n tree ty req m, folded r_def]
    and 2 = buildTypeFromAST.simps(2) [of A sid "Suc n" tree ty req m, folded r'_def]
  show ?case
    unfolding 1 2 Let_def
    by (auto intro!: fuelLe_bbind buildStruct_fuel IH split: option.split)
qed (simp add: fuelLe_def)

lemma buildType_fuel:
  "n \<le> k \<Longrightarrow> fuelLe (buildTypeFromAST A sid n tree ty req m) (buildTypeFromAST A sid k tree ty req m)"
proof (induction k rule: dec_induct)
  case (step k)
  with buildType_Suc [of A sid k tree ty req m] show ?case by (auto simp: fuelLe_def)
qed simp

text \<open>A struct is built, with the same result for any fuel above the bound.\<close>

lemma buildStruct_terminates:
  fixes A :: "('tree, 'ty, 'sl) ast"
  assumes A: "rankedTypes A S T rank R" and sl: "sl \<in> S" "fieldsIn A T tree sl"
  shows "\<exists>x m'. \<forall>n\<ge>card (S - dom m) * Suc R.
    buildStructFromAST A sid (buildTypeFromAST A sid n) tree sl m = Some (x, m')"
proof -
  let ?N = "card (S - dom m) * Suc R"
  have "ends m (buildStructFromAST A sid (buildTypeFromAST A sid ?N) tree sl m)"
  proof (rule buildStruct_ends, rule buildFields_ends)
    fix fid r u and m' :: "'sl structMap"
    assume new: "sl \<notin> dom m" and f: "(fid, r, u) \<in> set (a_Fields A sl)"
      and m': "dom (m(sl \<mapsto> EmptyStructTypeSpec sid)) \<subseteq> dom m'"
    have u: "(tree, u) \<in> T" using sl(2) f by (auto simp: fieldsIn_def)
    then have "rank tree u \<le> R" using A by (auto simp: rankedTypes_def Let_def)
    moreover have "card (S - dom m') < card (S - dom m)"
      by (rule psubset_card_mono) (use A sl(1) new m' in \<open>auto simp: rankedTypes_def\<close>)
    then have "Suc (card (S - dom m')) * Suc R \<le> ?N" by (intro mult_le_mono1) simp
    ultimately show "ends m' (buildTypeFromAST A sid ?N tree u r m')"
      by (intro buildType_ends [OF A u]) simp
  qed
  then obtain x m' where r: "buildStructFromAST A sid (buildTypeFromAST A sid ?N) tree sl m = Some (x, m')"
    by (auto simp: ends_def)
  have "buildStructFromAST A sid (buildTypeFromAST A sid n) tree sl m = Some (x, m')" if "?N \<le> n" for n
  proof -
    have "fuelLe (buildStructFromAST A sid (buildTypeFromAST A sid ?N) tree sl m)
        (buildStructFromAST A sid (buildTypeFromAST A sid n) tree sl m)"
      by (rule buildStruct_fuel) (rule buildType_fuel [OF that])
    with r show ?thesis by (simp add: fuelLe_def)
  qed
  then show ?thesis by blast
qed

end
