(* ===== verification/FuzzBuilderProps.thy ===== *)
theory FuzzBuilderProps
  imports FuzzBuilderCorrect FuzzBuilderTerm FuzzStructProps
begin

text \<open>
  The properties of the corpus builder: its struct types resolve, and an error in one struct is
  forgotten for the others.
\<close>

text \<open>The struct type of a struct-like that is built.\<close>

definition builtStruct :: "('tree, 'ty, 'sl) ast \<Rightarrow> (structField list \<Rightarrow> nat) \<Rightarrow> goStruct \<Rightarrow> 'sl \<Rightarrow> TypeSpec \<Rightarrow> bool" where
  "builtStruct A sid g sl ts \<longleftrightarrow>
    (\<exists>sfs. ts = \<lparr>ts_Type = RPtr (RStruct (sid sfs) []), ts_TypeTag = ''ANONYMOUS''\<rparr> \<and>
      length sfs = length (a_Fields A sl) \<and>
      (\<forall>offs. length offs = length sfs \<longrightarrow>
        (\<exists>ff. DoResolveFields g (map2 atOffset sfs offs) = Val ff \<and>
           F_ID ` set ff = {i \<in> (\<lambda>f. ucast (fst f)) ` set (a_Fields A sl). 0 \<le> sint i})))"

lemma buildStruct_built:
  fixes A :: "('tree, 'ty, 'sl) ast"
  assumes m: "structsOK m" "m sl = None" and g: "gs_init g = None"
    and b: "buildStructFromAST A sid (buildTypeFromAST A sid n) tree sl m = Some (Val ts, m')"
  shows "m' sl = Some ts \<and> builtStruct A sid g sl ts"
proof -
  have ok: "structsOK (m(sl \<mapsto> EmptyStructTypeSpec sid))" using m(1) anonymous_Empty by (rule structsOK_upd)
  from b m(2) obtain sfs m2 where f: "buildFields (buildTypeFromAST A sid n tree) (a_Fields A sl)
      (m(sl \<mapsto> EmptyStructTypeSpec sid)) = Some (Val sfs, m2)"
    and d: "distinct (map sf_Name sfs)" "ts = \<lparr>ts_Type = RPtr (RStruct (sid sfs) []), ts_TypeTag = ''ANONYMOUS''\<rparr>"
      "m' = m2(sl \<mapsto> ts)"
    by (auto simp: buildStructFromAST_def bbind_def StructOf_def Let_def split: option.splits res.splits if_splits)
  from buildFields_keeps [where bt = "buildTypeFromAST A sid n tree", OF buildType_keeps ok, of "a_Fields A sl"] f
  obtain xs where xs: "sfs = builtFields xs" "map fst xs = map (ucast \<circ> fst) (a_Fields A sl)"
    "\<forall>(n, r, ts)\<in>set xs. typeOK r ts" by (auto simp: keeps_def)
  have len: "length sfs = length xs" "length xs = length (a_Fields A sl)"
    using arg_cong [OF xs(2), of length] by (simp_all add: xs(1) builtFields_def)
  have ids: "fst ` set xs = (\<lambda>f. ucast (fst f)) ` set (a_Fields A sl)"
    using arg_cong [OF xs(2), of set] by (simp add: image_comp comp_def)
  have reads: "\<exists>pt. readsAs r ts pt \<and> True" if "(n, r, ts) \<in> set xs" for n r ts
    using typeOK_reads xs(3) that by blast
  have "\<exists>ff. DoResolveFields g (map2 atOffset sfs offs) = Val ff \<and> F_ID ` set ff = {i \<in> fst ` set xs. 0 \<le> sint i}"
    if offs: "length offs = length sfs" for offs
  proof -
    have "\<exists>ff. DoResolveFields g (map2 atOffset (builtFields xs) offs) = Val ff \<and>
        F_ID ` set ff = {i \<in> fst ` set xs. 0 \<le> sint i} \<and> (\<forall>f\<in>set ff. True)"
    proof (rule built_resolve [where P = "\<lambda>n pt. True", OF _ distinct_ids [OF d(1) [unfolded xs(1)]] g])
      show "\<exists>pt. readsAs r ts pt \<and> True" if "(n, r, ts) \<in> set xs" for n r ts by (rule reads [OF that])
      show "length offs = length xs" using offs len(1) by simp
    qed
    then show ?thesis using xs(1) by blast
  qed
  then show ?thesis unfolding builtStruct_def using d(2,3) len ids by auto
qed

text \<open>
  C39. Whatever the syntax tree, as long as its typedefs are not cyclic, the corpus builder
  ends: with fuel for one round of nested types per struct that has no entry yet, and the same
  result for any fuel above. It keeps the entries of its map, and a struct type it makes is one
  the resolver accepts: all its fields whose id, cut to 16 bits, is not negative resolve,
  optional ones through pointers; the struct's own entry is then in the map.
\<close>

theorem builder_struct_resolves:
  fixes A :: "('tree, 'ty, 'sl) ast"
  assumes "rankedTypes A S T rank R" "sl \<in> S" "fieldsIn A T tree sl"
    "structsOK m" "m sl = None" "gs_init g = None"
  shows "\<exists>x m'. (\<forall>n\<ge>card (S - dom m) * Suc R.
        buildStructFromAST A sid (buildTypeFromAST A sid n) tree sl m = Some (x, m')) \<and>
    structsOK m' \<and> m \<subseteq>\<^sub>m m' \<and>
    (\<forall>ts. x = Val ts \<longrightarrow> m' sl = Some ts \<and> builtStruct A sid g sl ts)"
proof -
  from buildStruct_terminates [OF assms(1-3)] obtain x m' where
    r: "\<forall>n\<ge>card (S - dom m) * Suc R. buildStructFromAST A sid (buildTypeFromAST A sid n) tree sl m = Some (x, m')"
    by blast
  then have b: "buildStructFromAST A sid (buildTypeFromAST A sid (card (S - dom m) * Suc R)) tree sl m = Some (x, m')"
    by simp
  have "keeps m anonymous (buildStructFromAST A sid (buildTypeFromAST A sid (card (S - dom m) * Suc R)) tree sl m)"
    by (rule buildStruct_keeps [OF buildType_keeps assms(4)])
  with b have "structsOK m'" "m \<subseteq>\<^sub>m m'" by (simp_all add: keeps_def)
  moreover have "m' sl = Some ts \<and> builtStruct A sid g sl ts" if "x = Val ts" for ts
    by (rule buildStruct_built [OF assms(4-6) b [unfolded that]])
  ultimately show ?thesis using r by blast
qed

text \<open>A file with \<^verbatim>\<open>struct Node { 1: required i32 id, 2: optional Node next, 3: list<i32> xs }\<close>.\<close>

definition ex_ast :: "(unit, nat, nat) ast" where
  "ex_ast = \<lparr>a_Category = (\<lambda>t. [Category_I32, Category_Struct, Category_List] ! t),
     a_KeyType = (\<lambda>t. 0), a_ValueType = (\<lambda>t. 0), a_Name = (\<lambda>t. ''Node''), a_Reference = (\<lambda>t. None),
     a_Includes = (\<lambda>t. []), a_GetStruct = (\<lambda>u s. if s = ''Node'' then Some 0 else None),
     a_GetTypedef = (\<lambda>u s. None), a_Fields = (\<lambda>sl. [(1, Required, 0), (2, Optional, 1), (3, Default, 2)])\<rparr>"

lemma ex_sels:
  "a_Category ex_ast 0 = Category_I32" "a_Category ex_ast 1 = Category_Struct" "a_Category ex_ast 2 = Category_List"
  "a_ValueType ex_ast t = 0" "lookupStruct ex_ast () t = Val ((), 0)"
  "a_Fields ex_ast sl = [(1, Required, 0), (2, Optional, 1), (3, Default, 2)]"
  by (simp_all add: ex_ast_def lookupStruct_def)

lemma ex_build_i32: "buildTypeFromAST ex_ast sid (Suc n) () 0 r m =
    Some (Val (asPointer r \<lparr>ts_Type = I32Type, ts_TypeTag = ''i32''\<rparr>), m)"
  by (simp add: Let_def ex_sels Category2Type_def BuildTypeSpec_basic)

lemma ex_build_next: "m 0 = Some ts \<Longrightarrow> buildTypeFromAST ex_ast sid (Suc n) () 1 r m = Some (Val ts, m)"
  by (simp add: Let_def ex_sels bbind_def buildStructFromAST_def del: One_nat_def)

lemma ex_build_xs: "\<exists>ts. buildTypeFromAST ex_ast sid (Suc (Suc n)) () 2 Default m = Some (Val ts, m)"
  by (subst buildTypeFromAST.simps(2))
     (simp add: Let_def ex_sels bbind_def ex_build_i32 Category2Type_def BuildTypeSpec_def PointerMap_def
       asPointer_def del: buildTypeFromAST.simps)

lemma ex_build: "\<exists>ts m'. buildStructFromAST ex_ast sid (buildTypeFromAST ex_ast sid 2) () 0 Map.empty = Some (Val ts, m')"
proof -
  let ?m = "[0 \<mapsto> EmptyStructTypeSpec sid] :: nat \<rightharpoonup> TypeSpec"
  obtain ts where "buildTypeFromAST ex_ast sid (Suc (Suc 0)) () 2 Default ?m = Some (Val ts, ?m)"
    using ex_build_xs by blast
  moreover have "buildTypeFromAST ex_ast sid (Suc (Suc 0)) () 1 Optional ?m = Some (Val (EmptyStructTypeSpec sid), ?m)"
    by (rule ex_build_next) simp
  ultimately have "\<exists>sfs. buildFields (buildTypeFromAST ex_ast sid (Suc (Suc 0)) ()) (a_Fields ex_ast 0) ?m = Some (Val sfs, ?m) \<and>
      map sf_Name sfs = [''Field'' @ decimal (Suc 0), ''Field'' @ decimal 2, ''Field'' @ decimal 3]"
    unfolding ex_sels buildFields.simps ex_build_i32 by (simp add: bbind_def field_name del: buildTypeFromAST.simps One_nat_def)
  moreover have "distinct [''Field'' @ decimal (Suc 0), ''Field'' @ decimal 2, ''Field'' @ decimal 3]"
    using decimal_inj [of 1 2] decimal_inj [of 1 3] decimal_inj [of 2 3] by auto
  ultimately show ?thesis
    by (auto simp: buildStructFromAST_def bbind_def StructOf_def numeral_2_eq_2 Let_def simp del: buildTypeFromAST.simps)
qed

text \<open>Its types, with the struct and the list.\<close>

lemma ex_ranked: "rankedTypes ex_ast {0} {((), 0), ((), 1), ((), 2)} (\<lambda>u t. if t = 2 then 1 else 0) 1"
  by (simp add: rankedTypes_def fieldsIn_def ex_sels Let_def) (simp add: ex_ast_def)

theorem builder_struct_resolves_witness:
  "\<exists>ff sfs. DoResolveFields (ex_g\<lparr>gs_init := None\<rparr>) (map2 atOffset sfs [0, 8, 16]) = Val ff \<and>
     F_ID ` set ff = {1, 2, 3}"
proof -
  have m: "structsOK (Map.empty :: nat \<rightharpoonup> TypeSpec)" by (simp add: structsOK_def)
  have g: "gs_init (ex_g\<lparr>gs_init := None\<rparr>) = None" by simp
  have f: "fieldsIn ex_ast {((), 0), ((), 1), ((), 2)} () 0" by (simp add: fieldsIn_def ex_sels)
  obtain ts m' where b: "buildStructFromAST ex_ast (\<lambda>fs. 7) (buildTypeFromAST ex_ast (\<lambda>fs. 7) 2) () 0 Map.empty = Some (Val ts, m')"
    using ex_build by blast
  have ids: "{i \<in> (\<lambda>f. ucast (fst f)) ` set (a_Fields ex_ast 0). 0 \<le> sint i} = {1, 2, 3 :: 16 word}"
  proof -
    have "(\<lambda>f. ucast (fst f)) ` set (a_Fields ex_ast 0) = {1, 2, 3 :: 16 word}" by (simp add: ex_sels)
    moreover have "0 \<le> sint (1 :: 16 word)" "0 \<le> sint (2 :: 16 word)" "0 \<le> sint (3 :: 16 word)" by simp_all
    ultimately show ?thesis by blast
  qed
  from builder_struct_resolves [OF ex_ranked _ f m _ g, of "\<lambda>fs. 7"] b
  have "builtStruct ex_ast (\<lambda>fs. 7) (ex_g\<lparr>gs_init := None\<rparr>) 0 ts" by auto
  then obtain sfs where "length sfs = length (a_Fields ex_ast 0)" and ff: "\<forall>offs. length offs = length sfs \<longrightarrow>
        (\<exists>ff. DoResolveFields (ex_g\<lparr>gs_init := None\<rparr>) (map2 atOffset sfs offs) = Val ff \<and>
           F_ID ` set ff = {i \<in> (\<lambda>f. ucast (fst f)) ` set (a_Fields ex_ast 0). 0 \<le> sint i})"
    by (auto simp: builtStruct_def)
  then have "length [0, 8, 16 :: nat] = length sfs" by (simp add: ex_sels)
  from ff [rule_format, OF this] show ?thesis unfolding ids by blast
qed

text \<open>A struct that could not be built stays in the map, as the struct without fields.\<close>

lemma builder_error_forgotten:
  assumes m: "structsOK m" "m sl = None"
    and b: "buildStructFromAST A sid (buildTypeFromAST A sid n) tree sl m = Some (Err e, m')"
  shows "buildStructFromAST A sid (buildTypeFromAST A sid n) tree sl m' = Some (Val (EmptyStructTypeSpec sid), m')"
proof -
  have ok: "structsOK (m(sl \<mapsto> EmptyStructTypeSpec sid))" using m(1) anonymous_Empty by (rule structsOK_upd)
  from b m(2) have f: "buildFields (buildTypeFromAST A sid n tree) (a_Fields A sl)
      (m(sl \<mapsto> EmptyStructTypeSpec sid)) = Some (Err e, m')"
    by (auto simp: buildStructFromAST_def bbind_def Let_def split: option.splits res.splits go.splits)
  from buildFields_keeps [where bt = "buildTypeFromAST A sid n tree", OF buildType_keeps ok, of "a_Fields A sl"] f
  have "m(sl \<mapsto> EmptyStructTypeSpec sid) \<subseteq>\<^sub>m m'" by (simp add: keeps_def)
  then have "m' sl = Some (EmptyStructTypeSpec sid)" by (auto simp: map_le_def split: if_splits)
  then show ?thesis by (simp add: buildStructFromAST_def)
qed

end
