(* ===== verification/Spec2Isabelle.thy ===== *)
theory Spec2Isabelle
  imports CodecProps DescMap ProgramProps PrefetchProps ComponentProps HelperProps
    FuzzProps FuzzStructProps FuzzBuilderProps
begin

text \<open>
  A verification development for \<^verbatim>\<open>frugal\<close>, a serialiser of Go structs to the Thrift binary
  format that works by reflection and unsafe memory access. The paths below are those of the
  repository.

  \<^bold>\<open>The program.\<close> A struct type carries its Thrift types in struct tags.
  \<^verbatim>\<open>internal/defs\<close> parses the tags and resolves the fields of a Go type;
  \<^verbatim>\<open>internal/reflect\<close> builds a runtime type (\<^verbatim>\<open>tType\<close>) and a struct descriptor
  (\<^verbatim>\<open>structDesc\<close>) for each, links them over the graph of struct types and publishes them in a
  map. \<^verbatim>\<open>EncodedSize\<close>, \<^verbatim>\<open>EncodeObject\<close> and \<^verbatim>\<open>DecodeObject\<close> of \<^verbatim>\<open>frugal.go\<close> look up the
  descriptor and follow it through the memory of the object. \<^verbatim>\<open>fuzz\<close> checks whether a buffer is
  Thrift binary and makes Go struct types to decode it with.

  \<^bold>\<open>Common ground.\<close>
  \<^item> \<open>Prelude\<close>: byte strings, \<open>'a go\<close> (a value or a panic), the fact collections, lemmas on lists
    and words. \<open>Result\<close>: \<open>('e, 'a) res\<close>, a value, an error or a panic.
  \<^item> \<open>GoMemory\<close>: the values in memory (\<open>gval\<close>) and their access at offsets; \<open>BadMemory\<close> is an
    access with the wrong type. \<open>WireInt\<close>: the big-endian integers, with the locale \<open>be_codec\<close>.
  \<^item> \<open>Example\<close>, \<open>ExampleProgram\<close>: the struct that the witnesses are about, from its tags on.

  \<^bold>\<open>Types and descriptors\<close> (\<^verbatim>\<open>internal/defs\<close>, \<^verbatim>\<open>ttype.go\<close>, \<^verbatim>\<open>desc.go\<close>, \<^verbatim>\<open>descmap.go\<close>).
  \<^item> \<open>DefsTypes\<close>, \<open>TypeParser\<close>: \<^verbatim>\<open>types.go\<close>. \<open>TypeParserCorrect\<close>: positions, panics and the
    typing of the result; \<open>TypeSyntax\<close>: parsing inverts the printed syntax of a type.
  \<^item> \<open>Resolver\<close>: \<^verbatim>\<open>resolver.go\<close>. \<open>ResolverCorrect\<close>: what a resolved field guarantees.
  \<^item> \<open>TType\<close>, \<open>TTypeCache\<close>: \<^verbatim>\<open>newTType\<close> as a construction of values, and with its cache on a
    heap of shared objects, which refines it. \<open>StructDesc\<close>, \<open>DescCorrect\<close>: \<^verbatim>\<open>newStructDesc\<close>
    and the well-formedness of what it builds. \<open>MapTypes\<close>: the map types \<^verbatim>\<open>newTType\<close> builds,
    those the codec does not support included, and what becomes of a pointer to a list or a map.
  \<^item> \<open>Utils\<close>: \<^verbatim>\<open>utils.go\<close>, \<^verbatim>\<open>sizes.go\<close>. \<open>GetSizeCorrect\<close>: \<^verbatim>\<open>GetSize\<close> is the length of the
    specified encoding, structs included.
  \<^item> \<open>Prefetch\<close>, \<open>PrefetchCorrect\<close>, \<open>Program\<close>: the traversal of the struct types, its caches, its
    termination and completeness, and the environment \<open>env_of\<close> of a program, over which
    encoder and decoder are modelled. \<open>DescMap\<close>: the published map, with the locales
    \<open>lookup_table\<close> and \<open>desc_cache\<close>.

  \<^bold>\<open>The encoder\<close> (\<^verbatim>\<open>append*.go\<close>, \<^verbatim>\<open>ttype.go\<close>).
  \<^item> \<open>AppendCore\<close>, \<open>AppendList\<close>, \<open>AppendMap\<close>, \<open>AppendMapFast\<close> with the 64 specialised map
    functions, tied together by \<open>AppendRun\<close>; \<open>EncodedSize\<close>; the entry points in \<open>Frugal\<close>.
  \<^item> \<open>Conform\<close>, \<open>ConformLib\<close>: when a value fits its type. \<open>WireSpec\<close>: the encoding of a value as
    a function, without buffers and pointers. \<open>EncodeCorrect\<close>, \<open>SizeCorrect\<close>: encoder and size
    computation implement it; \<open>FastPaths\<close>: the specialised functions are the generic ones.
    \<open>Grammar\<close>: what is written belongs to the grammar of the format.

  \<^bold>\<open>The decoder\<close> (\<^verbatim>\<open>decoder.go\<close>, \<^verbatim>\<open>bitset.go\<close>, \<^verbatim>\<open>span.go\<close>, \<^verbatim>\<open>unknownfields.go\<close>).
  \<^item> \<open>Bitset\<close> (locale \<open>field_set\<close>), \<open>Span\<close>, \<open>UnknownFields\<close>, \<open>Decoder\<close>; the entry points in
    \<open>FrugalDecode\<close>.
  \<^item> \<open>DecodeSafe\<close>, \<open>DecodeSafeStruct\<close>: safety on any input. \<open>FieldLoop\<close>: the loop over the
    fields as a transition system. \<open>Equivalence\<close>, \<open>RoundTrip\<close>, \<open>RoundTripStruct\<close>: decoding inverts
    the specification.

  \<^bold>\<open>The fuzzer\<close> (\<^verbatim>\<open>fuzz\<close>).
  \<^item> \<open>FuzzType\<close>, \<open>FuzzCheck\<close>: \<^verbatim>\<open>type.go\<close>, \<^verbatim>\<open>check.go\<close>. \<open>FuzzCorrect\<close>: the checker accepts the
    grammar's strings only, and ends.
  \<^item> \<open>FuzzStruct\<close>, \<open>FuzzBuilder\<close>: \<^verbatim>\<open>struct_fuzz.go\<close>, \<^verbatim>\<open>builder/dynamic_struct.go\<close>.
    \<open>FuzzStructCorrect\<close>, \<open>FuzzBuilderCorrect\<close>: the resolver accepts the struct types they make.
    \<open>FuzzBuilderTerm\<close>: the builder ends, also on structs that refer to each other.

  \<^bold>\<open>The properties\<close> are in the theories named \<open>...Props\<close> and in \<open>EncodeBehaviour\<close>: the refinement
  of the specification by encoder and size, the round trip, safety, required and unknown fields
  of the decoder, the equivalence of the fast paths, the contracts of the components, the
  parser, resolver and descriptor graph, and the fuzzer. Some state where the code does not do
  what it means to: a field id 65535, a forgotten error of the prefetch, the size of a list of
  structs by value, a map from a scalar or a string to \<^verbatim>\<open>binary\<close>, which the specialised encoder
  reads as a map to \<^verbatim>\<open>string\<close>, and the search for duplicates in a set of \<^verbatim>\<open>binary\<close>, which reads
  \<^verbatim>\<open>[][]byte\<close> as \<^verbatim>\<open>[]string\<close>. The well-formed types (\<open>wfT\<close>) that the properties of encoder and
  decoder assume leave out those maps and the pointers to containers and to \<^verbatim>\<open>binary\<close>.

  \<^bold>\<open>Bounds and fuel.\<close> The encoder's fuel \<open>k\<close> is its call depth; a value of nesting \<open>n \<le> k\<close> is
  encoded, and Go has no bound. The decoder's is its own limit, \<^verbatim>\<open>maxDepthLimit\<close> 1023; a
  struct takes two levels, so the round trip holds to 511 nested values. The prefetch needs fuel
  above the number of struct types of the program, \<^verbatim>\<open>Check\<close> above the length of its buffer
  (both proved enough), \<^verbatim>\<open>GetSize\<close> the depth of structs by value. The corpus builder
  ends on a syntax tree without cyclic typedefs, with fuel for the struct types not yet built
  times the nesting of a type (proved enough); on a cyclic typedef it recurses
  without end in Go, and has no result here.

  \<^bold>\<open>Parameters\<close>, for code outside the repository: \<^verbatim>\<open>thrift.Binary.Skip\<close>, the runtime's
  allocator and what memory that is not cleared holds (\<open>dctx\<close>), the readers of the \<^verbatim>\<open>thrift\<close> package (\<open>bproto\<close>, assumed to do what \<open>bproto_ok\<close> says), the
  addresses of types, the layout of structs, the identity of types made by \<^verbatim>\<open>reflect.StructOf\<close>,
  the syntax tree of \<^verbatim>\<open>thriftgo\<close> (\<open>ast\<close>). Go visits a map in an order of its own; here it is
  the order of the value's list of entries, which is arbitrary. The witnesses instantiate them.

  \<^bold>\<open>Not modelled.\<close> Concurrency: the locks and the atomic pointer of the descriptor map, the
  \<^verbatim>\<open>sync.Pool\<close>s beyond the state a pooled object carries over. \<^verbatim>\<open>hack.go\<close>, the unsafe views of
  the runtime's own structures, whose values the model has directly. The texts of error messages
  beyond what they say. \<^verbatim>\<open>GetDefaultInitializer\<close> of \<^verbatim>\<open>defaults.go\<close>, which nothing calls.
  \<^verbatim>\<open>options.go\<close>, \<^verbatim>\<open>internal/opts\<close>, \<^verbatim>\<open>debug\<close> and \<^verbatim>\<open>iov\<close>, kept for compatibility and
  without effect. \<^verbatim>\<open>BuildThriftStruct\<close> and \<^verbatim>\<open>main.go\<close> of the corpus builder, which parse and
  write files, and the helpers of the tests (\<^verbatim>\<open>internal/assert\<close>).
\<close>

end
